(* ===== verification/Cmd.thy ===== *)
theory Cmd
  imports Prelude "HOL-Library.While_Combinator"
begin

text \<open>
  The execution model of the firmware. Every access to a memory-mapped register, to
  the flash array, to the packet memory or to the word kept across resets is a bus
  access. The hardware is a parameter of the model: a function from the accesses made
  so far to the answer of the next one, where \<open>None\<close> is a bus fault. The program is
  a command: a function of its state that either finishes with a value or stops for a
  reason (a fault, a system reset, a loop that never ends, an access outside a C
  array, the jump into the application).
\<close>

section \<open>Bus accesses\<close>

datatype width = W8 | W16 | W32

datatype access = Load width u32 | Store width u32 u32

text \<open>An access that was answered: a load with the value read, or a store.\<close>

datatype event = Loaded width u32 u32 | Stored width u32 u32

text \<open>The accesses made so far, the latest first.\<close>

type_synonym history = "event list"

type_synonym hw = "history \<Rightarrow> access \<Rightarrow> u32 option"

section \<open>Commands\<close>

datatype stop =
    BusFault
  | Reset
  | Hang
  | OutOfBounds
  | JumpApp u32 u32

datatype ('s, 'a) result = Done 'a 's | Stopped stop 's

type_synonym ('s, 'a) cmd = "'s \<Rightarrow> ('s, 'a) result"

definition give :: "'a \<Rightarrow> ('s, 'a) cmd" where
  "give x s = Done x s"

definition halt :: "stop \<Rightarrow> ('s, 'a) cmd" where
  "halt r s = Stopped r s"

definition bindc :: "('s, 'a) cmd \<Rightarrow> ('a \<Rightarrow> ('s, 'b) cmd) \<Rightarrow> ('s, 'b) cmd" where
  "bindc c f s = (case c s of Done x s' \<Rightarrow> f x s' | Stopped r s' \<Rightarrow> Stopped r s')"

definition getc :: "('s \<Rightarrow> 'a) \<Rightarrow> ('s, 'a) cmd" where
  "getc f s = Done (f s) s"

definition modc :: "('s \<Rightarrow> 's) \<Rightarrow> ('s, unit) cmd" where
  "modc f s = Done () (f s)"

abbreviation skip :: "('s, unit) cmd" where
  "skip \<equiv> give ()"

text \<open>A block of statements.\<close>

primrec block :: "('s, unit) cmd list \<Rightarrow> ('s, unit) cmd" where
  "block [] = skip"
| "block (c # cs) = bindc c (\<lambda>_. block cs)"

text \<open>\<open>for (i = 0; i < n; i++) body(i);\<close> with a bound known before the loop\<close>

definition forc :: "nat \<Rightarrow> (nat \<Rightarrow> ('s, unit) cmd) \<Rightarrow> ('s, unit) cmd" where
  "forc n body = block (map body [0..<n])"

text \<open>
  \<open>while (c) b;\<close> with a condition that may itself access the bus. A loop that never
  ends is the stop \<open>Hang\<close>.
\<close>

definition whilec :: "('s, bool) cmd \<Rightarrow> ('s, unit) cmd \<Rightarrow> ('s, unit) cmd" where
  "whilec c b s =
     (case while_option
         (\<lambda>r. case r of Done t _ \<Rightarrow> t | Stopped _ _ \<Rightarrow> False)
         (\<lambda>r. case r of Done _ s' \<Rightarrow> bindc b (\<lambda>_. c) s' | Stopped _ _ \<Rightarrow> r)
         (c s) of
       None \<Rightarrow> Stopped Hang s
     | Some (Done _ s') \<Rightarrow> Done () s'
     | Some (Stopped r s') \<Rightarrow> Stopped r s')"

text \<open>A command on a part of the state.\<close>

definition zoom ::
  "('s \<Rightarrow> 't) \<Rightarrow> ('t \<Rightarrow> 's \<Rightarrow> 's) \<Rightarrow> ('t, 'a) cmd \<Rightarrow> ('s, 'a) cmd" where
  "zoom get put c s =
     (case c (get s) of
       Done x t \<Rightarrow> Done x (put t s)
     | Stopped r t \<Rightarrow> Stopped r (put t s))"

lemma bindc_give [simp]: "bindc (give x) f = f x"
  by (rule ext) (simp add: bindc_def give_def)

lemma bindc_halt [simp]: "bindc (halt r) f = halt r"
  by (rule ext) (simp add: bindc_def halt_def)

lemma bindc_unit [simp]: "bindc c give = c"
  by (rule ext) (simp add: bindc_def give_def split: result.splits)

lemma bindc_assoc: "bindc (bindc c f) g = bindc c (\<lambda>x. bindc (f x) g)"
  by (rule ext) (simp add: bindc_def split: result.splits)

lemma bindc_Done: "c s = Done x s' \<Longrightarrow> bindc c f s = f x s'"
  by (simp add: bindc_def)

lemma bindc_Stopped: "c s = Stopped r s' \<Longrightarrow> bindc c f s = Stopped r s'"
  by (simp add: bindc_def)

lemma bindc_getc: "bindc (getc f) g s = g (f s) s"
  by (simp add: bindc_def getc_def)

lemma bindc_eq_Done:
  "bindc c f s = Done y s'' \<longleftrightarrow> (\<exists>x s'. c s = Done x s' \<and> f x s' = Done y s'')"
  by (auto simp: bindc_def split: result.splits)

lemma block_append: "block (cs @ ds) = bindc (block cs) (\<lambda>_. block ds)"
  by (induction cs) (simp_all add: bindc_assoc)

lemma block_Done: "c s = Done u s' \<Longrightarrow> block (c # cs) s = block cs s'"
  by (simp add: bindc_Done)

lemma forc_0 [simp]: "forc 0 body = skip"
  by (simp add: forc_def)

lemma forc_Suc: "forc (Suc n) body = bindc (forc n body) (\<lambda>_. body n)"
  by (rule ext) (auto simp: forc_def block_append bindc_def give_def split: result.splits)

lemma whilec_exit: "c s = Done False s' \<Longrightarrow> whilec c b s = Done () s'"
  by (simp add: whilec_def while_option_unfold)

lemma whilec_step:
  assumes "c s = Done True s1" and "b s1 = Done u s2" and "whilec c b s2 = Done v s3"
  shows "whilec c b s = Done v s3"
proof -
  have "bindc b (\<lambda>_. c) s1 = c s2" using assms(2) by (simp add: bindc_def)
  then show ?thesis using assms(1,3)
    unfolding whilec_def by (subst while_option_unfold) (auto split: option.splits)
qed

text \<open>A loop whose condition stays true never ends.\<close>

lemma whilec_hangs:
  assumes "\<exists>t. c s = Done True t \<and> I t"
    and "\<And>t. I t \<Longrightarrow> \<exists>t'. bindc b (\<lambda>_. c) t = Done True t' \<and> I t'"
  shows "whilec c b s = Stopped Hang s"
proof -
  let ?P = "\<lambda>r. case r of Done t _ \<Rightarrow> t | Stopped _ _ \<Rightarrow> False"
  let ?b = "\<lambda>r. case r of Done _ s' \<Rightarrow> bindc b (\<lambda>_. c) s' | Stopped _ _ \<Rightarrow> r"
  have "while_option ?P ?b (c s) = None"
  proof (rule ccontr)
    assume "while_option ?P ?b (c s) \<noteq> None"
    then obtain r where r: "while_option ?P ?b (c s) = Some r" by blast
    have "\<exists>t. r = Done True t \<and> I t"
      by (rule while_option_rule [OF _ r, where P = "\<lambda>r. \<exists>t. r = Done True t \<and> I t"])
        (use assms in auto)
    with while_option_stop [OF r] show False by auto
  qed
  then show ?thesis by (simp add: whilec_def)
qed

text \<open>
  \<open>for (a = lo; a < lim; a += step) body(a);\<close> with the loop variable a 32-bit word that
  lives beside the state.
\<close>

definition for_step :: "u32 \<Rightarrow> u32 \<Rightarrow> u32 \<Rightarrow> (u32 \<Rightarrow> ('s, unit) cmd) \<Rightarrow> ('s, unit) cmd" where
  "for_step lo lim step body s =
     (case whilec (getc (\<lambda>(s, a). a < lim))
         (bindc (getc snd) (\<lambda>a. block
            [zoom fst (\<lambda>t (s, a). (t, a)) (body a),
             modc (\<lambda>(s, a). (s, a + step))])) (s, lo) of
       Done _ (s', _) \<Rightarrow> Done () s'
     | Stopped r (s', _) \<Rightarrow> Stopped r s')"

lemma for_step_done:
  assumes "\<not> lo < lim"
  shows "for_step lo lim step body s = Done () s"
proof -
  have c: "getc (\<lambda>(s, a). a < lim) (s, lo) = Done False (s, lo)"
    using assms by (simp add: getc_def)
  show ?thesis
    by (simp add: for_step_def
        whilec_exit [where c = "getc (\<lambda>(s, a). a < lim)" and s = "(s, lo)", OF c])
qed

lemma for_step_step:
  assumes "lo < lim" and "body lo s = Done u s1"
    and "for_step (lo + step) lim step body s1 = Done () s'"
  shows "for_step lo lim step body s = Done () s'"
proof -
  let ?c = "getc (\<lambda>(s, a). a < lim)"
  let ?b = "bindc (getc snd) (\<lambda>a. block
            [zoom fst (\<lambda>t (s, a). (t, a)) (body a), modc (\<lambda>(s, a). (s, a + step))])"
  from assms(3) obtain a where w: "whilec ?c ?b (s1, lo + step) = Done () (s', a)"
    by (auto simp only: for_step_def split: result.splits prod.splits)
  have c: "?c (s, lo) = Done True (s, lo)" using assms(1) by (simp add: getc_def)
  have b: "?b (s, lo) = Done () (s1, lo + step)"
    using assms(2) by (simp add: getc_def bindc_def zoom_def modc_def give_def)
  have "whilec ?c ?b (s, lo) = Done () (s', a)"
    by (rule whilec_step [where c = ?c and b = ?b]) (fact c, fact b, fact w)
  then show ?thesis by (simp only: for_step_def result.case prod.case)
qed

section \<open>The bus\<close>

definition load :: "hw \<Rightarrow> width \<Rightarrow> u32 \<Rightarrow> (history, u32) cmd" where
  "load H w a h =
     (case H h (Load w a) of
       None \<Rightarrow> Stopped BusFault h
     | Some v \<Rightarrow> Done v (Loaded w a v # h))"

definition store :: "hw \<Rightarrow> width \<Rightarrow> u32 \<Rightarrow> u32 \<Rightarrow> (history, unit) cmd" where
  "store H w a v h =
     (case H h (Store w a v) of
       None \<Rightarrow> Stopped BusFault h
     | Some _ \<Rightarrow> Done () (Stored w a v # h))"

abbreviation load32 :: "hw \<Rightarrow> u32 \<Rightarrow> (history, u32) cmd" where
  "load32 H a \<equiv> load H W32 a"

abbreviation store32 :: "hw \<Rightarrow> u32 \<Rightarrow> u32 \<Rightarrow> (history, unit) cmd" where
  "store32 H a v \<equiv> store H W32 a v"

definition load16 :: "hw \<Rightarrow> u32 \<Rightarrow> (history, u16) cmd" where
  "load16 H a = bindc (load H W16 a) (\<lambda>v. give (ucast v))"

definition load8 :: "hw \<Rightarrow> u32 \<Rightarrow> (history, u8) cmd" where
  "load8 H a = bindc (load H W8 a) (\<lambda>v. give (ucast v))"

definition store16 :: "hw \<Rightarrow> u32 \<Rightarrow> u16 \<Rightarrow> (history, unit) cmd" where
  "store16 H a v = store H W16 a (ucast v)"

text \<open>\<open>REG |= m\<close> and \<open>REG &= m\<close>: a load followed by a store\<close>

definition or32 :: "hw \<Rightarrow> u32 \<Rightarrow> u32 \<Rightarrow> (history, unit) cmd" where
  "or32 H a m = bindc (load32 H a) (\<lambda>v. store32 H a (v OR m))"

definition and32 :: "hw \<Rightarrow> u32 \<Rightarrow> u32 \<Rightarrow> (history, unit) cmd" where
  "and32 H a m = bindc (load32 H a) (\<lambda>v. store32 H a (v AND m))"

text \<open>\<open>while (p(REG));\<close>\<close>

definition spin_while :: "hw \<Rightarrow> u32 \<Rightarrow> (u32 \<Rightarrow> bool) \<Rightarrow> (history, unit) cmd" where
  "spin_while H a p = whilec (bindc (load32 H a) (\<lambda>v. give (p v))) skip"

text \<open>
  \<open>settles H a p h\<close>: a hardware condition polled at address \<open>a\<close> is over after finitely
  many loads, all answered. It is what a polling loop needs to end.
\<close>

inductive settles :: "hw \<Rightarrow> u32 \<Rightarrow> (u32 \<Rightarrow> bool) \<Rightarrow> history \<Rightarrow> bool"
  for H :: hw and a :: u32 and p :: "u32 \<Rightarrow> bool" where
  now: "H h (Load W32 a) = Some v \<Longrightarrow> \<not> p v \<Longrightarrow> settles H a p h"
| later: "H h (Load W32 a) = Some v \<Longrightarrow> p v \<Longrightarrow> settles H a p (Loaded W32 a v # h) \<Longrightarrow>
    settles H a p h"

fun loads_of :: "u32 \<Rightarrow> event list \<Rightarrow> bool" where
  "loads_of a es = list_all (\<lambda>e. \<exists>v. e = Loaded W32 a v) es"

lemma spin_while_settles:
  "settles H a p h \<Longrightarrow> \<exists>es. spin_while H a p h = Done () (es @ h) \<and> loads_of a es"
proof (induction rule: settles.induct)
  case (now h v)
  then have "spin_while H a p h = Done () ([Loaded W32 a v] @ h)"
    unfolding spin_while_def by (subst whilec_exit) (simp_all add: bindc_def load_def give_def)
  then show ?case by (intro exI [of _ "[Loaded W32 a v]"]) simp
next
  case (later h v)
  then obtain es where es: "spin_while H a p (Loaded W32 a v # h) = Done () (es @ Loaded W32 a v # h)"
    and l: "loads_of a es" by blast
  have "spin_while H a p h = Done () (es @ Loaded W32 a v # h)"
    using es unfolding spin_while_def
    by (rule whilec_step [rotated 2])
      (use later in \<open>simp_all add: bindc_def load_def give_def\<close>)
  then show ?case using l by (intro exI [of _ "es @ [Loaded W32 a v]"]) simp
qed

section \<open>Invariants of commands\<close>

text \<open>
  \<open>triple P c Q E\<close>: from a state with \<open>P\<close>, the command finishes with \<open>Q\<close> or stops with
  \<open>E\<close>. \<open>keeps I c\<close>: whatever way the command ends, the invariant holds in the state it
  leaves behind.
\<close>

definition triple ::
  "('s \<Rightarrow> bool) \<Rightarrow> ('s, 'a) cmd \<Rightarrow> ('a \<Rightarrow> 's \<Rightarrow> bool) \<Rightarrow> (stop \<Rightarrow> 's \<Rightarrow> bool) \<Rightarrow> bool" where
  "triple P c Q E \<longleftrightarrow>
     (\<forall>s. P s \<longrightarrow> (case c s of Done x s' \<Rightarrow> Q x s' | Stopped r s' \<Rightarrow> E r s'))"

definition keeps :: "('s \<Rightarrow> bool) \<Rightarrow> ('s, 'a) cmd \<Rightarrow> bool" where
  "keeps I c \<longleftrightarrow> triple I c (\<lambda>_. I) (\<lambda>_. I)"

lemma tripleI:
  "(\<And>s x s'. P s \<Longrightarrow> c s = Done x s' \<Longrightarrow> Q x s') \<Longrightarrow>
   (\<And>s r s'. P s \<Longrightarrow> c s = Stopped r s' \<Longrightarrow> E r s') \<Longrightarrow> triple P c Q E"
  by (auto simp: triple_def split: result.splits)

lemma tripleD_Done: "triple P c Q E \<Longrightarrow> P s \<Longrightarrow> c s = Done x s' \<Longrightarrow> Q x s'"
  by (force simp: triple_def split: result.splits)

lemma tripleD_Stopped: "triple P c Q E \<Longrightarrow> P s \<Longrightarrow> c s = Stopped r s' \<Longrightarrow> E r s'"
  by (force simp: triple_def split: result.splits)

lemma triple_weaken:
  "triple P c Q E \<Longrightarrow> (\<And>s. P' s \<Longrightarrow> P s) \<Longrightarrow> (\<And>x s. Q x s \<Longrightarrow> Q' x s) \<Longrightarrow>
   (\<And>r s. E r s \<Longrightarrow> E' r s) \<Longrightarrow> triple P' c Q' E'"
  by (fastforce simp: triple_def split: result.splits)

lemma triple_bindc:
  assumes "triple P c R E" and "\<And>x. triple (R x) (f x) Q E"
  shows "triple P (bindc c f) Q E"
  using assms by (fastforce simp: triple_def bindc_def split: result.splits)

lemma triple_conj:
  "triple P c Q E \<Longrightarrow> triple P' c Q' E' \<Longrightarrow>
   triple (\<lambda>s. P s \<and> P' s) c (\<lambda>x s. Q x s \<and> Q' x s) (\<lambda>r s. E r s \<and> E' r s)"
  by (auto simp: triple_def split: result.splits)

lemma keeps_Done: "keeps I c \<Longrightarrow> I s \<Longrightarrow> c s = Done x s' \<Longrightarrow> I s'"
  unfolding keeps_def by (rule tripleD_Done)

lemma keeps_Stopped: "keeps I c \<Longrightarrow> I s \<Longrightarrow> c s = Stopped r s' \<Longrightarrow> I s'"
  unfolding keeps_def by (rule tripleD_Stopped)

lemma keepsI:
  "(\<And>s x s'. I s \<Longrightarrow> c s = Done x s' \<Longrightarrow> I s') \<Longrightarrow>
   (\<And>s r s'. I s \<Longrightarrow> c s = Stopped r s' \<Longrightarrow> I s') \<Longrightarrow> keeps I c"
  unfolding keeps_def by (rule tripleI)

lemma keeps_give [keeps_rules]: "keeps I (give x)"
  by (simp add: keeps_def triple_def give_def)

lemma keeps_halt [keeps_rules]: "keeps I (halt r)"
  by (simp add: keeps_def triple_def halt_def)

lemma keeps_getc [keeps_rules]: "keeps I (getc f)"
  by (simp add: keeps_def triple_def getc_def)

lemma keeps_modc: "(\<And>s. I s \<Longrightarrow> I (f s)) \<Longrightarrow> keeps I (modc f)"
  by (simp add: keeps_def triple_def modc_def)

lemma keeps_bindc [keeps_rules]:
  "keeps I c \<Longrightarrow> (\<And>x. keeps I (f x)) \<Longrightarrow> keeps I (bindc c f)"
  unfolding keeps_def by (rule triple_bindc)

lemma keeps_if [keeps_rules]:
  "(b \<Longrightarrow> keeps I c) \<Longrightarrow> (\<not> b \<Longrightarrow> keeps I d) \<Longrightarrow> keeps I (if b then c else d)"
  by simp

lemma keeps_block [keeps_rules]: "(\<And>c. c \<in> set cs \<Longrightarrow> keeps I c) \<Longrightarrow> keeps I (block cs)"
  by (induction cs) (auto intro!: keeps_give keeps_bindc)

lemma keeps_forc [keeps_rules]: "(\<And>i. i < n \<Longrightarrow> keeps I (body i)) \<Longrightarrow> keeps I (forc n body)"
  unfolding forc_def by (rule keeps_block) auto

lemma triple_whilec:
  assumes c: "triple I c (\<lambda>t s. if t then J s else I s) E"
    and b: "triple J b (\<lambda>_. I) E" and hang: "\<And>s. I s \<Longrightarrow> E Hang s"
  shows "triple I (whilec c b) (\<lambda>_. I) E"
proof -
  let ?K = "\<lambda>r. case r of Done t s \<Rightarrow> if t then J s else I s | Stopped r s \<Rightarrow> E r s"
  let ?test = "\<lambda>r. case r of Done t _ \<Rightarrow> t | Stopped _ _ \<Rightarrow> False"
  let ?step = "\<lambda>r. case r of Done _ s' \<Rightarrow> bindc b (\<lambda>_. c) s' | Stopped _ _ \<Rightarrow> r"
  have bc: "triple J (bindc b (\<lambda>_. c)) (\<lambda>t s. if t then J s else I s) E"
    using b c by (rule triple_bindc)
  have init: "?K (c s)" if "I s" for s
    using that c by (auto simp: triple_def)
  have step: "?K (?step r)" if "?K r" "?test r" for r
    using that bc by (cases r) (auto simp: triple_def)
  have final: "?K r" if "I s" "while_option ?test ?step (c s) = Some r" for s r
    by (rule while_option_rule [where P = ?K, OF step that(2) init [OF that(1)]])
  have stops: "\<not> ?test r" if "while_option ?test ?step (c s) = Some r" for s r
    using that by (rule while_option_stop)
  show ?thesis
  proof (rule tripleI)
    fix s x s' assume s: "I s" and e: "whilec c b s = Done x s'"
    from e obtain t where w: "while_option ?test ?step (c s) = Some (Done t s')"
      by (auto simp: whilec_def split: option.splits result.splits)
    from final [OF s w] stops [OF w] show "I s'" by simp
  next
    fix s r s' assume s: "I s" and e: "whilec c b s = Stopped r s'"
    then consider (hang) "s' = s" "r = Hang"
      | (stop) "while_option ?test ?step (c s) = Some (Stopped r s')"
      by (auto simp: whilec_def split: option.splits result.splits)
    then show "E r s'"
    proof cases
      case hang
      with hang s assms(3) show ?thesis by simp
    next
      case stop
      from final [OF s this] show ?thesis by simp
    qed
  qed
qed

lemma keeps_whilec [keeps_rules]: "keeps I c \<Longrightarrow> keeps I b \<Longrightarrow> keeps I (whilec c b)"
  unfolding keeps_def by (rule triple_whilec [where J = I]) simp_all

lemma keeps_for_step_inv:
  assumes P: "P lo" "\<And>a. P a \<Longrightarrow> a < lim \<Longrightarrow> P (a + step)"
    and body: "\<And>a. P a \<Longrightarrow> a < lim \<Longrightarrow> keeps I (body a)"
  shows "keeps I (for_step lo lim step body)"
proof -
  let ?c = "getc (\<lambda>(s, a). a < lim)"
  let ?b = "bindc (getc snd) (\<lambda>a. block
            [zoom fst (\<lambda>t (s, a). (t, a)) (body a), modc (\<lambda>(s, a). (s, a + step))])"
  let ?I = "\<lambda>(s, a). I s \<and> P a" and ?E = "\<lambda>_ (s, a). I s"
  have w: "triple ?I (whilec ?c ?b) (\<lambda>_. ?I) ?E"
  proof (rule triple_whilec [where J = "\<lambda>(s, a). I s \<and> P a \<and> a < lim"])
    show "triple ?I ?c
        (\<lambda>t s. if t then case s of (s, a) \<Rightarrow> I s \<and> P a \<and> a < lim else case s of (s, a) \<Rightarrow> I s \<and> P a) ?E"
      by (auto simp: triple_def getc_def)
    show "triple (\<lambda>(s, a). I s \<and> P a \<and> a < lim) ?b (\<lambda>_. ?I) ?E"
      by (rule tripleI)
        (auto simp: bindc_def getc_def modc_def give_def zoom_def P split: result.splits
          dest: keeps_Done [OF body] keeps_Stopped [OF body])
  qed auto
  show ?thesis
  proof (rule keepsI)
    fix s x s' assume s: "I s" and e: "for_step lo lim step body s = Done x s'"
    from e obtain u a where "whilec ?c ?b (s, lo) = Done u (s', a)"
      by (auto simp only: for_step_def split: result.splits prod.splits)
    from tripleD_Done [OF w _ this] s P show "I s'" by simp
  next
    fix s r s' assume s: "I s" and e: "for_step lo lim step body s = Stopped r s'"
    from e obtain a where "whilec ?c ?b (s, lo) = Stopped r (s', a)"
      by (auto simp only: for_step_def split: result.splits prod.splits)
    from tripleD_Stopped [OF w _ this] s P show "I s'" by simp
  qed
qed

lemma keeps_for_step [keeps_rules]:
  "(\<And>a. a < lim \<Longrightarrow> keeps I (body a)) \<Longrightarrow> keeps I (for_step lo lim step body)"
  by (rule keeps_for_step_inv [where P = "\<lambda>_. True"]) simp_all

lemma keeps_bind_getc: "(\<And>s. I s \<Longrightarrow> keeps I (g (f s))) \<Longrightarrow> keeps I (bindc (getc f) g)"
  by (rule keepsI) (auto simp: bindc_def getc_def dest: keeps_Done keeps_Stopped)

lemma keeps_bind_val:
  assumes "keeps I c" and "\<And>s x s'. I s \<Longrightarrow> c s = Done x s' \<Longrightarrow> P x"
    and "\<And>x. P x \<Longrightarrow> keeps I (f x)"
  shows "keeps I (bindc c f)"
proof (rule keepsI)
  fix s y s' assume s: "I s" and e: "bindc c f s = Done y s'"
  then obtain x s1 where 1: "c s = Done x s1" "f x s1 = Done y s'" by (auto simp: bindc_eq_Done)
  from assms(2) [OF s 1(1)] have "keeps I (f x)" by (rule assms(3))
  from keeps_Done [OF this keeps_Done [OF assms(1) s 1(1)] 1(2)] show "I s'" .
next
  fix s r s' assume s: "I s" and e: "bindc c f s = Stopped r s'"
  then consider (first) "c s = Stopped r s'"
    | (second) x s1 where "c s = Done x s1" "f x s1 = Stopped r s'"
    by (auto simp: bindc_def split: result.splits)
  then show "I s'"
  proof cases
    case first
    with keeps_Stopped [OF assms(1) s] show ?thesis by simp
  next
    case second
    from assms(2) [OF s second(1)] have "keeps I (f x)" by (rule assms(3))
    from keeps_Stopped [OF this keeps_Done [OF assms(1) s second(1)] second(2)] show ?thesis .
  qed
qed

lemma triple_bind_getc:
  "(\<And>x. triple (\<lambda>s. P s \<and> f s = x) (g x) Q E) \<Longrightarrow> triple P (bindc (getc f) g) Q E"
  by (simp add: triple_def bindc_def getc_def)

lemma keeps_zoom:
  assumes "\<And>s. I s \<Longrightarrow> J (get s)" and "keeps J c"
    and "\<And>s t. I s \<Longrightarrow> J t \<Longrightarrow> I (put t s)"
  shows "keeps I (zoom get put c)"
proof (rule keepsI)
  fix s x s' assume s: "I s" and e: "zoom get put c s = Done x s'"
  from e obtain t where "c (get s) = Done x t" "s' = put t s"
    by (auto simp: zoom_def split: result.splits)
  with s show "I s'" using assms keeps_Done by metis
next
  fix s r s' assume s: "I s" and e: "zoom get put c s = Stopped r s'"
  from e obtain t where "c (get s) = Stopped r t" "s' = put t s"
    by (auto simp: zoom_def split: result.splits)
  with s show "I s'" using assms keeps_Stopped by metis
qed

lemma keeps_load: "(\<And>h v. I h \<Longrightarrow> I (Loaded w a v # h)) \<Longrightarrow> keeps I (load H w a)"
  by (auto simp: keeps_def triple_def load_def split: option.splits)

lemma keeps_store: "(\<And>h. I h \<Longrightarrow> I (Stored w a v # h)) \<Longrightarrow> keeps I (store H w a v)"
  by (auto simp: keeps_def triple_def store_def split: option.splits)

section \<open>How a command may stop\<close>

text \<open>
  \<open>runs I E c\<close>: from a state with the invariant, the command finishes with the invariant
  or stops, with the invariant, for one of the reasons \<open>E\<close>.
\<close>

definition runs :: "('s \<Rightarrow> bool) \<Rightarrow> stop set \<Rightarrow> ('s, 'a) cmd \<Rightarrow> bool" where
  "runs I E c \<longleftrightarrow> triple I c (\<lambda>_. I) (\<lambda>r s. r \<in> E \<and> I s)"

abbreviation always :: "'s \<Rightarrow> bool" where
  "always \<equiv> \<lambda>_. True"

lemma runs_Done: "runs I E c \<Longrightarrow> I s \<Longrightarrow> c s = Done x s' \<Longrightarrow> I s'"
  unfolding runs_def by (rule tripleD_Done)

lemma runs_Stopped: "runs I E c \<Longrightarrow> I s \<Longrightarrow> c s = Stopped r s' \<Longrightarrow> r \<in> E \<and> I s'"
  unfolding runs_def by (rule tripleD_Stopped)

lemma runs_keeps: "runs I E c \<Longrightarrow> keeps I c"
  unfolding runs_def keeps_def by (erule triple_weaken) simp_all

lemma runs_mono: "runs I E c \<Longrightarrow> E \<subseteq> E' \<Longrightarrow> runs I E' c"
  unfolding runs_def by (erule triple_weaken) auto

lemma runs_give [runs_rules]: "runs I E (give x)"
  by (simp add: runs_def triple_def give_def)

lemma runs_halt [runs_rules]: "r \<in> E \<Longrightarrow> runs I E (halt r)"
  by (simp add: runs_def triple_def halt_def)

lemma runs_getc [runs_rules]: "runs I E (getc f)"
  by (simp add: runs_def triple_def getc_def)

lemma runs_modc: "(\<And>s. I s \<Longrightarrow> I (f s)) \<Longrightarrow> runs I E (modc f)"
  by (simp add: runs_def triple_def modc_def)

lemma runs_bindc [runs_rules]: "runs I E c \<Longrightarrow> (\<And>x. runs I E (f x)) \<Longrightarrow> runs I E (bindc c f)"
  unfolding runs_def by (rule triple_bindc)

lemma runs_bind_getc: "(\<And>s. I s \<Longrightarrow> runs I E (g (f s))) \<Longrightarrow> runs I E (bindc (getc f) g)"
  unfolding runs_def
  by (rule tripleI) (auto simp: bindc_def getc_def dest: tripleD_Done tripleD_Stopped)

lemma runs_if [runs_rules]:
  "(b \<Longrightarrow> runs I E c) \<Longrightarrow> (\<not> b \<Longrightarrow> runs I E d) \<Longrightarrow> runs I E (if b then c else d)"
  by simp

lemma runs_cond: "runs I E c \<Longrightarrow> runs I E d \<Longrightarrow> runs I E (\<lambda>s. if P s then c s else d s)"
  by (simp add: runs_def triple_def)

lemma runs_block [runs_rules]: "(\<And>c. c \<in> set cs \<Longrightarrow> runs I E c) \<Longrightarrow> runs I E (block cs)"
  by (induction cs) (auto intro!: runs_give runs_bindc)

lemma runs_forc [runs_rules]: "(\<And>i. i < n \<Longrightarrow> runs I E (body i)) \<Longrightarrow> runs I E (forc n body)"
  unfolding forc_def by (rule runs_block) auto

lemma runs_whilec [runs_rules]:
  "Hang \<in> E \<Longrightarrow> runs I E c \<Longrightarrow> runs I E b \<Longrightarrow> runs I E (whilec c b)"
  unfolding runs_def by (rule triple_whilec [where J = I]) simp_all

lemma runs_zoom:
  assumes "\<And>s. I s \<Longrightarrow> J (get s)" and "runs J E c"
    and "\<And>s t. I s \<Longrightarrow> J t \<Longrightarrow> I (put t s)"
  shows "runs I E (zoom get put c)"
  unfolding runs_def
proof (rule tripleI)
  fix s x s' assume "I s" and "zoom get put c s = Done x s'"
  then show "I s'" using assms runs_Done by (fastforce simp: zoom_def split: result.splits)
next
  fix s r s' assume "I s" and "zoom get put c s = Stopped r s'"
  then show "r \<in> E \<and> I s'"
    using assms runs_Stopped by (fastforce simp: zoom_def split: result.splits)
qed

lemma runs_for_step [runs_rules]:
  assumes "Hang \<in> E" and "\<And>a. a < lim \<Longrightarrow> runs I E (body a)"
  shows "runs I E (for_step lo lim step body)"
proof -
  let ?c = "getc (\<lambda>(s, a). a < lim)"
  let ?b = "bindc (getc snd) (\<lambda>a. block
            [zoom fst (\<lambda>t (s, a). (t, a)) (body a), modc (\<lambda>(s, a). (s, a + step))])"
  let ?I = "\<lambda>(s, a). I s" and ?E = "\<lambda>r (s, a). r \<in> E \<and> I s"
  have w: "triple ?I (whilec ?c ?b) (\<lambda>_. ?I) ?E"
  proof (rule triple_whilec [where J = "\<lambda>(s, a). I s \<and> a < lim"])
    show "triple ?I ?c
        (\<lambda>t s. if t then case s of (s, a) \<Rightarrow> I s \<and> a < lim else case s of (s, a) \<Rightarrow> I s) ?E"
      by (auto simp: triple_def getc_def)
    show "triple (\<lambda>(s, a). I s \<and> a < lim) ?b (\<lambda>_. ?I) ?E"
      by (rule tripleI)
        (auto simp: bindc_def getc_def modc_def give_def zoom_def split: result.splits
          dest: runs_Done [OF assms(2)] runs_Stopped [OF assms(2)])
  qed (use assms(1) in auto)
  show ?thesis
    unfolding runs_def
  proof (rule tripleI)
    fix s x s' assume s: "I s" and e: "for_step lo lim step body s = Done x s'"
    from e obtain u a where "whilec ?c ?b (s, lo) = Done u (s', a)"
      by (auto simp only: for_step_def split: result.splits prod.splits)
    from tripleD_Done [OF w _ this] s show "I s'" by simp
  next
    fix s r s' assume s: "I s" and e: "for_step lo lim step body s = Stopped r s'"
    from e obtain a where "whilec ?c ?b (s, lo) = Stopped r (s', a)"
      by (auto simp only: for_step_def split: result.splits prod.splits)
    from tripleD_Stopped [OF w _ this] s show "r \<in> E \<and> I s'" by simp
  qed
qed

text \<open>Bus accesses may fault, polling may hang.\<close>

lemma runs_load [runs_rules]: "BusFault \<in> E \<Longrightarrow> runs always E (load H w a)"
  by (auto simp: runs_def triple_def load_def split: option.splits)

lemma runs_store [runs_rules]: "BusFault \<in> E \<Longrightarrow> runs always E (store H w a v)"
  by (auto simp: runs_def triple_def store_def split: option.splits)

lemma runs_accesses [runs_rules]:
  "BusFault \<in> E \<Longrightarrow> runs always E (load16 H a)"
  "BusFault \<in> E \<Longrightarrow> runs always E (load8 H a)"
  "BusFault \<in> E \<Longrightarrow> runs always E (store16 H a x)"
  "BusFault \<in> E \<Longrightarrow> runs always E (or32 H a m)"
  "BusFault \<in> E \<Longrightarrow> runs always E (and32 H a m)"
  unfolding load16_def load8_def store16_def or32_def and32_def by (intro runs_rules; simp)+

lemma runs_spin_while [runs_rules]:
  "BusFault \<in> E \<Longrightarrow> Hang \<in> E \<Longrightarrow> runs always E (spin_while H a p)"
  unfolding spin_while_def by (intro runs_rules)

section \<open>The effect of a command on a view of the history\<close>

text \<open>
  A device is a state folded over the bus history. \<open>effect run c F x F'\<close>: wherever the
  device is in state \<open>F\<close>, the command finishes with \<open>x\<close> and leaves the device in \<open>F'\<close>.
\<close>

definition effect :: "('s \<Rightarrow> 'm) \<Rightarrow> ('s, 'a) cmd \<Rightarrow> 'm \<Rightarrow> 'a \<Rightarrow> 'm \<Rightarrow> bool" where
  "effect run c F x F' \<longleftrightarrow>
     (\<forall>h. run h = F \<longrightarrow> (\<exists>h'. c h = Done x h' \<and> run h' = F'))"

lemma effectD: "effect run c F x F' \<Longrightarrow> run h = F \<Longrightarrow> \<exists>h'. c h = Done x h' \<and> run h' = F'"
  by (simp add: effect_def)

lemma effect_give: "effect run (give x) F x F"
  by (simp add: effect_def give_def)

lemma effect_bindc:
  "effect run c F x F' \<Longrightarrow> effect run (f x) F' y F'' \<Longrightarrow> effect run (bindc c f) F y F''"
  unfolding effect_def by (metis bindc_Done)

lemma effect_block_Nil: "effect run (block []) F () F"
  by (simp add: effect_give)

lemma effect_block_Cons:
  "effect run c F () F' \<Longrightarrow> effect run (block cs) F' () F'' \<Longrightarrow> effect run (block (c # cs)) F () F''"
  unfolding block.simps by (rule effect_bindc)

lemma effect_forc:
  assumes "\<And>i. i < n \<Longrightarrow> effect run (body i) (G i) () (G (Suc i))"
  shows "effect run (forc n body) (G 0) () (G n)"
  using assms by (induction n) (auto simp: effect_give forc_Suc intro: effect_bindc)

text \<open>An effect on one device extends to a second device the command leaves alone.\<close>

lemma effect_pair:
  assumes "effect run c F x F'" and "\<And>G. keeps (\<lambda>h. other h = G) c"
  shows "effect (\<lambda>h. (run h, other h)) c (F, G) x (F', G)"
  unfolding effect_def
proof (intro allI impI)
  fix h assume h: "(run h, other h) = (F, G)"
  with assms(1) obtain h' where c: "c h = Done x h'" "run h' = F'"
    by (auto simp: effect_def)
  have "other h' = G" by (rule keeps_Done [OF assms(2) _ c(1)]) (use h in simp)
  with c show "\<exists>h'. c h = Done x h' \<and> (run h', other h') = (F', G)" by blast
qed

lemma effect_pair_swap:
  "effect (\<lambda>h. (run h, other h)) c (F, G) x (F', G') \<Longrightarrow>
   effect (\<lambda>h. (other h, run h)) c (G, F) x (G', F')"
  by (auto simp: effect_def)

lemma effect_store:
  assumes "\<And>h. H h (Store w a v) \<noteq> None"
    and "\<And>h. run h = F \<Longrightarrow> run (Stored w a v # h) = F'"
  shows "effect run (store H w a v) F () F'"
  unfolding effect_def
proof (intro allI impI)
  fix h assume F: "run h = F"
  obtain y where "H h (Store w a v) = Some y" using assms(1) by auto
  with assms(2) [OF F] show "\<exists>h'. store H w a v h = Done () h' \<and> run h' = F'"
    by (intro exI [of _ "Stored w a v # h"]) (simp add: store_def)
qed

lemma effect_spin_while:
  assumes "\<And>h. settles H a p h" and "\<And>v h. run (Loaded W32 a v # h) = run h"
  shows "effect run (spin_while H a p) F () F"
  unfolding effect_def
proof (intro allI impI)
  fix h assume F: "run h = F"
  from spin_while_settles [OF assms(1)] obtain es where
    e: "spin_while H a p h = Done () (es @ h)" "loads_of a es" by blast
  have "run (es @ h) = run h" using e(2) by (induction es) (auto simp: assms(2))
  with e F show "\<exists>h'. spin_while H a p h = Done () h' \<and> run h' = F" by auto
qed

section \<open>Polling loops that never end\<close>

text \<open>When every load is answered, a polling loop ends exactly if its condition settles.\<close>

lemma spin_while_hangs:
  assumes a: "\<And>h. H h (Load W32 a) \<noteq> None" and n: "\<not> settles H a p h"
  shows "spin_while H a p h = Stopped Hang h"
proof -
  let ?c = "bindc (load32 H a) (\<lambda>v. give (p v))"
  have step: "\<exists>t. ?c g = Done True t \<and> \<not> settles H a p t" if "\<not> settles H a p g" for g
  proof -
    from a [of g] obtain v where v: "H g (Load W32 a) = Some v" by blast
    from that settles.now [of H g a v p, OF v] have pv: "p v" by fast
    moreover from that settles.later [of H g a v p, OF v pv]
    have "\<not> settles H a p (Loaded W32 a v # g)" by fast
    ultimately show ?thesis using v by (simp add: bindc_def load_def give_def)
  qed
  show ?thesis unfolding spin_while_def
    by (rule whilec_hangs [where I = "\<lambda>t. \<not> settles H a p t"]) (use step n in simp_all)
qed

lemma spin_while_ends_iff:
  assumes "\<And>h. H h (Load W32 a) \<noteq> None"
  shows "(\<exists>h'. spin_while H a p h = Done () h') \<longleftrightarrow> settles H a p h"
    and "spin_while H a p h = Stopped Hang h \<longleftrightarrow> \<not> settles H a p h"
proof -
  have y: "\<exists>h'. spin_while H a p h = Done () h'" if "settles H a p h"
    using spin_while_settles [OF that] by blast
  have n: "spin_while H a p h = Stopped Hang h" if "\<not> settles H a p h"
    using assms that by (rule spin_while_hangs)
  show "(\<exists>h'. spin_while H a p h = Done () h') \<longleftrightarrow> settles H a p h"
    using y n by (cases "settles H a p h") simp_all
  show "spin_while H a p h = Stopped Hang h \<longleftrightarrow> \<not> settles H a p h"
    using y n by (cases "settles H a p h") auto
qed

section \<open>Commands that finish\<close>

definition finishes :: "('s, 'a) cmd \<Rightarrow> bool" where
  "finishes c \<longleftrightarrow> (\<forall>s. \<exists>x s'. c s = Done x s')"

named_theorems finishes_rules \<open>composition rules for commands that always finish\<close>

lemma finishes_give [finishes_rules]: "finishes (give x)"
  by (simp add: finishes_def give_def)

lemma finishes_bindc [finishes_rules]:
  "finishes c \<Longrightarrow> (\<And>x. finishes (f x)) \<Longrightarrow> finishes (bindc c f)"
  unfolding finishes_def by (metis bindc_Done)

lemma finishes_if [finishes_rules]: "finishes c \<Longrightarrow> finishes d \<Longrightarrow> finishes (if b then c else d)"
  by simp

lemma finishes_list: "list_all finishes cs \<Longrightarrow> finishes (block cs)"
  by (induction cs) (auto intro: finishes_rules)

end
