(* ===== verification/Board.thy ===== *)
theory Board
  imports Cmd
begin

text \<open>
  The configuration of the firmware: the memory layout and the feature switches of
  \<open>Core/Inc/flash_config.h\<close> (the \<open>#ifdef\<close> switches the sources test are the fields of
  a record, so that every build is covered, and \<open>flash_config\<close> is the build the
  repository configures), the pin assignment of \<open>Core/Inc/board.h\<close>, and the contract
  \<open>write_policy\<close> between the drivers and their clients: which stores on the bus a
  client may cause.
\<close>

section \<open>flash_config.h\<close>

definition FLASH_BASE_ADDR :: u32 where "FLASH_BASE_ADDR = 0x08000000"
definition FLASH_SIZE_KB :: u32 where "FLASH_SIZE_KB = 128"
definition FLASH_BOOTLDR_PAYLOAD_SIZE_KB :: u32 where "FLASH_BOOTLDR_PAYLOAD_SIZE_KB = 120"
definition FLASH_BOOTLDR_SIZE_KB :: u32 where "FLASH_BOOTLDR_SIZE_KB = 8"
definition SRAM_IMAGE_CHUNK_BYTES :: u32 where "SRAM_IMAGE_CHUNK_BYTES = 256"
definition DFU_TRANSFER_SIZE :: nat where "DFU_TRANSFER_SIZE = 1024"

record config =
  winusb_support :: bool
  enable_dfu_upload :: bool
  enable_checksum :: bool
  enable_spi_sram_image :: bool
  enable_safewrite :: bool
  enable_writeprot :: bool
  enable_protections :: bool
  enable_watchdog :: "nat option"
  enable_pinrst_dfu_boot :: bool
  enable_gpio_dfu_boot :: bool

definition flash_config :: config where
  "flash_config =
     \<lparr>winusb_support = True, enable_dfu_upload = True, enable_checksum = True,
      enable_spi_sram_image = True, enable_safewrite = False, enable_writeprot = False,
      enable_protections = False, enable_watchdog = None, enable_pinrst_dfu_boot = False,
      enable_gpio_dfu_boot = False\<rparr>"

text \<open>\<open>APP_ADDRESS\<close> of \<open>main.c\<close>, \<open>start_addr\<close> and \<open>end_addr\<close> of \<open>usbdfu.c\<close> and \<open>flash.c\<close>\<close>

definition APP_ADDRESS :: u32 where
  "APP_ADDRESS = FLASH_BASE_ADDR + FLASH_BOOTLDR_SIZE_KB * 1024"

definition start_addr :: u32 where
  "start_addr = FLASH_BASE_ADDR + FLASH_BOOTLDR_SIZE_KB * 1024"

definition end_addr :: u32 where
  "end_addr = FLASH_BASE_ADDR + FLASH_SIZE_KB * 1024"

lemma layout [simp]:
  "APP_ADDRESS = 0x08002000" "start_addr = 0x08002000" "end_addr = 0x08020000"
  by (simp_all add: APP_ADDRESS_def start_addr_def end_addr_def FLASH_BASE_ADDR_def
      FLASH_BOOTLDR_SIZE_KB_def FLASH_SIZE_KB_def)

section \<open>board.h\<close>

definition SPI_SRAM_PORT :: u32 where "SPI_SRAM_PORT = 1"
definition SPI_SRAM_SCK_PIN :: u16 where "SPI_SRAM_SCK_PIN = 13"
definition SPI_SRAM_MOSI_PIN :: u16 where "SPI_SRAM_MOSI_PIN = 15"
definition SPI_SRAM_MISO_PIN :: u16 where "SPI_SRAM_MISO_PIN = 14"
definition SPI_SRAM_CS_PIN :: u16 where "SPI_SRAM_CS_PIN = 12"
definition GPIO_DFU_BOOT_PORT :: u32 where "GPIO_DFU_BOOT_PORT = 0"
definition GPIO_DFU_BOOT_PIN :: u16 where "GPIO_DFU_BOOT_PIN = 0"

section \<open>The application area and the stores a client may cause\<close>

definition FLASH_AR :: u32 where [reg_defs]: "FLASH_AR = 0x40022014"

definition in_app :: "u32 \<Rightarrow> bool" where
  "in_app a \<longleftrightarrow> 0x08002000 \<le> a \<and> a < 0x08020000"

text \<open>
  The stores that leave the bootloader alone. A page erase acts on the page whose
  address was last stored in \<open>FLASH_AR\<close>, so that register may only receive addresses of
  the application area. Below the end of the flash array (which also covers the alias
  of the flash at address 0) only halfword stores into the application area are allowed.
\<close>

fun bootloader_safe :: "event \<Rightarrow> bool" where
  "bootloader_safe (Loaded w a v) = True"
| "bootloader_safe (Stored w a v) =
     ((a = FLASH_AR \<longrightarrow> in_app v) \<and> (a < 0x08020000 \<longrightarrow> w = W16 \<and> in_app a))"

text \<open>
  The contract between a driver and its client. Loads are free; a store to a register
  other than \<open>FLASH_AR\<close> is free; an erase and a programming store are allowed where
  the policy says so. A driver lemma of this locale holds for every policy.
\<close>

locale write_policy =
  fixes ok :: "event \<Rightarrow> bool"
  assumes ok_load: "ok (Loaded w a v)"
    and ok_reg: "0x08020000 \<le> a \<Longrightarrow> a \<noteq> FLASH_AR \<Longrightarrow> ok (Stored w a v)"
    and ok_erase: "in_app p \<Longrightarrow> ok (Stored W32 FLASH_AR p)"
    and ok_program: "in_app p \<Longrightarrow> ok (Stored W16 p v)"
begin

lemma safe_load: "keeps (list_all ok) (load H w a)"
  by (rule keeps_load) (simp add: ok_load)

lemma safe_store: "ok (Stored w a v) \<Longrightarrow> keeps (list_all ok) (store H w a v)"
  by (rule keeps_store) simp

lemma safe_reg: "0x08020000 \<le> a \<Longrightarrow> a \<noteq> FLASH_AR \<Longrightarrow> keeps (list_all ok) (store H w a v)"
  by (rule safe_store) (rule ok_reg)

lemma safe_load16: "keeps (list_all ok) (load16 H a)"
  unfolding load16_def by (intro keeps_rules safe_load)

lemma safe_load8: "keeps (list_all ok) (load8 H a)"
  unfolding load8_def by (intro keeps_rules safe_load)

lemma safe_or32:
  "0x08020000 \<le> a \<Longrightarrow> a \<noteq> FLASH_AR \<Longrightarrow> keeps (list_all ok) (or32 H a m)"
  unfolding or32_def by (intro keeps_rules safe_load safe_reg)

lemma safe_and32:
  "0x08020000 \<le> a \<Longrightarrow> a \<noteq> FLASH_AR \<Longrightarrow> keeps (list_all ok) (and32 H a m)"
  unfolding and32_def by (intro keeps_rules safe_load safe_reg)

lemma safe_spin_while: "keeps (list_all ok) (spin_while H a p)"
  unfolding spin_while_def by (intro keeps_rules safe_load)

lemmas safe_bus = safe_load safe_load16 safe_load8 safe_or32 safe_and32 safe_spin_while

end

lemma in_app_not_reg: "in_app a \<Longrightarrow> a \<noteq> FLASH_AR"
  by (auto simp: in_app_def FLASH_AR_def)

interpretation bp: write_policy bootloader_safe
proof
  fix w a v assume "0x08020000 \<le> a" "a \<noteq> FLASH_AR"
  then show "bootloader_safe (Stored w a v)"
    by (auto simp: not_less)
next
  fix p assume "in_app p" then show "bootloader_safe (Stored W32 FLASH_AR p)"
    by (simp add: FLASH_AR_def)
next
  fix p v assume "in_app p" then show "bootloader_safe (Stored W16 p v)"
    by (simp add: in_app_not_reg)
qed simp

end
