(* ===== verification/Flash.thy ===== *)
theory Flash
  imports Board
begin

text \<open>
  \<open>Core/Src/flash.c\<close>: the driver of the flash controller, register access by register
  access, and the proof that it stays within a write policy: an erase only at an address
  the policy allows, a programming run only into the application area.
\<close>

definition FLASH_CR_OPTWRE :: u32 where [reg_defs]: "FLASH_CR_OPTWRE = 0x200"
definition FLASH_CR_LOCK :: u32 where [reg_defs]: "FLASH_CR_LOCK = 0x80"
definition FLASH_CR_STRT :: u32 where [reg_defs]: "FLASH_CR_STRT = 0x40"
definition FLASH_CR_OPTER :: u32 where [reg_defs]: "FLASH_CR_OPTER = 0x20"
definition FLASH_CR_OPTPG :: u32 where [reg_defs]: "FLASH_CR_OPTPG = 0x10"
definition FLASH_CR_PER :: u32 where [reg_defs]: "FLASH_CR_PER = 0x2"
definition FLASH_CR_PG :: u32 where [reg_defs]: "FLASH_CR_PG = 0x1"
definition FLASH_SR_BSY :: u32 where [reg_defs]: "FLASH_SR_BSY = 0x1"
definition FLASH_KEYR :: u32 where [reg_defs]: "FLASH_KEYR = 0x40022004"
definition FLASH_OPTKEYR :: u32 where [reg_defs]: "FLASH_OPTKEYR = 0x40022008"
definition FLASH_SR :: u32 where [reg_defs]: "FLASH_SR = 0x4002200C"
definition FLASH_CR :: u32 where [reg_defs]: "FLASH_CR = 0x40022010"

definition flash_wait_for_last_operation :: "hw \<Rightarrow> (history, unit) cmd" where
  "flash_wait_for_last_operation H = spin_while H FLASH_SR (\<lambda>v. v AND FLASH_SR_BSY \<noteq> 0)"

definition flash_lock :: "hw \<Rightarrow> (history, unit) cmd" where
  "flash_lock H = block
     [flash_wait_for_last_operation H,
      and32 H FLASH_CR (NOT FLASH_CR_OPTWRE),
      or32 H FLASH_CR FLASH_CR_LOCK,
      flash_wait_for_last_operation H]"

definition flash_unlock :: "hw \<Rightarrow> (history, unit) cmd" where
  "flash_unlock H = bindc (load32 H FLASH_CR) (\<lambda>cr.
     if cr AND FLASH_CR_LOCK \<noteq> 0
     then block [store32 H FLASH_KEYR 0x45670123, store32 H FLASH_KEYR 0xcdef89ab]
     else skip)"

definition flash_erase_page :: "hw \<Rightarrow> u32 \<Rightarrow> (history, unit) cmd" where
  "flash_erase_page H page_address = block
     [flash_wait_for_last_operation H,
      or32 H FLASH_CR FLASH_CR_PER,
      store32 H FLASH_AR page_address,
      or32 H FLASH_CR FLASH_CR_STRT,
      flash_wait_for_last_operation H,
      and32 H FLASH_CR (NOT FLASH_CR_PER)]"

text \<open>The loop over the words of a page, with its early return at the first word that is
  not erased.\<close>

primrec flash_scan :: "hw \<Rightarrow> u32 \<Rightarrow> nat \<Rightarrow> (history, bool) cmd" where
  "flash_scan H p 0 = give True"
| "flash_scan H p (Suc n) = bindc (load32 H p) (\<lambda>v.
     if v \<noteq> 0xffffffff then give False else flash_scan H (p + 4) n)"

definition flash_page_is_erased :: "hw \<Rightarrow> u32 \<Rightarrow> (history, bool) cmd" where
  "flash_page_is_erased H addr = flash_scan H addr (1024 div 4)"

text \<open>
  \<open>data\<close> is a byte buffer read as an array of half words; an index outside it is an access
  outside the C array.
\<close>

definition half_at :: "u8 list \<Rightarrow> nat \<Rightarrow> u16" where
  "half_at data i = le16 (data ! (2 * i)) (data ! (2 * i + 1))"

definition flash_program_buffer :: "hw \<Rightarrow> u32 \<Rightarrow> u8 list \<Rightarrow> nat \<Rightarrow> (history, unit) cmd" where
  "flash_program_buffer H address data len = block
     [flash_wait_for_last_operation H,
      or32 H FLASH_CR FLASH_CR_PG,
      forc (len div 2) (\<lambda>i.
        if 2 * i + 1 < length data
        then block
          [store16 H (address + 2 * of_nat i) (half_at data i),
           flash_wait_for_last_operation H]
        else halt OutOfBounds),
      and32 H FLASH_CR (NOT FLASH_CR_PG)]"

definition flash_erase_option_bytes :: "hw \<Rightarrow> (history, unit) cmd" where
  "flash_erase_option_bytes H = block
     [flash_wait_for_last_operation H,
      or32 H FLASH_CR FLASH_CR_OPTER,
      or32 H FLASH_CR FLASH_CR_STRT,
      flash_wait_for_last_operation H,
      and32 H FLASH_CR (NOT FLASH_CR_OPTER)]"

definition flash_program_option_bytes :: "hw \<Rightarrow> u32 \<Rightarrow> u16 \<Rightarrow> (history, unit) cmd" where
  "flash_program_option_bytes H address data = block
     [flash_wait_for_last_operation H,
      or32 H FLASH_CR FLASH_CR_OPTPG,
      store16 H address data,
      flash_wait_for_last_operation H,
      and32 H FLASH_CR (NOT FLASH_CR_OPTPG)]"

definition optbytes_unlock :: "hw \<Rightarrow> (history, unit) cmd" where
  "optbytes_unlock H = bindc (load32 H FLASH_CR) (\<lambda>cr.
     if cr AND FLASH_CR_OPTWRE = 0
     then block [store32 H FLASH_OPTKEYR 0x45670123, store32 H FLASH_OPTKEYR 0xcdef89ab]
     else skip)"

text \<open>\<open>static int erased\<close> is passed in and out.\<close>

definition check_do_erase :: "hw \<Rightarrow> bool \<Rightarrow> (history, bool) cmd" where
  "check_do_erase H erased =
     (if erased then give True
      else bindc
        (for_step start_addr end_addr 1024 (\<lambda>addr.
           bindc (flash_page_is_erased H addr) (\<lambda>e.
             if \<not> e then flash_erase_page H addr else skip)))
        (\<lambda>_. give True))"

section \<open>The driver within a write policy\<close>

lemma reg_range [simp]:
  "0x08020000 \<le> FLASH_CR" "FLASH_CR \<noteq> FLASH_AR"
  "0x08020000 \<le> FLASH_KEYR" "FLASH_KEYR \<noteq> FLASH_AR"
  "0x08020000 \<le> FLASH_OPTKEYR" "FLASH_OPTKEYR \<noteq> FLASH_AR"
  by (simp_all add: reg_defs)

context write_policy
begin

lemma safe_wait: "keeps (list_all ok) (flash_wait_for_last_operation H)"
  unfolding flash_wait_for_last_operation_def by (rule safe_spin_while)

lemma safe_block: "list_all (keeps (list_all ok)) cs \<Longrightarrow> keeps (list_all ok) (block cs)"
  by (rule keeps_block) (simp add: list_all_iff)

lemma safe_flash_lock: "keeps (list_all ok) (flash_lock H)"
  unfolding flash_lock_def by (rule safe_block) (simp add: safe_wait safe_and32 safe_or32)

lemma safe_flash_unlock: "keeps (list_all ok) (flash_unlock H)"
  unfolding flash_unlock_def
  by (intro keeps_bindc keeps_if safe_load safe_block keeps_give) (simp add: safe_reg)

lemma safe_flash_erase_page:
  "ok (Stored W32 FLASH_AR p) \<Longrightarrow> keeps (list_all ok) (flash_erase_page H p)"
  unfolding flash_erase_page_def
  by (rule safe_block) (simp add: safe_wait safe_and32 safe_or32 safe_store)

lemma safe_flash_scan: "keeps (list_all ok) (flash_scan H p n)"
  by (induction n arbitrary: p) (auto intro!: keeps_rules safe_load)

lemma safe_flash_page_is_erased: "keeps (list_all ok) (flash_page_is_erased H p)"
  unfolding flash_page_is_erased_def by (rule safe_flash_scan)

lemma safe_flash_program_buffer:
  assumes "\<And>i v. i < len div 2 \<Longrightarrow> ok (Stored W16 (p + 2 * of_nat i) v)"
  shows "keeps (list_all ok) (flash_program_buffer H p data len)"
proof -
  have "keeps (list_all ok) (forc (len div 2) (\<lambda>i.
        if 2 * i + 1 < length data
        then block [store16 H (p + 2 * of_nat i) (half_at data i), flash_wait_for_last_operation H]
        else halt OutOfBounds))"
    by (intro keeps_forc keeps_if keeps_halt safe_block)
      (simp add: store16_def safe_store assms safe_wait)
  then show ?thesis unfolding flash_program_buffer_def
    by (intro safe_block) (simp add: safe_wait safe_and32 safe_or32)
qed

lemma safe_flash_erase_option_bytes: "keeps (list_all ok) (flash_erase_option_bytes H)"
  unfolding flash_erase_option_bytes_def
  by (rule safe_block) (simp add: safe_wait safe_and32 safe_or32)

lemma safe_flash_program_option_bytes:
  "0x08020000 \<le> a \<Longrightarrow> a \<noteq> FLASH_AR \<Longrightarrow> keeps (list_all ok) (flash_program_option_bytes H a d)"
  unfolding flash_program_option_bytes_def
  by (rule safe_block) (simp add: safe_wait safe_and32 safe_or32 store16_def safe_reg)

lemma safe_optbytes_unlock: "keeps (list_all ok) (optbytes_unlock H)"
  unfolding optbytes_unlock_def
  by (intro keeps_bindc keeps_if safe_load safe_block keeps_give) (simp add: safe_reg)

lemma safe_erase_unless_blank:
  "in_app p \<Longrightarrow> keeps (list_all ok)
     (bindc (flash_page_is_erased H p) (\<lambda>e. if \<not> e then flash_erase_page H p else skip))"
  by (intro keeps_bindc keeps_if keeps_give safe_flash_page_is_erased safe_flash_erase_page ok_erase)

lemma safe_check_do_erase: "keeps (list_all ok) (check_do_erase H e)"
proof -
  let ?P = "\<lambda>a :: u32. 0x08002000 \<le> a \<and> a \<le> 0x0801FFFF + 1024"
  have nxt: "?P (a + 1024)" if "?P a" "a < end_addr" for a
  proof -
    have "unat (a + of_nat 1024) = unat a + 1024"
      using that by (intro unat_add_u32) (simp add: word_less_nat_alt)
    then show ?thesis using that by (simp add: word_less_nat_alt word_le_nat_alt)
  qed
  have "keeps (list_all ok) (for_step start_addr end_addr 1024 (\<lambda>addr.
           bindc (flash_page_is_erased H addr) (\<lambda>e.
             if \<not> e then flash_erase_page H addr else skip)))"
    by (rule keeps_for_step_inv [where P = ?P])
      (use nxt in \<open>auto intro!: safe_erase_unless_blank simp: in_app_def\<close>)
  then show ?thesis unfolding check_do_erase_def by (intro keeps_if keeps_give keeps_bindc)
qed

lemmas safe_flash = safe_flash_lock safe_flash_unlock safe_flash_page_is_erased
  safe_flash_erase_option_bytes safe_optbytes_unlock

end

section \<open>How the driver may stop\<close>

text \<open>A bus fault or a flash that stays busy; with a buffer long enough, nothing else.\<close>

lemma runs_wait: "runs always {BusFault, Hang} (flash_wait_for_last_operation H)"
  unfolding flash_wait_for_last_operation_def by (intro runs_rules) simp_all

lemma runs_list: "list_all (runs I E) cs \<Longrightarrow> runs I E (block cs)"
  by (rule runs_block) (simp add: list_all_iff)

lemma runs_flash_lock: "runs always {BusFault, Hang} (flash_lock H)"
  unfolding flash_lock_def by (rule runs_list) (simp add: runs_wait runs_rules)

lemma runs_flash_unlock: "runs always {BusFault, Hang} (flash_unlock H)"
  unfolding flash_unlock_def by (intro runs_bindc runs_if runs_give runs_list) (simp_all add: runs_rules)

lemma runs_flash_erase_page: "runs always {BusFault, Hang} (flash_erase_page H p)"
  unfolding flash_erase_page_def by (rule runs_list) (simp add: runs_wait runs_rules)

lemma runs_flash_page_is_erased: "runs always {BusFault, Hang} (flash_page_is_erased H p)"
proof -
  have "runs always {BusFault, Hang} (flash_scan H p n)" for n
    by (induction n arbitrary: p) (auto intro!: runs_bindc runs_if runs_give runs_load)
  then show ?thesis by (simp add: flash_page_is_erased_def)
qed

lemma runs_flash_program_buffer:
  assumes "len \<le> length data"
  shows "runs always {BusFault, Hang} (flash_program_buffer H p data len)"
proof -
  have "runs always {BusFault, Hang} (forc (len div 2) (\<lambda>i.
        if 2 * i + 1 < length data
        then block [store16 H (p + 2 * of_nat i) (half_at data i), flash_wait_for_last_operation H]
        else halt OutOfBounds))"
  proof (rule runs_forc)
    fix i assume "i < len div 2"
    then have "2 * i + 1 < length data" using assms by linarith
    then show "runs always {BusFault, Hang} (if 2 * i + 1 < length data
        then block [store16 H (p + 2 * of_nat i) (half_at data i), flash_wait_for_last_operation H]
        else halt OutOfBounds)"
      by (simp only: if_True) (rule runs_list, simp add: runs_wait runs_rules)
  qed
  then show ?thesis unfolding flash_program_buffer_def
    by (intro runs_list) (simp add: runs_wait runs_rules)
qed

lemma runs_check_do_erase: "runs always {BusFault, Hang} (check_do_erase H e)"
  unfolding check_do_erase_def
  by (intro runs_if runs_bindc runs_give runs_for_step runs_flash_erase_page
      runs_flash_page_is_erased) simp

lemmas runs_flash = runs_flash_lock runs_flash_unlock runs_flash_erase_page
  runs_flash_page_is_erased runs_check_do_erase

end
