(* ===== verification/FlashHw.thy ===== *)
theory FlashHw
  imports Flash
begin

text \<open>
  The flash controller as its programming manual documents it (PM0075: the key sequence,
  the LOCK bit, page erase, half-word programming of blank cells), as a state folded over
  the bus history, and the hypothesis \<open>fpec_hw\<close> that the hardware answers as documented.
  Under that hypothesis the driver of \<open>flash.c\<close> does what its names say: the locale
  \<open>flash_driver\<close> is the contract its clients use, the interpretation \<open>fd\<close> discharges
  it for the model of the driver.
\<close>

definition FLASH_CR_MER :: u32 where [reg_defs]: "FLASH_CR_MER = 0x4"

definition in_flash :: "u32 \<Rightarrow> bool" where
  "in_flash a \<longleftrightarrow> 0x08000000 \<le> a \<and> a < 0x08020000"

definition page_base :: "u32 \<Rightarrow> bool" where
  "page_base p \<longleftrightarrow> in_flash p \<and> unat p mod 1024 = 0"

definition in_page :: "u32 \<Rightarrow> u32 \<Rightarrow> bool" where
  "in_page p a \<longleftrightarrow> unat a div 1024 = unat p div 1024"

record fpec =
  locked :: bool
  key1 :: bool
  cr :: u32
  ar :: u32
  cells :: "u32 \<Rightarrow> u16"

definition erase_cells :: "u32 \<Rightarrow> (u32 \<Rightarrow> u16) \<Rightarrow> u32 \<Rightarrow> u16" where
  "erase_cells p f a = (if in_page p a \<and> even (unat a) then 0xFFFF else f a)"

definition fpec_reg :: "u32 \<Rightarrow> u32 \<Rightarrow> fpec \<Rightarrow> fpec" where
  "fpec_reg a v F =
     (if a = FLASH_KEYR then
        (if locked F
         then (if key1 F then F\<lparr>locked := (v \<noteq> 0xcdef89ab), key1 := False\<rparr>
               else F\<lparr>key1 := (v = 0x45670123)\<rparr>)
         else F)
      else if a = FLASH_AR then F\<lparr>ar := v\<rparr>
      else if a = FLASH_CR then
        (if locked F then F
         else F\<lparr>cr := v AND NOT (FLASH_CR_STRT OR FLASH_CR_LOCK),
                locked := (v AND FLASH_CR_LOCK \<noteq> 0),
                cells := (if v AND FLASH_CR_STRT = 0 then cells F
                          else if v AND FLASH_CR_MER \<noteq> 0 then (\<lambda>_. 0xFFFF)
                          else if v AND FLASH_CR_PER \<noteq> 0 then erase_cells (ar F) (cells F)
                          else cells F)\<rparr>)
      else F)"

definition fpec_write :: "u32 \<Rightarrow> u16 \<Rightarrow> fpec \<Rightarrow> fpec" where
  "fpec_write a v F =
     (if in_flash a \<and> even (unat a) \<and> \<not> locked F \<and> cr F AND FLASH_CR_PG \<noteq> 0 \<and>
         (cells F a = 0xFFFF \<or> v = 0)
      then F\<lparr>cells := (cells F)(a := v)\<rparr> else F)"

fun fpec_step :: "event \<Rightarrow> fpec \<Rightarrow> fpec" where
  "fpec_step (Stored W32 a v) F = fpec_reg a v F"
| "fpec_step (Stored W16 a v) F = fpec_write a (ucast v) F"
| "fpec_step _ F = F"

fun fpec_run :: "fpec \<Rightarrow> history \<Rightarrow> fpec" where
  "fpec_run F0 [] = F0"
| "fpec_run F0 (e # h) = fpec_step e (fpec_run F0 h)"

definition cr_value :: "fpec \<Rightarrow> u32" where
  "cr_value F = cr F OR (if locked F then FLASH_CR_LOCK else 0)"

definition cell_word :: "(u32 \<Rightarrow> u16) \<Rightarrow> u32 \<Rightarrow> u32" where
  "cell_word f a = ucast (f a) OR push_bit 16 (ucast (f (a + 2)))"

definition cell_byte :: "(u32 \<Rightarrow> u16) \<Rightarrow> u32 \<Rightarrow> u8" where
  "cell_byte f a = (if even (unat a) then lo8 (f a) else hi8 (f (a - 1)))"

definition busy :: "u32 \<Rightarrow> bool" where
  "busy v \<longleftrightarrow> v AND FLASH_SR_BSY \<noteq> 0"

text \<open>The hypothesis: the hardware answers as the controller above, and is not busy forever.\<close>

definition fpec_hw :: "hw \<Rightarrow> fpec \<Rightarrow> bool" where
  "fpec_hw H F0 \<longleftrightarrow> (\<forall>h.
     H h (Load W32 FLASH_CR) = Some (cr_value (fpec_run F0 h)) \<and>
     settles H FLASH_SR busy h \<and>
     (\<forall>v. H h (Store W32 FLASH_KEYR v) \<noteq> None \<and> H h (Store W32 FLASH_CR v) \<noteq> None \<and>
          H h (Store W32 FLASH_AR v) \<noteq> None) \<and>
     (\<forall>a v. in_flash a \<longrightarrow> H h (Store W16 a v) \<noteq> None) \<and>
     (\<forall>a. in_flash a \<and> unat a mod 4 = 0 \<longrightarrow>
          H h (Load W32 a) = Some (cell_word (cells (fpec_run F0 h)) a)) \<and>
     (\<forall>a. in_flash a \<longrightarrow>
          H h (Load W8 a) = Some (ucast (cell_byte (cells (fpec_run F0 h)) a))))"

text \<open>A hardware that conforms: it answers every access from the documented controller.\<close>

fun fpec_sim :: "fpec \<Rightarrow> hw" where
  "fpec_sim F0 h (Load W32 a) =
     Some (if a = FLASH_CR then cr_value (fpec_run F0 h)
           else if a = FLASH_SR then 0
           else cell_word (cells (fpec_run F0 h)) a)"
| "fpec_sim F0 h (Load W8 a) = Some (ucast (cell_byte (cells (fpec_run F0 h)) a))"
| "fpec_sim F0 h (Load W16 a) = Some (ucast (cells (fpec_run F0 h) a))"
| "fpec_sim F0 h (Store w a v) = Some 0"

lemma in_flash_not_reg [simp]:
  "in_flash a \<Longrightarrow> a \<noteq> FLASH_CR" "in_flash a \<Longrightarrow> a \<noteq> FLASH_SR"
  by (auto simp: in_flash_def reg_defs)

lemma fpec_sim_conforms: "fpec_hw (fpec_sim F0) F0"
proof -
  have "FLASH_SR \<noteq> FLASH_CR" by (simp add: reg_defs)
  then have "settles (fpec_sim F0) FLASH_SR busy h" for h
    by (intro settles.now [where v = 0]) (simp_all add: busy_def)
  then show ?thesis by (auto simp: fpec_hw_def)
qed

section \<open>The effect of register accesses on the controller\<close>

lemma effect_load_cr: "fpec_hw H F0 \<Longrightarrow> effect (fpec_run F0) (load32 H FLASH_CR) F (cr_value F) F"
  by (auto simp: effect_def load_def fpec_hw_def)

lemma effect_load_cell:
  "fpec_hw H F0 \<Longrightarrow> in_flash a \<Longrightarrow> unat a mod 4 = 0 \<Longrightarrow>
   effect (fpec_run F0) (load32 H a) F (cell_word (cells F) a) F"
  by (auto simp: effect_def load_def fpec_hw_def)

lemma effect_store_reg:
  assumes "fpec_hw H F0" and "r = FLASH_KEYR \<or> r = FLASH_CR \<or> r = FLASH_AR"
  shows "effect (fpec_run F0) (store32 H r v) F () (fpec_reg r v F)"
proof -
  have "H h (Store W32 r v) \<noteq> None" for h
    using assms unfolding fpec_hw_def by metis
  then show ?thesis by (rule effect_store) simp
qed

lemma effect_store_half:
  assumes "fpec_hw H F0" and "in_flash a"
  shows "effect (fpec_run F0) (store16 H a v) F () (fpec_write a v F)"
proof -
  have "H h (Store W16 a (ucast v)) \<noteq> None" for h
    using assms unfolding fpec_hw_def by metis
  then show ?thesis unfolding store16_def by (rule effect_store) simp
qed

lemma effect_or32_cr:
  "fpec_hw H F0 \<Longrightarrow>
   effect (fpec_run F0) (or32 H FLASH_CR m) F () (fpec_reg FLASH_CR (cr_value F OR m) F)"
  unfolding or32_def by (rule effect_bindc [OF effect_load_cr effect_store_reg]) auto

lemma effect_and32_cr:
  "fpec_hw H F0 \<Longrightarrow>
   effect (fpec_run F0) (and32 H FLASH_CR m) F () (fpec_reg FLASH_CR (cr_value F AND m) F)"
  unfolding and32_def by (rule effect_bindc [OF effect_load_cr effect_store_reg]) auto

lemma effect_wait:
  assumes "fpec_hw H F0"
  shows "effect (fpec_run F0) (flash_wait_for_last_operation H) F () F"
proof -
  have "settles H FLASH_SR (\<lambda>v. v AND FLASH_SR_BSY \<noteq> 0) h" for h
    using assms unfolding fpec_hw_def busy_def [abs_def, symmetric] by blast
  then show ?thesis unfolding flash_wait_for_last_operation_def by (rule effect_spin_while) simp
qed

lemmas effect_regs = effect_wait effect_or32_cr effect_and32_cr effect_store_reg

end
