(* ===== verification/Checksum.thy ===== *)
theory Checksum
  imports FlashHw
begin

text \<open>
  \<open>Core/Src/checksum.c\<close>: the XOR checksum over an image in memory and over an image
  read in chunks through a callback, and \<open>Releas-PRG/checksum.py\<close>, which patches a
  firmware binary so that the checksum holds. \<open>xor_sum\<close> is the reference: the XOR of
  the little-endian words of a byte list. The locale \<open>byte_reader\<close> is the contract of
  the callback; under it the chunked routine computes the reference on the bytes read.
\<close>

definition CHECKSUM_XOR_START :: u32 where "CHECKSUM_XOR_START = 0xB4DC0FEE"

section \<open>The reference\<close>

fun words_of :: "u8 list \<Rightarrow> u32 list" where
  "words_of (a # b # c # d # xs) = le32 a b c d # words_of xs"
| "words_of _ = []"

definition xor_list :: "u32 \<Rightarrow> u32 list \<Rightarrow> u32" where
  "xor_list x ws = foldl (XOR) x ws"

definition xor_sum :: "u8 list \<Rightarrow> u32" where
  "xor_sum bs = xor_list CHECKSUM_XOR_START (words_of bs)"

lemma words_of_append: "length xs mod 4 = 0 \<Longrightarrow> words_of (xs @ ys) = words_of xs @ words_of ys"
proof (induction xs rule: words_of.induct)
  case (1 a b c d xs)
  then show ?case by (simp add: mod_Suc split: if_splits)
qed simp_all

lemma words_of_bytes32 [simp]: "words_of (bytes32 w @ xs) = w # words_of xs"
  by (simp add: bytes32_def)

lemma words_of_single [simp]: "words_of (bytes32 w) = [w]"
  by (simp add: bytes32_def)

lemma length_words_of: "length (words_of bs) = length bs div 4"
  by (induction bs rule: words_of.induct) simp_all

lemma words_of_nth:
  "4 * i + 3 < length bs \<Longrightarrow>
   words_of bs ! i = le32 (bs ! (4 * i)) (bs ! (4 * i + 1)) (bs ! (4 * i + 2)) (bs ! (4 * i + 3))"
proof (induction bs arbitrary: i rule: words_of.induct)
  case (1 a b c d xs)
  show ?case
  proof (cases i)
    case (Suc j)
    have n: "(a # b # c # d # xs) ! (4 + k) = xs ! k" for k by (simp add: numeral_eq_Suc)
    have "4 * j + 3 < length xs" using "1.prems" Suc by simp
    from "1.IH" [OF this] n [of "4 * j"] n [of "4 * j + 1"] n [of "4 * j + 2"] n [of "4 * j + 3"]
    show ?thesis using Suc by (simp add: algebra_simps)
  qed (simp add: numeral_eq_Suc)
qed simp_all

lemma words_of_eq_map:
  "length bs = 4 * n \<Longrightarrow> words_of bs = map (\<lambda>i.
     le32 (bs ! (4 * i)) (bs ! (4 * i + 1)) (bs ! (4 * i + 2)) (bs ! (4 * i + 3))) [0..<n]"
  by (rule nth_equalityI) (simp_all add: length_words_of words_of_nth)

lemma xor_list_append: "xor_list x (ws @ vs) = xor_list (xor_list x ws) vs"
  by (simp add: xor_list_def)

lemma xor_list_factor: "xor_list x ws = x XOR xor_list 0 ws"
proof (induction ws rule: rev_induct)
  case (snoc w ws)
  then show ?case by (simp add: xor_list_def ac_simps)
qed (simp add: xor_list_def)

section \<open>An image in memory\<close>

text \<open>\<open>for (i = 0; i < size; i++) xorv ^= image[i];\<close>\<close>

primrec xor_image :: "hw \<Rightarrow> u32 \<Rightarrow> nat \<Rightarrow> u32 \<Rightarrow> (history, u32) cmd" where
  "xor_image H img 0 xorv = give xorv"
| "xor_image H img (Suc n) xorv =
     bindc (load32 H img) (\<lambda>v. xor_image H (img + 4) n (xorv XOR v))"

definition validate_checksum :: "hw \<Rightarrow> u32 \<Rightarrow> u32 \<Rightarrow> (history, bool) cmd" where
  "validate_checksum H img sz =
     bindc (xor_image H img (unat sz) CHECKSUM_XOR_START) (\<lambda>xorv. give (xorv = 0))"

section \<open>An image read in chunks\<close>

text \<open>
  The callback gets an address, the buffer and a length, and returns a status and the
  buffer it leaves. \<open>None\<close> stands for the null pointer, as in the source's checks.
\<close>

type_synonym 's read_cb = "u32 \<Rightarrow> u8 list option \<Rightarrow> u32 \<Rightarrow> ('s, int \<times> u8 list) cmd"

definition chunk_len :: "u32 \<Rightarrow> u32" where
  "chunk_len remaining =
     (if remaining > SRAM_IMAGE_CHUNK_BYTES then SRAM_IMAGE_CHUNK_BYTES else remaining)"

definition xor_chunk :: "u8 list \<Rightarrow> nat \<Rightarrow> u32 \<Rightarrow> u32" where
  "xor_chunk buf words xorv =
     foldl (\<lambda>x i. x XOR le32 (buf ! (4 * i)) (buf ! (4 * i + 1)) (buf ! (4 * i + 2)) (buf ! (4 * i + 3)))
       xorv [0..<words]"

lemma chunk_len_bounds:
  "unat (chunk_len r) \<le> 256" "unat (chunk_len r) \<le> unat r" "r \<noteq> 0 \<Longrightarrow> 0 < chunk_len r"
  by (auto simp: chunk_len_def SRAM_IMAGE_CHUNK_BYTES_def word_less_nat_alt not_less
      word_le_nat_alt unat_gt_0)

lemma chunk_len_remaining: "unat (r - chunk_len r) = unat r - unat (chunk_len r)"
  by (rule unat_diff_u32) (use chunk_len_bounds(2) in \<open>simp add: word_le_nat_alt\<close>)

function stream_loop ::
  "'s read_cb \<Rightarrow> u8 list \<Rightarrow> u32 \<Rightarrow> u32 \<Rightarrow> u32 \<Rightarrow> ('s, bool) cmd" where
  "stream_loop read_cb buf addr remaining xorv =
     (if remaining = 0 then give (xorv = 0)
      else bindc (read_cb addr (Some buf) (chunk_len remaining)) (\<lambda>(r, buf').
        if r \<noteq> 0 then give False
        else stream_loop read_cb buf' (addr + chunk_len remaining)
               (remaining - chunk_len remaining)
               (xor_chunk buf' (unat (chunk_len remaining) div 4) xorv)))"
  by pat_completeness auto
termination
proof (relation "measure (\<lambda>(_, _, _, r, _). unat r)", goal_cases)
  case (2 read_cb buf addr remaining)
  then have "0 < unat (chunk_len remaining)" "0 < unat remaining"
    using chunk_len_bounds(3) [of remaining] by (simp_all add: word_less_nat_alt unat_gt_0)
  then show ?case by (simp add: chunk_len_remaining)
qed simp

declare stream_loop.simps [simp del]

definition validate_checksum_stream ::
  "'s read_cb option \<Rightarrow> u32 \<Rightarrow> u32 \<Rightarrow> ('s, bool) cmd" where
  "validate_checksum_stream cb start size_bytes =
     (case cb of
        None \<Rightarrow> give False
      | Some read_cb \<Rightarrow>
          if size_bytes AND 3 \<noteq> 0 then give False
          else stream_loop read_cb (replicate (unat SRAM_IMAGE_CHUNK_BYTES) 0) start
                 size_bytes CHECKSUM_XOR_START)"

section \<open>Correctness\<close>

text \<open>The words a load of the flash array sees from address \<open>p\<close> on.\<close>

definition flash_words :: "fpec \<Rightarrow> u32 \<Rightarrow> nat \<Rightarrow> u32 list" where
  "flash_words F p n = map (\<lambda>i. cell_word (cells F) (p + 4 * of_nat i)) [0..<n]"

lemma flash_words_Suc:
  "flash_words F p (Suc n) = cell_word (cells F) p # flash_words F (p + 4) n"
proof -
  have "[0..<Suc n] = 0 # map Suc [0..<n]" by (simp add: map_Suc_upt upt_conv_Cons del: upt_Suc)
  then show ?thesis unfolding flash_words_def by (simp add: algebra_simps del: upt_Suc)
qed

lemma effect_xor_image:
  assumes H: "fpec_hw H F0"
    and "\<forall>i < n. in_flash (p + 4 * of_nat i) \<and> unat (p + 4 * of_nat i) mod 4 = 0"
  shows "effect (fpec_run F0) (xor_image H p n x) F (xor_list x (flash_words F p n)) F"
  using assms(2)
proof (induction n arbitrary: p x)
  case 0
  then show ?case by (simp add: effect_give flash_words_def xor_list_def)
next
  case (Suc n)
  have sh: "p + 4 * of_nat (Suc i) = (p + 4) + 4 * of_nat i" for i
    by (simp add: algebra_simps)
  have "\<forall>i < n. in_flash ((p + 4) + 4 * of_nat i) \<and> unat ((p + 4) + 4 * of_nat i) mod 4 = 0"
    using Suc.prems unfolding sh [symmetric] by blast
  from Suc.IH [OF this]
  have IH: "effect (fpec_run F0) (xor_image H (p + 4) n y) F (xor_list y (flash_words F (p + 4) n)) F" for y .
  have l: "effect (fpec_run F0) (load32 H p) F (cell_word (cells F) p) F"
    using Suc.prems [rule_format, of 0] by (intro effect_load_cell H) simp_all
  show ?case
    unfolding xor_image.simps flash_words_Suc
    by (rule effect_bindc [OF l]) (use IH in \<open>simp add: xor_list_def\<close>)
qed

lemma effect_validate_checksum:
  assumes "fpec_hw H F0"
    and "\<forall>i < unat sz. in_flash (p + 4 * of_nat i) \<and> unat (p + 4 * of_nat i) mod 4 = 0"
  shows "effect (fpec_run F0) (validate_checksum H p sz) F
     (xor_list CHECKSUM_XOR_START (flash_words F p (unat sz)) = 0) F"
  unfolding validate_checksum_def
  by (rule effect_bindc [OF effect_xor_image [OF assms]]) (rule effect_give)

section \<open>The contract of the read callback\<close>

definition bytes_at :: "(u32 \<Rightarrow> u8) \<Rightarrow> u32 \<Rightarrow> nat \<Rightarrow> u8 list" where
  "bytes_at m a n = map (\<lambda>i. m (a + of_nat i)) [0..<n]"

lemma length_bytes_at [simp]: "length (bytes_at m a n) = n"
  by (simp add: bytes_at_def)

lemma bytes_at_add: "bytes_at m a (n + k) = bytes_at m a n @ bytes_at m (a + of_nat n) k"
proof -
  have "[0..<n + k] = [0..<n] @ [n..<n + k]" by (rule upt_add_eq_append) simp
  moreover have "[n..<n + k] = map (\<lambda>i. i + n) [0..<k]" by (simp add: map_add_upt add.commute)
  ultimately show ?thesis by (simp only: bytes_at_def map_append map_map) (simp add: ac_simps)
qed

lemma xor_chunk_words:
  assumes "4 * n \<le> length buf"
  shows "xor_chunk buf n x = xor_list x (words_of (take (4 * n) buf))"
proof -
  have "words_of (take (4 * n) buf) = map (\<lambda>i. le32 (take (4 * n) buf ! (4 * i))
      (take (4 * n) buf ! (4 * i + 1)) (take (4 * n) buf ! (4 * i + 2))
      (take (4 * n) buf ! (4 * i + 3))) [0..<n]"
    using assms by (intro words_of_eq_map) simp
  also have "\<dots> = map (\<lambda>i. le32 (buf ! (4 * i)) (buf ! (4 * i + 1)) (buf ! (4 * i + 2))
      (buf ! (4 * i + 3))) [0..<n]"
    by (rule map_cong) auto
  finally show ?thesis by (simp add: xor_chunk_def xor_list_def foldl_map)
qed

text \<open>
  The memory behind the callback has \<open>2 ^ 17\<close> bytes. A read inside it succeeds, leaves
  the bytes in the buffer and changes nothing.
\<close>

locale byte_reader =
  fixes rd :: "'s read_cb" and avail :: "'s \<Rightarrow> bool" and memory :: "'s \<Rightarrow> u32 \<Rightarrow> u8"
  assumes read_law:
    "avail s \<Longrightarrow> 0 < len \<Longrightarrow> unat len \<le> length buf \<Longrightarrow> unat a + unat len \<le> 131072 \<Longrightarrow>
     \<exists>s'. rd a (Some buf) len s = Done (0, overwrite 0 (bytes_at (memory s) a (unat len)) buf) s' \<and>
       avail s' \<and> memory s' = memory s"
begin

lemma stream_loop_correct:
  assumes "avail s" and "length buf = 256" and "unat r mod 4 = 0"
    and "unat a + unat r \<le> 131072"
  shows "\<exists>s'. stream_loop rd buf a r x s =
      Done (xor_list x (words_of (bytes_at (memory s) a (unat r))) = 0) s' \<and>
    avail s' \<and> memory s' = memory s"
  using assms
proof (induction "unat r" arbitrary: r a buf x s rule: less_induct)
  case less
  show ?case
  proof (cases "r = 0")
    case True
    with less.prems show ?thesis
      by (intro exI [of _ s]) (simp add: stream_loop.simps give_def xor_list_def bytes_at_def)
  next
    case False
    define c where "c = chunk_len r"
    have c: "0 < c" "unat c \<le> unat r" "unat c \<le> 256" "unat (r - c) = unat r - unat c"
      using False chunk_len_bounds [of r] chunk_len_remaining [of r] by (simp_all add: c_def)
    have c4: "unat c mod 4 = 0"
      using less.prems(3) by (simp add: c_def chunk_len_def SRAM_IMAGE_CHUNK_BYTES_def)
    obtain n where n: "unat c = 4 * n" using c4 by blast
    let ?bs = "bytes_at (memory s) a (unat c)"
    let ?buf = "overwrite 0 ?bs buf"
    from read_law [OF less.prems(1) c(1), of buf a] less.prems c obtain s1 where
      1: "rd a (Some buf) c s = Done (0, ?buf) s1" "avail s1" "memory s1 = memory s" by auto
    have "unat (of_nat (unat c) :: u32) = unat c" by simp
    then have a: "unat (a + c) = unat a + unat c"
      using unat_add_u32 [of a "unat c"] less.prems(4) c by simp
    have "0 < unat c" using c(1) by (simp add: word_less_nat_alt)
    with c have lt: "unat (r - c) < unat r" by simp
    have m: "unat (r - c) mod 4 = 0" using less.prems(3) c n by (auto simp: mod_simps dvd_diff_nat simp flip: dvd_eq_mod_eq_0)
    let ?x = "xor_chunk ?buf (unat c div 4) x"
    from less.hyps [OF lt 1(2) _ m, of ?buf "a + c" ?x] less.prems a c obtain s2 where
      2: "stream_loop rd ?buf (a + c) (r - c) ?x s1 =
        Done (xor_list ?x (words_of (bytes_at (memory s1) (a + c) (unat (r - c)))) = 0) s2"
        "avail s2" "memory s2 = memory s1" by auto
    have tk: "take (4 * n) ?buf = ?bs"
      using less.prems(2) c n by (simp add: overwrite_0)
    have x: "?x = xor_list x (words_of ?bs)"
      using xor_chunk_words [of n ?buf x] less.prems(2) c n tk by simp
    have "bytes_at (memory s) a (unat r) = ?bs @ bytes_at (memory s) (a + c) (unat (r - c))"
      using bytes_at_add [of "memory s" a "unat c" "unat (r - c)"] c by simp
    then have "words_of (bytes_at (memory s) a (unat r)) =
        words_of ?bs @ words_of (bytes_at (memory s) (a + c) (unat (r - c)))"
      using c4 by (simp add: words_of_append)
    then have eq: "xor_list x (words_of (bytes_at (memory s) a (unat r))) =
        xor_list ?x (words_of (bytes_at (memory s) (a + c) (unat (r - c))))"
      by (simp add: x xor_list_append)
    have "stream_loop rd buf a r x s = stream_loop rd ?buf (a + c) (r - c) ?x s1"
      using False 1(1) by (subst stream_loop.simps) (simp add: bindc_def c_def [symmetric])
    with 2 1 eq show ?thesis by (intro exI [of _ s2]) simp
  qed
qed

lemma validate_stream_correct:
  assumes "avail s" and "unat a + unat sz \<le> 131072"
  shows "\<exists>s'. validate_checksum_stream (Some rd) a sz s =
      Done (sz AND 3 = 0 \<and> xor_sum (bytes_at (memory s) a (unat sz)) = 0) s' \<and>
    avail s' \<and> memory s' = memory s"
proof (cases "sz AND 3 = 0")
  case True
  with and_3_eq have "unat sz mod 4 = 0" by simp
  from stream_loop_correct [OF assms(1) _ this assms(2), of "replicate (unat SRAM_IMAGE_CHUNK_BYTES) 0"]
  show ?thesis using True
    by (simp add: validate_checksum_stream_def xor_sum_def SRAM_IMAGE_CHUNK_BYTES_def)
next
  case False
  with assms show ?thesis by (simp add: validate_checksum_stream_def give_def)
qed

end

end
