(* ===== verification/SpiSram.thy ===== *)
theory SpiSram
  imports Gpio Checksum
begin

text \<open>
  \<open>Core/Src/spi_sram.c\<close>: the driver of the external SPI RAM (chip select by GPIO, one
  byte per SPI2 transfer, the READ and WRITE commands with a 24-bit address), the unused
  bit-banged transfer and the self test. \<open>sram_hw\<close> is the hypothesis on SPI2 and the RAM
  chip, as their documentation states it; under it \<open>spi_sram_read\<close> discharges the
  contract of the checksum callback.
\<close>

definition RCC_APB1ENR :: u32 where [reg_defs]: "RCC_APB1ENR = 0x4002101C"
definition SPI2_BASE :: u32 where [reg_defs]: "SPI2_BASE = 0x40003800"
definition SPI2_CR1 :: u32 where [reg_defs]: "SPI2_CR1 = SPI2_BASE + 0x00"
definition SPI2_SR :: u32 where [reg_defs]: "SPI2_SR = SPI2_BASE + 0x08"
definition SPI2_DR :: u32 where [reg_defs]: "SPI2_DR = SPI2_BASE + 0x0C"
definition SPI_SR_RXNE :: u32 where [reg_defs]: "SPI_SR_RXNE = 0x1"
definition SPI_SR_TXE :: u32 where [reg_defs]: "SPI_SR_TXE = 0x2"
definition SPI_SR_BSY :: u32 where [reg_defs]: "SPI_SR_BSY = 0x80"

definition spi_sram_cs_assert :: "hw \<Rightarrow> (history, unit) cmd" where
  "spi_sram_cs_assert H = gpio_clear H SPI_SRAM_PORT SPI_SRAM_CS_PIN"

definition spi_sram_cs_deassert :: "hw \<Rightarrow> (history, unit) cmd" where
  "spi_sram_cs_deassert H = gpio_set H SPI_SRAM_PORT SPI_SRAM_CS_PIN"

definition spi_sram_hw_init :: "hw \<Rightarrow> (history, unit) cmd" where
  "spi_sram_hw_init H = block
     [rcc_gpio_enable H SPI_SRAM_PORT,
      gpio_set_output H SPI_SRAM_PORT SPI_SRAM_CS_PIN,
      gpio_set H SPI_SRAM_PORT SPI_SRAM_CS_PIN,
      gpio_set_mode H SPI_SRAM_PORT SPI_SRAM_SCK_PIN 0xB,
      gpio_set_mode H SPI_SRAM_PORT SPI_SRAM_MOSI_PIN 0xB,
      gpio_set H SPI_SRAM_PORT SPI_SRAM_MISO_PIN,
      gpio_set_mode H SPI_SRAM_PORT SPI_SRAM_MISO_PIN 0x8,
      or32 H RCC_APB1ENR (push_bit 14 1),
      or32 H RCC_APB2ENR (push_bit 0 1),
      bindc (load32 H RCC_APB1ENR) (\<lambda>_. skip),
      store32 H SPI2_CR1 0,
      or32 H SPI2_CR1 (push_bit 2 1),
      or32 H SPI2_CR1 (push_bit 3 3),
      or32 H SPI2_CR1 (push_bit 9 1),
      or32 H SPI2_CR1 (push_bit 8 1),
      or32 H SPI2_CR1 (push_bit 6 1)]"

definition spi_sram_xfer_byte :: "hw \<Rightarrow> u8 \<Rightarrow> (history, u8) cmd" where
  "spi_sram_xfer_byte H out =
     bindc (load32 H SPI2_SR) (\<lambda>sr.
     bindc (if sr AND SPI_SR_RXNE \<noteq> 0 then bindc (load16 H SPI2_DR) (\<lambda>_. skip) else skip) (\<lambda>_.
     bindc (spin_while H SPI2_SR (\<lambda>v. v AND SPI_SR_TXE = 0)) (\<lambda>_.
     bindc (store16 H SPI2_DR (ucast out)) (\<lambda>_.
     bindc (spin_while H SPI2_SR (\<lambda>v. v AND SPI_SR_RXNE = 0)) (\<lambda>_.
     bindc (load16 H SPI2_DR) (\<lambda>v.
     bindc (spin_while H SPI2_SR (\<lambda>v. v AND SPI_SR_BSY \<noteq> 0)) (\<lambda>_.
     give (ucast (v AND 0xFF)))))))))"

text \<open>The bit-banged transfer: \<open>n\<close> bits are left, the next one is bit \<open>n - 1\<close>.\<close>

primrec gpio_xfer_bits :: "hw \<Rightarrow> u8 \<Rightarrow> nat \<Rightarrow> u8 \<Rightarrow> (history, u8) cmd" where
  "gpio_xfer_bits H out 0 inb = give inb"
| "gpio_xfer_bits H out (Suc b) inb =
     bindc (if out AND push_bit b 1 \<noteq> 0
            then gpio_set H SPI_SRAM_PORT SPI_SRAM_MOSI_PIN
            else gpio_clear H SPI_SRAM_PORT SPI_SRAM_MOSI_PIN) (\<lambda>_.
     bindc (gpio_set H SPI_SRAM_PORT SPI_SRAM_SCK_PIN) (\<lambda>_.
     bindc (gpio_read H SPI_SRAM_PORT SPI_SRAM_MISO_PIN) (\<lambda>v.
     bindc (gpio_clear H SPI_SRAM_PORT SPI_SRAM_SCK_PIN) (\<lambda>_.
     gpio_xfer_bits H out b (push_bit 1 inb OR (if v \<noteq> 0 then 1 else 0))))))"

definition spi_sram_gpio_xfer_byte :: "hw \<Rightarrow> u8 \<Rightarrow> (history, u8) cmd" where
  "spi_sram_gpio_xfer_byte H out = gpio_xfer_bits H out 8 0"

definition send_byte :: "hw \<Rightarrow> u8 \<Rightarrow> (history, unit) cmd" where
  "send_byte H b = bindc (spi_sram_xfer_byte H b) (\<lambda>_. skip)"

text \<open>Opcode and 24-bit address, most significant byte first.\<close>

definition send_header :: "hw \<Rightarrow> u8 \<Rightarrow> u32 \<Rightarrow> (history, unit) cmd" where
  "send_header H opcode addr = block
     [send_byte H opcode,
      send_byte H (ucast (drop_bit 16 addr AND 0xFF)),
      send_byte H (ucast (drop_bit 8 addr AND 0xFF)),
      send_byte H (ucast (addr AND 0xFF))]"

text \<open>\<open>for (i = 0; i < len; ++i) dst[i] = spi_sram_xfer_byte(0x00);\<close>, the bytes in order\<close>

primrec read_bytes :: "hw \<Rightarrow> nat \<Rightarrow> (history, u8 list) cmd" where
  "read_bytes H 0 = give []"
| "read_bytes H (Suc n) =
     bindc (spi_sram_xfer_byte H 0x00) (\<lambda>b. bindc (read_bytes H n) (\<lambda>bs. give (b # bs)))"

definition spi_sram_read :: "hw \<Rightarrow> history read_cb" where
  "spi_sram_read H addr buf len =
     (case buf of
        None \<Rightarrow> give (- 1, [])
      | Some dst \<Rightarrow>
          if len = 0 then give (- 1, dst)
          else if length dst < unat len then halt OutOfBounds
          else bindc (block [spi_sram_cs_assert H, send_header H 0x03 addr]) (\<lambda>_.
               bindc (read_bytes H (unat len)) (\<lambda>bs.
               bindc (spi_sram_cs_deassert H) (\<lambda>_.
               give (0, overwrite 0 bs dst)))))"

definition spi_sram_write :: "hw \<Rightarrow> u32 \<Rightarrow> u8 list option \<Rightarrow> u32 \<Rightarrow> (history, int) cmd" where
  "spi_sram_write H addr buf len =
     (case buf of
        None \<Rightarrow> give (- 1)
      | Some src \<Rightarrow>
          if len = 0 then give (- 1)
          else if length src < unat len then halt OutOfBounds
          else bindc (block
              [spi_sram_cs_assert H, send_header H 0x02 addr,
               forc (unat len) (\<lambda>i. send_byte H (src ! i)),
               spi_sram_cs_deassert H]) (\<lambda>_. give 0))"

definition test_pattern :: "u8 list" where
  "test_pattern = map (\<lambda>i. 0xA5 XOR of_nat i) [0..<16]"

fun first_difference :: "u8 list \<Rightarrow> u8 list \<Rightarrow> nat \<Rightarrow> int" where
  "first_difference (x # xs) (y # ys) i =
     (if x \<noteq> y then 3 + int i else first_difference xs ys (Suc i))"
| "first_difference _ _ i = 0"

definition spi_sram_self_test :: "hw \<Rightarrow> (history, int) cmd" where
  "spi_sram_self_test H =
     bindc (spi_sram_write H 0 (Some test_pattern) 16) (\<lambda>w.
       if w \<noteq> 0 then give (- 1)
       else bindc (spi_sram_read H 0 (Some (replicate 16 0)) 16) (\<lambda>(r, test_read).
         if r \<noteq> 0 then give (- 2)
         else give (first_difference test_read test_pattern 0)))"

section \<open>The RAM chip\<close>

text \<open>
  The chip sees the bytes shifted since chip select went low. Once the opcode and the
  three address bytes are in, each further byte of a WRITE is stored and each further byte
  of a READ is answered at consecutive addresses.
\<close>

record sram =
  sel :: bool
  got :: "u8 list"
  mem :: "u32 \<Rightarrow> u8"

definition addr_of :: "u8 list \<Rightarrow> u32" where
  "addr_of g = push_bit 16 (ucast (g ! 1)) OR push_bit 8 (ucast (g ! 2)) OR ucast (g ! 3)"

definition sram_shift :: "u8 \<Rightarrow> sram \<Rightarrow> sram" where
  "sram_shift b S =
     (if \<not> sel S then S
      else let g = got S @ [b] in
        S\<lparr>got := g,
          mem := (if 5 \<le> length g \<and> g ! 0 = 0x02
                  then (mem S)(addr_of g + of_nat (length g - 5) := b) else mem S)\<rparr>)"

definition sram_reply :: "sram \<Rightarrow> u8 option" where
  "sram_reply S =
     (if sel S \<and> 5 \<le> length (got S) \<and> got S ! 0 = 0x03
      then Some (mem S (addr_of (got S) + of_nat (length (got S) - 5))) else None)"

definition sram_cs :: "u32 \<Rightarrow> sram \<Rightarrow> sram" where
  "sram_cs v S =
     (if bit v 12 then S\<lparr>sel := False, got := []\<rparr>
      else if bit v 28 \<and> \<not> sel S then S\<lparr>sel := True, got := []\<rparr> else S)"

fun sram_step :: "event \<Rightarrow> sram \<Rightarrow> sram" where
  "sram_step (Stored W32 a v) S = (if a = GPIO_BSRR SPI_SRAM_PORT then sram_cs v S else S)"
| "sram_step (Stored W16 a v) S = (if a = SPI2_DR then sram_shift (ucast v) S else S)"
| "sram_step _ S = S"

fun sram_run :: "sram \<Rightarrow> history \<Rightarrow> sram" where
  "sram_run S0 [] = S0"
| "sram_run S0 (e # h) = sram_step e (sram_run S0 h)"

definition sram_hw :: "hw \<Rightarrow> sram \<Rightarrow> bool" where
  "sram_hw H S0 \<longleftrightarrow> (\<forall>h.
     H h (Load W32 SPI2_SR) \<noteq> None \<and>
     settles H SPI2_SR (\<lambda>v. v AND SPI_SR_TXE = 0) h \<and>
     settles H SPI2_SR (\<lambda>v. v AND SPI_SR_RXNE = 0) h \<and>
     settles H SPI2_SR (\<lambda>v. v AND SPI_SR_BSY \<noteq> 0) h \<and>
     (\<forall>v. H h (Store W32 (GPIO_BSRR SPI_SRAM_PORT) v) \<noteq> None) \<and>
     (\<forall>v. H h (Store W16 SPI2_DR v) \<noteq> None) \<and>
     (case sram_reply (sram_run S0 h) of
        None \<Rightarrow> H h (Load W16 SPI2_DR) \<noteq> None
      | Some b \<Rightarrow> H h (Load W16 SPI2_DR) = Some (ucast b)))"

fun sram_sim :: "sram \<Rightarrow> hw" where
  "sram_sim S0 h (Load w a) =
     Some (if a = SPI2_SR then 3
           else case sram_reply (sram_run S0 h) of None \<Rightarrow> 0 | Some b \<Rightarrow> ucast b)"
| "sram_sim S0 h (Store w a v) = Some 0"

lemma sram_sim_conforms: "sram_hw (sram_sim S0) S0"
proof -
  have "settles (sram_sim S0) SPI2_SR p h" if "\<not> p 3" for p h
    using that by (intro settles.now [where v = 3]) simp_all
  moreover have "SPI2_DR \<noteq> SPI2_SR" by (simp add: reg_defs)
  ultimately show ?thesis by (auto simp: sram_hw_def reg_defs split: option.splits)
qed

section \<open>The driver against the chip\<close>

lemma sram_run_loads [simp]: "sram_run S0 (Loaded w a v # h) = sram_run S0 h"
  by simp

lemma byte_of_answer: "ucast ((ucast (ucast (b :: u8) :: u32) :: u16) AND 0xFF) = b"
proof (rule bit_word_eqI)
  fix n assume "n < LENGTH(8)"
  then have n: "n < 8" by simp
  have "bit (0xFF :: int) n" using n by (simp add: bit_iff_odd less_Suc_eq numeral_eq_Suc) auto
  with n show "bit (ucast ((ucast (ucast b :: u32) :: u16) AND 0xFF) :: u8) n = bit b n"
    by (simp add: bit_ucast_iff bit_and_iff)
qed

lemma xfer_law:
  assumes H: "sram_hw H S0"
  shows "\<exists>x h'. spi_sram_xfer_byte H b h = Done x h' \<and>
    sram_run S0 h' = sram_shift b (sram_run S0 h) \<and>
    (\<forall>r. sram_reply (sram_run S0 h') = Some r \<longrightarrow> x = r)"
proof -
  have spin: "\<exists>h'. spin_while H SPI2_SR p g = Done () h' \<and> sram_run S0 h' = sram_run S0 g"
    if "\<And>h. settles H SPI2_SR p h" for p g
    by (rule effectD [OF effect_spin_while [OF that] refl]) simp
  note hw = H [unfolded sram_hw_def, rule_format]
  obtain v0 where v0: "H h (Load W32 SPI2_SR) = Some v0" using hw by blast
  define h0 where "h0 = Loaded W32 SPI2_SR v0 # h"
  have dr: "\<exists>v. H g (Load W16 SPI2_DR) = Some v" for g
    using hw [of g] by (auto split: option.splits)
  obtain v1 where v1: "H h0 (Load W16 SPI2_DR) = Some v1" using dr by blast
  define h1 where "h1 = (if v0 AND SPI_SR_RXNE \<noteq> 0 then Loaded W16 SPI2_DR v1 # h0 else h0)"
  have r1: "sram_run S0 h1 = sram_run S0 h" by (simp add: h1_def h0_def)
  have drain: "(if v0 AND SPI_SR_RXNE \<noteq> 0 then bindc (load16 H SPI2_DR) (\<lambda>_. skip) else skip) h0
      = Done () h1"
    using v1 by (simp add: h1_def load16_def bindc_def load_def give_def)
  obtain h2 where h2: "spin_while H SPI2_SR (\<lambda>v. v AND SPI_SR_TXE = 0) h1 = Done () h2"
    "sram_run S0 h2 = sram_run S0 h1" using spin hw by blast
  define h3 where "h3 = Stored W16 SPI2_DR (ucast (ucast b :: u16)) # h2"
  have st: "store16 H SPI2_DR (ucast b) h2 = Done () h3"
    using hw [of h2] by (auto simp: store16_def store_def h3_def split: option.splits)
  have r3: "sram_run S0 h3 = sram_shift b (sram_run S0 h2)" by (simp add: h3_def)
  obtain h4 where h4: "spin_while H SPI2_SR (\<lambda>v. v AND SPI_SR_RXNE = 0) h3 = Done () h4"
    "sram_run S0 h4 = sram_run S0 h3" using spin hw by blast
  obtain v where v: "H h4 (Load W16 SPI2_DR) = Some v"
    "\<forall>r. sram_reply (sram_run S0 h4) = Some r \<longrightarrow> v = ucast r"
    using hw [of h4] by (auto split: option.splits)
  obtain h5 where h5: "spin_while H SPI2_SR (\<lambda>v. v AND SPI_SR_BSY \<noteq> 0) (Loaded W16 SPI2_DR v # h4)
      = Done () h5" "sram_run S0 h5 = sram_run S0 (Loaded W16 SPI2_DR v # h4)"
    using spin hw by blast
  have l0: "load32 H SPI2_SR h = Done v0 h0" by (simp add: load_def v0 h0_def)
  have l4: "load16 H SPI2_DR h4 = Done (ucast v) (Loaded W16 SPI2_DR v # h4)"
    by (simp add: load16_def bindc_def load_def v(1) give_def)
  have "spi_sram_xfer_byte H b h = Done (ucast ((ucast v :: u16) AND 0xFF)) h5"
    by (simp only: spi_sram_xfer_byte_def bindc_def [of _ _ h] bindc_def [of _ _ h0]
        bindc_def [of _ _ h1] bindc_def [of _ _ h2] bindc_def [of _ _ h3] bindc_def [of _ _ h4]
        bindc_def [of _ _ "Loaded W16 SPI2_DR v # h4"]
        l0 drain h2(1) st h4(1) l4 h5(1) give_def result.case)
  then show ?thesis
    using h5(2) h4(2) r3 h2(2) r1 v(2) byte_of_answer by (intro exI conjI) auto
qed

lemma effect_send_byte:
  "sram_hw H S0 \<Longrightarrow> effect (sram_run S0) (send_byte H b) S () (sram_shift b S)"
  unfolding effect_def
proof (intro allI impI)
  fix h assume "sram_hw H S0" and S: "sram_run S0 h = S"
  from xfer_law [OF this(1), of b h] obtain x h' where
    "spi_sram_xfer_byte H b h = Done x h'" "sram_run S0 h' = sram_shift b S" using S by blast
  then show "\<exists>h'. send_byte H b h = Done () h' \<and> sram_run S0 h' = sram_shift b S"
    by (auto simp: send_byte_def bindc_def give_def)
qed

lemma effect_xfer_reply:
  "sram_hw H S0 \<Longrightarrow> sram_reply (sram_shift b S) = Some r \<Longrightarrow>
   effect (sram_run S0) (spi_sram_xfer_byte H b) S r (sram_shift b S)"
  unfolding effect_def by (metis xfer_law)

lemma effect_cs_assert:
  assumes "sram_hw H S0" and "\<not> sel S"
  shows "effect (sram_run S0) (spi_sram_cs_assert H) S () (S\<lparr>sel := True, got := []\<rparr>)"
  unfolding spi_sram_cs_assert_def gpio_clear_def
proof (rule effect_store)
  show "H h (Store W32 (GPIO_BSRR SPI_SRAM_PORT) v) \<noteq> None" for h v
    using assms(1) by (simp add: sram_hw_def)
qed (use assms(2) in \<open>simp add: sram_cs_def SPI_SRAM_CS_PIN_def bit_push_bit_iff\<close>)

lemma effect_cs_deassert:
  assumes "sram_hw H S0"
  shows "effect (sram_run S0) (spi_sram_cs_deassert H) S () (S\<lparr>sel := False, got := []\<rparr>)"
  unfolding spi_sram_cs_deassert_def gpio_set_def
proof (rule effect_store)
  show "H h (Store W32 (GPIO_BSRR SPI_SRAM_PORT) v) \<noteq> None" for h v
    using assms by (simp add: sram_hw_def)
qed (simp add: sram_cs_def SPI_SRAM_CS_PIN_def bit_push_bit_iff)

definition header :: "u8 \<Rightarrow> u32 \<Rightarrow> u8 list" where
  "header opcode addr = [opcode, ucast (drop_bit 16 addr AND 0xFF),
     ucast (drop_bit 8 addr AND 0xFF), ucast (addr AND 0xFF)]"

lemma effect_header:
  assumes "sram_hw H S0" and "sel S" and "got S = []"
  shows "effect (sram_run S0) (send_header H opcode addr) S () (S\<lparr>got := header opcode addr\<rparr>)"
proof -
  have "effect (sram_run S0) (send_header H opcode addr) S ()
      (sram_shift (ucast (addr AND 0xFF)) (sram_shift (ucast (drop_bit 8 addr AND 0xFF))
        (sram_shift (ucast (drop_bit 16 addr AND 0xFF)) (sram_shift opcode S))))"
    unfolding send_header_def
    by (rule assms(1) effect_block_Cons effect_block_Nil effect_send_byte)+
  moreover have "sram_shift (ucast (addr AND 0xFF)) (sram_shift (ucast (drop_bit 8 addr AND 0xFF))
        (sram_shift (ucast (drop_bit 16 addr AND 0xFF)) (sram_shift opcode S))) =
      S\<lparr>got := header opcode addr\<rparr>"
    using assms(2,3) by (cases S) (simp add: sram_shift_def header_def)
  ultimately show ?thesis by simp
qed

lemma addr_of_header:
  assumes "unat addr < 2 ^ 24"
  shows "addr_of (header opcode addr @ xs) = addr"
proof (rule bit_word_eqI)
  fix n assume "n < LENGTH(32)"
  have f: "bit (0xFF :: int) k \<longleftrightarrow> k < 8" for k
  proof -
    have "(0xFF :: int) = mask 8" by (simp add: mask_eq_exp_minus_1)
    then show ?thesis by (simp only: bit_mask_iff) (auto simp: possible_bit_def)
  qed
  have hi: "\<not> bit addr k" if "24 \<le> k" for k
  proof -
    have "addr < 2 ^ 24" using assms by (simp add: word_less_nat_alt)
    from less_mask_eq [OF this] have "addr = take_bit 24 addr" by (simp add: take_bit_eq_mask)
    then show ?thesis using that by (metis bit_take_bit_iff linorder_not_less)
  qed
  consider "n < 8" | "8 \<le> n" "n < 16" | "16 \<le> n" "n < 24" | "24 \<le> n" by linarith
  then show "bit (addr_of (header opcode addr @ xs)) n = bit addr n"
    using hi by cases (auto simp: addr_of_def header_def bit_or_iff bit_push_bit_iff
        bit_ucast_iff bit_and_iff bit_drop_bit_eq f)
qed

text \<open>Reading \<open>n\<close> bytes of an open READ from the \<open>k\<close>-th data byte on.\<close>

lemma effect_read_bytes:
  assumes H: "sram_hw H S0" and addr: "unat addr < 2 ^ 24"
    and S: "sel S" "got S = header 0x03 addr @ xs"
  shows "effect (sram_run S0) (read_bytes H n) S
     (bytes_at (mem S) (addr + of_nat (length xs)) n)
     (S\<lparr>got := header 0x03 addr @ xs @ replicate n 0\<rparr>)"
  using S
proof (induction n arbitrary: S xs)
  case 0
  then have "S\<lparr>got := header 0x03 addr @ xs @ replicate 0 0\<rparr> = S" by (cases S) simp
  then show ?case by (simp add: effect_give bytes_at_def del: replicate_0)
next
  case (Suc n)
  let ?S1 = "S\<lparr>got := header 0x03 addr @ xs @ [0]\<rparr>"
  have hd: "(header 0x03 addr @ xs @ [0]) ! 0 = 0x03" "length (header 0x03 addr) = 4"
    by (simp_all add: header_def)
  have sh: "sram_shift 0 S = ?S1"
    using Suc.prems hd by (cases S) (simp add: sram_shift_def header_def)
  have rep: "sram_reply ?S1 = Some (mem S (addr + of_nat (length xs)))"
    using Suc.prems hd addr_of_header [OF addr] by (simp add: sram_reply_def)
  have x: "effect (sram_run S0) (spi_sram_xfer_byte H 0) S (mem S (addr + of_nat (length xs))) ?S1"
    using effect_xfer_reply [OF H, of 0 S] rep sh by simp
  have IH: "effect (sram_run S0) (read_bytes H n) ?S1
     (bytes_at (mem ?S1) (addr + of_nat (length (xs @ [0]))) n)
     (?S1\<lparr>got := header 0x03 addr @ (xs @ [0]) @ replicate n 0\<rparr>)"
    using Suc.prems by (intro Suc.IH) simp_all
  have b: "bytes_at (mem S) (addr + of_nat (length xs)) (Suc n) =
      mem S (addr + of_nat (length xs)) # bytes_at (mem S) (addr + of_nat (length (xs @ [0]))) n"
    using bytes_at_add [of "mem S" "addr + of_nat (length xs)" 1 n]
    by (simp add: bytes_at_def ac_simps)
  show ?case
    unfolding read_bytes.simps b
    by (rule effect_bindc [OF x], rule effect_bindc [OF IH [simplified]])
      (simp add: effect_give ac_simps)
qed

lemma effect_read:
  assumes H: "sram_hw H S0" and S: "\<not> sel S" "got S = []"
    and len: "0 < len" "unat len \<le> length buf" and addr: "unat addr < 2 ^ 24"
  shows "effect (sram_run S0) (spi_sram_read H addr (Some buf) len) S
     (0, overwrite 0 (bytes_at (mem S) addr (unat len)) buf) S"
proof -
  let ?S1 = "S\<lparr>sel := True, got := []\<rparr>"
  let ?S2 = "?S1\<lparr>got := header 0x03 addr\<rparr>"
  let ?S3 = "?S2\<lparr>got := header 0x03 addr @ replicate (unat len) 0\<rparr>"
  have h: "effect (sram_run S0) (block [spi_sram_cs_assert H, send_header H 0x03 addr]) S () ?S2"
    by (rule effect_block_Cons effect_block_Nil effect_cs_assert effect_header H S | simp)+
  have r: "effect (sram_run S0) (read_bytes H (unat len)) ?S2
      (bytes_at (mem S) addr (unat len)) ?S3"
    using effect_read_bytes [OF H addr, of ?S2 "[]" "unat len"] by simp
  have c: "effect (sram_run S0) (spi_sram_cs_deassert H) ?S3 () (?S3\<lparr>sel := False, got := []\<rparr>)"
    by (rule effect_cs_deassert [OF H])
  have e: "?S3\<lparr>sel := False, got := []\<rparr> = S" using S by (cases S) simp
  have "effect (sram_run S0)
     (bindc (block [spi_sram_cs_assert H, send_header H 0x03 addr]) (\<lambda>_.
      bindc (read_bytes H (unat len)) (\<lambda>bs.
      bindc (spi_sram_cs_deassert H) (\<lambda>_. give (0, overwrite 0 bs buf))))) S
     (0, overwrite 0 (bytes_at (mem S) addr (unat len)) buf) S"
    by (rule effect_bindc [OF h], rule effect_bindc [OF r], rule effect_bindc [OF c])
      (simp only: e effect_give)
  then show ?thesis
    using len by (simp add: spi_sram_read_def word_gt_0)
qed

section \<open>Writing\<close>

text \<open>The memory after the bytes \<open>bs\<close> have been stored from address \<open>a\<close> on.\<close>

definition put_bytes :: "u32 \<Rightarrow> u8 list \<Rightarrow> (u32 \<Rightarrow> u8) \<Rightarrow> u32 \<Rightarrow> u8" where
  "put_bytes a bs m x = (let d = unat (x - a) in if d < length bs then bs ! d else m x)"

lemma put_bytes_Nil [simp]: "put_bytes a [] m = m"
  by (rule ext) (simp add: put_bytes_def)

lemma put_bytes_snoc:
  assumes "length bs < 4294967296"
  shows "put_bytes a (bs @ [b]) m = (put_bytes a bs m)(a + of_nat (length bs) := b)"
proof
  fix x
  have u: "unat (of_nat (length bs) :: u32) = length bs" using assms by simp
  show "put_bytes a (bs @ [b]) m x = ((put_bytes a bs m)(a + of_nat (length bs) := b)) x"
  proof (cases "x = a + of_nat (length bs)")
    case True
    then show ?thesis using u by (simp add: put_bytes_def)
  next
    case False
    have "unat (x - a) \<noteq> length bs"
    proof
      assume "unat (x - a) = length bs"
      with u have "x - a = of_nat (length bs)" by (simp only: word_unat_eq_iff)
      with False show False by (simp add: algebra_simps)
    qed
    with False show ?thesis by (auto simp: put_bytes_def Let_def nth_append)
  qed
qed

lemma bytes_at_put_same:
  assumes "length bs < 4294967296"
  shows "bytes_at (put_bytes a bs m) a (length bs) = bs"
proof (rule nth_equalityI)
  fix i assume "i < length (bytes_at (put_bytes a bs m) a (length bs))"
  then have "i < length bs" by simp
  moreover have "unat (of_nat i :: u32) = i" using calculation assms by simp
  ultimately show "bytes_at (put_bytes a bs m) a (length bs) ! i = bs ! i"
    by (simp add: bytes_at_def put_bytes_def)
qed simp

lemma bytes_at_put_other:
  assumes "length bs \<le> unat b" and "unat b + n \<le> 4294967296"
  shows "bytes_at (put_bytes 0 bs m) b n = bytes_at m b n"
  unfolding bytes_at_def
proof (rule map_cong [OF refl])
  fix i assume "i \<in> set [0..<n]"
  then have "unat (b + of_nat i) = unat b + i" using assms by (intro unat_add_u32) simp
  then show "put_bytes 0 bs m (b + of_nat i) = m (b + of_nat i)"
    using assms by (simp add: put_bytes_def)
qed

lemma effect_send_data:
  assumes H: "sram_hw H S0" and addr: "unat addr < 2 ^ 24"
    and S: "sel S" "got S = header 0x02 addr @ xs" "mem S = put_bytes addr xs m"
    and l: "length xs < 4294967296"
  shows "effect (sram_run S0) (send_byte H b) S ()
    (S\<lparr>got := header 0x02 addr @ xs @ [b], mem := put_bytes addr (xs @ [b]) m\<rparr>)"
proof -
  have hd: "(header 0x02 addr @ xs @ [b]) ! 0 = 0x02" "length (header 0x02 addr) = 4"
    by (simp_all add: header_def)
  have "sram_shift b S = S\<lparr>got := header 0x02 addr @ xs @ [b], mem := put_bytes addr (xs @ [b]) m\<rparr>"
    using S hd addr_of_header [OF addr]
    by (cases S) (simp add: sram_shift_def put_bytes_snoc [OF l])
  with effect_send_byte [OF H, of b S] show ?thesis by simp
qed

lemma effect_write:
  assumes H: "sram_hw H S0" and S: "\<not> sel S" "got S = []"
    and len: "0 < len" "unat len = length src" and addr: "unat addr < 2 ^ 24"
  shows "effect (sram_run S0) (spi_sram_write H addr (Some src) len) S 0
     (S\<lparr>mem := put_bytes addr src (mem S)\<rparr>)"
proof -
  let ?S1 = "S\<lparr>sel := True, got := []\<rparr>"
  let ?G = "\<lambda>i. ?S1\<lparr>got := header 0x02 addr @ take i src, mem := put_bytes addr (take i src) (mem S)\<rparr>"
  have src: "length src < 4294967296" using len(2) unat_u32_less [of len] by simp
  have G0: "?S1\<lparr>got := header 0x02 addr\<rparr> = ?G 0" by simp
  have c1: "effect (sram_run S0) (spi_sram_cs_assert H) S () ?S1"
    by (rule effect_cs_assert [OF H S(1)])
  have c2: "effect (sram_run S0) (send_header H 0x02 addr) ?S1 () (?G 0)"
    unfolding G0 [symmetric] by (rule effect_header [OF H]) simp_all
  have c3: "effect (sram_run S0) (forc (unat len) (\<lambda>i. send_byte H (src ! i))) (?G 0) () (?G (unat len))"
  proof (rule effect_forc)
    fix i assume i: "i < unat len"
    then have "take (Suc i) src = take i src @ [src ! i]"
      using len(2) by (simp add: take_Suc_conv_app_nth)
    with effect_send_data [OF H addr, of "?G i" "take i src" "mem S" "src ! i"] src
    show "effect (sram_run S0) (send_byte H (src ! i)) (?G i) () (?G (Suc i))" by simp
  qed
  have c4: "effect (sram_run S0) (spi_sram_cs_deassert H) (?G (unat len)) ()
      ((?G (unat len))\<lparr>sel := False, got := []\<rparr>)"
    by (rule effect_cs_deassert [OF H])
  have e: "(?G (unat len))\<lparr>sel := False, got := []\<rparr> = S\<lparr>mem := put_bytes addr src (mem S)\<rparr>"
    using S len(2) by (cases S) simp
  have "effect (sram_run S0) (bindc (block
      [spi_sram_cs_assert H, send_header H 0x02 addr,
       forc (unat len) (\<lambda>i. send_byte H (src ! i)), spi_sram_cs_deassert H]) (\<lambda>_. give 0)) S (0 :: int)
      (S\<lparr>mem := put_bytes addr src (mem S)\<rparr>)"
    by (rule effect_bindc [OF effect_block_Cons [OF c1 effect_block_Cons [OF c2 effect_block_Cons
      [OF c3 effect_block_Cons [OF c4 effect_block_Nil]]]]]) (simp only: e effect_give)
  then show ?thesis using len by (simp add: spi_sram_write_def word_gt_0)
qed

text \<open>The chip is idle (not selected); its memory is what the callback reads.\<close>

definition sram_idle :: "hw \<Rightarrow> sram \<Rightarrow> history \<Rightarrow> bool" where
  "sram_idle H S0 h \<longleftrightarrow> sram_hw H S0 \<and> \<not> sel (sram_run S0 h) \<and> got (sram_run S0 h) = []"

definition sram_mem :: "sram \<Rightarrow> history \<Rightarrow> u32 \<Rightarrow> u8" where
  "sram_mem S0 h = mem (sram_run S0 h)"

interpretation sr: byte_reader "spi_sram_read H" "sram_idle H S0" "sram_mem S0" for H S0
proof
  fix s :: history and len a :: u32 and buf :: "u8 list"
  assume i: "sram_idle H S0 s" and "0 < len" "unat len \<le> length buf"
    and "unat a + unat len \<le> 131072"
  then have "effect (sram_run S0) (spi_sram_read H a (Some buf) len) (sram_run S0 s)
      (0, overwrite 0 (bytes_at (mem (sram_run S0 s)) a (unat len)) buf) (sram_run S0 s)"
    by (intro effect_read) (simp_all add: sram_idle_def)
  from effectD [OF this refl] i
  show "\<exists>s'. spi_sram_read H a (Some buf) len s =
      Done (0, overwrite 0 (bytes_at (sram_mem S0 s) a (unat len)) buf) s' \<and>
    sram_idle H S0 s' \<and> sram_mem S0 s' = sram_mem S0 s"
    by (auto simp: sram_idle_def sram_mem_def)
qed

section \<open>A memory that can be read and written\<close>

locale byte_store = byte_reader rd avail memory
  for rd :: "'s read_cb" and avail :: "'s \<Rightarrow> bool" and memory :: "'s \<Rightarrow> u32 \<Rightarrow> u8" +
  fixes wr :: "u32 \<Rightarrow> u8 list option \<Rightarrow> u32 \<Rightarrow> ('s, int) cmd"
  assumes write_law:
    "avail s \<Longrightarrow> 0 < len \<Longrightarrow> unat len = length src \<Longrightarrow> unat a + unat len \<le> 131072 \<Longrightarrow>
     \<exists>s'. wr a (Some src) len s = Done 0 s' \<and> avail s' \<and> memory s' = put_bytes a src (memory s)"
begin

text \<open>What was written is read back.\<close>

lemma write_read:
  assumes "avail s" and "0 < len" "unat len = length src" "unat a + unat len \<le> 131072"
  shows "\<exists>s1 s2. wr a (Some src) len s = Done 0 s1 \<and>
    rd a (Some (replicate (length src) 0)) len s1 = Done (0, src) s2 \<and>
    avail s2 \<and> memory s2 = put_bytes a src (memory s)"
proof -
  from write_law [OF assms] obtain s1 where
    1: "wr a (Some src) len s = Done 0 s1" "avail s1" "memory s1 = put_bytes a src (memory s)" by blast
  have l: "unat len \<le> length (replicate (length src) (0 :: u8))" using assms(3) by simp
  have "bytes_at (memory s1) a (length src) = src"
    using 1(3) assms(3) unat_u32_less [of len] by (simp add: bytes_at_put_same)
  with read_law [OF 1(2) assms(2) l assms(4)] obtain s2 where
    "rd a (Some (replicate (length src) 0)) len s1 = Done (0, src) s2" "avail s2"
    "memory s2 = memory s1"
    using assms(3) by (auto simp: overwrite_0)
  with 1 show ?thesis by auto
qed

end

interpretation sw: byte_store "spi_sram_read H" "sram_idle H S0" "sram_mem S0" "spi_sram_write H"
  for H S0
proof
  fix s :: history and len a :: u32 and src :: "u8 list"
  assume i: "sram_idle H S0 s" and l: "0 < len" "unat len = length src"
    and "unat a + unat len \<le> 131072"
  then have "effect (sram_run S0) (spi_sram_write H a (Some src) len) (sram_run S0 s) 0
      ((sram_run S0 s)\<lparr>mem := put_bytes a src (mem (sram_run S0 s))\<rparr>)"
    by (intro effect_write) (simp_all add: sram_idle_def)
  from effectD [OF this refl] i
  show "\<exists>s'. spi_sram_write H a (Some src) len s = Done 0 s' \<and> sram_idle H S0 s' \<and>
      sram_mem S0 s' = put_bytes a src (sram_mem S0 s)"
    by (auto simp: sram_idle_def sram_mem_def)
qed

lemma first_difference_same: "first_difference xs xs i = 0"
  by (induction xs arbitrary: i) simp_all

lemma self_test_passes:
  assumes "sram_idle H S0 h"
  shows "\<exists>h'. spi_sram_self_test H h = Done 0 h' \<and> sram_idle H S0 h' \<and>
    sram_mem S0 h' = put_bytes 0 test_pattern (sram_mem S0 h)"
proof -
  have l: "length test_pattern = 16" by (simp add: test_pattern_def)
  from sw.write_read [OF assms, of 16 test_pattern 0] obtain s1 s2 where
    1: "spi_sram_write H 0 (Some test_pattern) 16 h = Done 0 s1" and
    2: "spi_sram_read H 0 (Some (replicate 16 0)) 16 s1 = Done (0, test_pattern) s2"
      "sram_idle H S0 s2" "sram_mem S0 s2 = put_bytes 0 test_pattern (sram_mem S0 h)"
    by (auto simp: l)
  have "spi_sram_self_test H h = Done 0 s2"
    by (simp add: spi_sram_self_test_def bindc_def [of "spi_sram_write H 0 (Some test_pattern) 16"] 1
        bindc_def [of "spi_sram_read H 0 (Some (replicate 16 0)) 16"] 2(1) give_def
        first_difference_same)
  with 2 show ?thesis by blast
qed

end
