(* ===== verification/SramImage.thy ===== *)
theory SramImage
  imports SpiSram
begin

text \<open>
  \<open>Core/Inc/sram_image_header.h\<close> and \<open>Core/Src/spi_sram_image.c\<close>: the header of a
  firmware image staged in the external RAM and the check that accepts it.
  \<open>image_spec\<close> is the contract of the check, over the contents of the RAM; the lemmas
  show that the firmware's check, with its 32-bit arithmetic and its streaming checksum,
  decides exactly that contract and never wraps around.
\<close>

record sram_image_header =
  magic :: u32
  offset :: u32
  hdr_size :: u32

definition SRAM_IMAGE_HEADER_OFFSET :: u32 where "SRAM_IMAGE_HEADER_OFFSET = 0"
definition SRAM_IMAGE_MAGIC :: u32 where "SRAM_IMAGE_MAGIC = 0x4D414253"
definition sizeof_header :: u32 where "sizeof_header = 12"

definition sram_le32 :: "u32 \<Rightarrow> u32" where
  "sram_le32 v_le = (let p = bytes32 v_le in le32 (p ! 0) (p ! 1) (p ! 2) (p ! 3))"

text \<open>The packed struct and the bytes it overlays.\<close>

definition header_of_bytes :: "u8 list \<Rightarrow> sram_image_header" where
  "header_of_bytes p =
     \<lparr>magic = le32 (p ! 0) (p ! 1) (p ! 2) (p ! 3),
      offset = le32 (p ! 4) (p ! 5) (p ! 6) (p ! 7),
      hdr_size = le32 (p ! 8) (p ! 9) (p ! 10) (p ! 11)\<rparr>"

definition bytes_of_header :: "sram_image_header \<Rightarrow> u8 list" where
  "bytes_of_header h = bytes32 (magic h) @ bytes32 (offset h) @ bytes32 (hdr_size h)"

text \<open>The checks on offset and size, in the order of the source.\<close>

definition image_bounds_ok :: "u32 \<Rightarrow> u32 \<Rightarrow> bool" where
  "image_bounds_ok img_offset img_size =
     (if img_size = 0 then False
      else if img_size AND 3 \<noteq> 0 then False
      else let header_end = SRAM_IMAGE_HEADER_OFFSET + sizeof_header;
               max_bytes = FLASH_BOOTLDR_PAYLOAD_SIZE_KB * 1024 in
        if img_offset < header_end then False
        else if img_size > max_bytes then False
        else if img_offset > header_end + max_bytes then False
        else if img_offset > 0xFFFFFFFF - img_size then False
        else if img_offset + img_size > header_end + max_bytes then False
        else True)"

definition sram_has_valid_image :: "hw \<Rightarrow> (history, bool) cmd" where
  "sram_has_valid_image H =
     bindc (spi_sram_read H SRAM_IMAGE_HEADER_OFFSET (Some (replicate (unat sizeof_header) 0))
              sizeof_header) (\<lambda>(res, bs).
       if res \<noteq> 0 then give False
       else let hdr = header_of_bytes bs;
                img_offset = sram_le32 (offset hdr);
                img_size = sram_le32 (hdr_size hdr) in
         if sram_le32 (magic hdr) \<noteq> SRAM_IMAGE_MAGIC then give False
         else if \<not> image_bounds_ok img_offset img_size then give False
         else validate_checksum_stream (Some (spi_sram_read H)) img_offset img_size)"

section \<open>The header\<close>

lemma sram_le32_id [simp]: "sram_le32 v = v"
  by (simp add: sram_le32_def bytes32_def)

lemma header_of_bytes_of_header [simp]: "header_of_bytes (bytes_of_header h) = h"
  by (simp add: header_of_bytes_def bytes_of_header_def bytes32_def)

lemma bytes_of_header_of_bytes:
  "length bs = 12 \<Longrightarrow> bytes_of_header (header_of_bytes bs) = bs"
  by (auto simp: header_of_bytes_def bytes_of_header_def numeral_eq_Suc length_Suc_conv)

section \<open>What the check decides\<close>

definition bounds_spec :: "nat \<Rightarrow> nat \<Rightarrow> bool" where
  "bounds_spec off sz \<longleftrightarrow> 0 < sz \<and> sz mod 4 = 0 \<and> 12 \<le> off \<and> sz \<le> 122880 \<and> off + sz \<le> 122892"

lemma image_bounds_spec: "image_bounds_ok off sz \<longleftrightarrow> bounds_spec (unat off) (unat sz)"
proof -
  have z: "sz = 0 \<longleftrightarrow> unat sz = 0" by (simp add: unat_eq_0)
  have lt: "unat off < 4294967296" "unat sz < 4294967296" by (rule unat_u32_less)+
  have max: "unat (0xFFFFFFFF - sz) = 4294967295 - unat sz"
    by (subst unat_diff_u32) (use lt in \<open>simp_all add: word_le_nat_alt\<close>)
  show ?thesis
  proof (cases "unat off \<le> 122892 \<and> unat sz \<le> 122880")
    case True
    then have "unat (off + sz) = unat off + unat sz"
      using unat_add_u32 [of off "unat sz"] by simp
    with True show ?thesis
      by (auto simp: image_bounds_ok_def bounds_spec_def Let_def and_3_eq z max
          SRAM_IMAGE_HEADER_OFFSET_def sizeof_header_def FLASH_BOOTLDR_PAYLOAD_SIZE_KB_def
          word_less_nat_alt)
  next
    case False
    then show ?thesis
      by (auto simp: image_bounds_ok_def bounds_spec_def Let_def and_3_eq z
          SRAM_IMAGE_HEADER_OFFSET_def sizeof_header_def FLASH_BOOTLDR_PAYLOAD_SIZE_KB_def
          word_less_nat_alt)
  qed
qed

text \<open>The contract, over the memory of the RAM.\<close>

definition staged_header :: "(u32 \<Rightarrow> u8) \<Rightarrow> sram_image_header" where
  "staged_header m = header_of_bytes (bytes_at m 0 12)"

definition image_spec :: "(u32 \<Rightarrow> u8) \<Rightarrow> bool" where
  "image_spec m \<longleftrightarrow>
     magic (staged_header m) = SRAM_IMAGE_MAGIC \<and>
     bounds_spec (unat (offset (staged_header m))) (unat (hdr_size (staged_header m))) \<and>
     xor_sum (bytes_at m (offset (staged_header m)) (unat (hdr_size (staged_header m)))) = 0"

context byte_reader
begin

lemma header_read:
  "avail s \<Longrightarrow> \<exists>s'. rd 0 (Some (replicate 12 0)) 12 s = Done (0, bytes_at (memory s) 0 12) s' \<and>
     avail s' \<and> memory s' = memory s"
  using read_law [of s 12 "replicate 12 0" 0] by (simp add: overwrite_0)

end

lemma sram_has_valid_image_spec:
  assumes "sram_idle H S0 h"
  shows "\<exists>h'. sram_has_valid_image H h = Done (image_spec (sram_mem S0 h)) h' \<and>
    sram_idle H S0 h' \<and> sram_mem S0 h' = sram_mem S0 h"
proof -
  let ?hdr = "staged_header (sram_mem S0 h)"
  from sr.header_read [OF assms] obtain h1 where
    1: "spi_sram_read H 0 (Some (replicate 12 0)) 12 h =
        Done (0, bytes_at (sram_mem S0 h) 0 12) h1"
      "sram_idle H S0 h1" "sram_mem S0 h1 = sram_mem S0 h" by blast
  define ok where "ok \<longleftrightarrow> magic ?hdr = SRAM_IMAGE_MAGIC \<and> image_bounds_ok (offset ?hdr) (hdr_size ?hdr)"
  have run: "sram_has_valid_image H h =
      (if ok then validate_checksum_stream (Some (spi_sram_read H)) (offset ?hdr) (hdr_size ?hdr) h1
       else Done False h1)"
    using 1(1) by (simp add: sram_has_valid_image_def bindc_def SRAM_IMAGE_HEADER_OFFSET_def
        sizeof_header_def staged_header_def Let_def ok_def give_def)
  show ?thesis
  proof (cases ok)
    case True
    then have b: "bounds_spec (unat (offset ?hdr)) (unat (hdr_size ?hdr))"
      by (simp add: ok_def image_bounds_spec)
    then have "unat (offset ?hdr) + unat (hdr_size ?hdr) \<le> 131072" and "hdr_size ?hdr AND 3 = 0"
      by (simp_all add: bounds_spec_def and_3_eq)
    from sr.validate_stream_correct [OF 1(2) this(1)] this(2) 1(3) True b show ?thesis
      by (auto simp: run image_spec_def ok_def)
  next
    case False
    then have "\<not> image_spec (sram_mem S0 h)" by (auto simp: ok_def image_spec_def image_bounds_spec)
    with False 1 show ?thesis by (auto simp: run)
  qed
qed

section \<open>Properties\<close>

text \<open>
  C18: The check of a staged image decides its contract: on an idle RAM chip,
  \<open>sram_has_valid_image\<close> returns true exactly when the chip's memory holds a header with
  the magic number, offset and size inside the staging area, and a payload whose checksum
  is right; it returns (no loop hangs, no access leaves a buffer) and leaves the memory
  alone.
\<close>

theorem staged_image_check:
  assumes "sram_idle H S0 h"
  shows "\<exists>h'. sram_has_valid_image H h = Done (image_spec (sram_mem S0 h)) h' \<and>
    sram_idle H S0 h' \<and> sram_mem S0 h' = sram_mem S0 h"
  using assms by (rule sram_has_valid_image_spec)

definition sram0 :: sram where
  "sram0 = \<lparr>sel = False, got = [], mem = (\<lambda>_. 0)\<rparr>"

lemma sram0_idle: "sram_idle (sram_sim sram0) sram0 []"
  by (simp add: sram_idle_def sram_sim_conforms) (simp add: sram0_def)

lemma staged_image_check_witness:
  "\<exists>h'. sram_has_valid_image (sram_sim sram0) [] = Done (image_spec (sram_mem sram0 [])) h' \<and>
    sram_idle (sram_sim sram0) sram0 h' \<and> sram_mem sram0 h' = sram_mem sram0 []"
  by (rule staged_image_check [OF sram0_idle])

text \<open>
  C36: The 32-bit bounds checks on a staged image never wrap around: they accept exactly
  the offsets and sizes that satisfy the checks on natural numbers.
\<close>

theorem staged_bounds_exact:
  "image_bounds_ok off sz \<longleftrightarrow> bounds_spec (unat off) (unat sz)"
  by (rule image_bounds_spec)

text \<open>The header of a staged image survives being written as bytes and overlaid again.\<close>

theorem header_roundtrip:
  "header_of_bytes (bytes_of_header h) = h"
  by (rule header_of_bytes_of_header)

end
