(* ===== verification/Watchdog.thy ===== *)
theory Watchdog
  imports Board
begin

text \<open>
  \<open>Core/Inc/watchdog.h\<close>: the independent watchdog, register access by register access.
\<close>

definition RCC_CSR :: u32 where [reg_defs]: "RCC_CSR = 0x40021024"
definition IWDG_KR :: u32 where [reg_defs]: "IWDG_KR = 0x40003000"
definition IWDG_PR :: u32 where [reg_defs]: "IWDG_PR = 0x40003004"
definition IWDG_RLR :: u32 where [reg_defs]: "IWDG_RLR = 0x40003008"
definition IWDG_SR :: u32 where [reg_defs]: "IWDG_SR = 0x4000300C"
definition IWDG_PVU :: u32 where [reg_defs]: "IWDG_PVU = 1"
definition IWDG_RVU :: u32 where [reg_defs]: "IWDG_RVU = 2"
definition IWDG_RSTF :: u32 where [reg_defs]: "IWDG_RSTF = 0x20000000"
definition LSI_RDY :: u32 where [reg_defs]: "LSI_RDY = 2"
definition LSI_ON :: u32 where [reg_defs]: "LSI_ON = 1"

definition enable_iwdg :: "hw \<Rightarrow> u16 \<Rightarrow> (history, unit) cmd" where
  "enable_iwdg H rldval = block
     [or32 H RCC_CSR LSI_ON,
      spin_while H RCC_CSR (\<lambda>v. v AND LSI_RDY \<noteq> 0),
      spin_while H IWDG_SR (\<lambda>v. v AND IWDG_PVU \<noteq> 0),
      store32 H IWDG_KR 0x5555,
      store32 H IWDG_PR 7,
      spin_while H IWDG_SR (\<lambda>v. v AND IWDG_RVU \<noteq> 0),
      store32 H IWDG_KR 0x5555,
      store32 H IWDG_RLR (ucast rldval),
      store32 H IWDG_KR 0xcccc]"

definition reset_due_to_watchdog :: "hw \<Rightarrow> (history, bool) cmd" where
  "reset_due_to_watchdog H = bindc (load32 H RCC_CSR) (\<lambda>v. give (v AND IWDG_RSTF \<noteq> 0))"

text \<open>The reload value of \<open>enable_iwdg(4096 * ENABLE_WATCHDOG / 26)\<close>, an int cut to 16 bits\<close>

definition watchdog_reload :: "nat \<Rightarrow> u16" where
  "watchdog_reload seconds = of_nat (4096 * seconds div 26)"

context write_policy
begin

lemma safe_enable_iwdg: "keeps (list_all ok) (enable_iwdg H r)"
  unfolding enable_iwdg_def
  by (rule keeps_block) (auto intro: safe_or32 safe_spin_while safe_reg simp: reg_defs)

lemma safe_reset_due_to_watchdog: "keeps (list_all ok) (reset_due_to_watchdog H)"
  unfolding reset_due_to_watchdog_def by (intro keeps_bindc safe_load keeps_give)

end

end
