(* ===== verification/UsbTypes.thy ===== *)
theory UsbTypes
  imports Board
begin

text \<open>
  The enumerations and packed structures of \<open>Core/Inc/usb.h\<close> that the DFU class code
  and the control endpoint share: DFU requests, status codes and states with their
  numbers, the return codes of request handlers, and the setup packet with its byte
  layout.
\<close>

section \<open>DFU enumerations\<close>

datatype dfu_req =
    DFU_DETACH | DFU_DNLOAD | DFU_UPLOAD | DFU_GETSTATUS | DFU_CLRSTATUS | DFU_GETSTATE | DFU_ABORT

definition dfu_req_of :: "u8 \<Rightarrow> dfu_req option" where
  "dfu_req_of n =
     (if n = 0 then Some DFU_DETACH else if n = 1 then Some DFU_DNLOAD
      else if n = 2 then Some DFU_UPLOAD else if n = 3 then Some DFU_GETSTATUS
      else if n = 4 then Some DFU_CLRSTATUS else if n = 5 then Some DFU_GETSTATE
      else if n = 6 then Some DFU_ABORT else None)"

datatype dfu_status =
    DFU_STATUS_OK | DFU_STATUS_ERR_TARGET | DFU_STATUS_ERR_FILE | DFU_STATUS_ERR_WRITE
  | DFU_STATUS_ERR_ERASE | DFU_STATUS_ERR_CHECK_ERASED | DFU_STATUS_ERR_PROG | DFU_STATUS_ERR_VERIFY
  | DFU_STATUS_ERR_ADDRESS | DFU_STATUS_ERR_NOTDONE | DFU_STATUS_ERR_FIRMWARE | DFU_STATUS_ERR_VENDOR
  | DFU_STATUS_ERR_USBR | DFU_STATUS_ERR_POR | DFU_STATUS_ERR_UNKNOWN | DFU_STATUS_ERR_STALLEDPKT

primrec dfu_status_code :: "dfu_status \<Rightarrow> nat" where
  "dfu_status_code DFU_STATUS_OK = 0"
| "dfu_status_code DFU_STATUS_ERR_TARGET = 1"
| "dfu_status_code DFU_STATUS_ERR_FILE = 2"
| "dfu_status_code DFU_STATUS_ERR_WRITE = 3"
| "dfu_status_code DFU_STATUS_ERR_ERASE = 4"
| "dfu_status_code DFU_STATUS_ERR_CHECK_ERASED = 5"
| "dfu_status_code DFU_STATUS_ERR_PROG = 6"
| "dfu_status_code DFU_STATUS_ERR_VERIFY = 7"
| "dfu_status_code DFU_STATUS_ERR_ADDRESS = 8"
| "dfu_status_code DFU_STATUS_ERR_NOTDONE = 9"
| "dfu_status_code DFU_STATUS_ERR_FIRMWARE = 10"
| "dfu_status_code DFU_STATUS_ERR_VENDOR = 11"
| "dfu_status_code DFU_STATUS_ERR_USBR = 12"
| "dfu_status_code DFU_STATUS_ERR_POR = 13"
| "dfu_status_code DFU_STATUS_ERR_UNKNOWN = 14"
| "dfu_status_code DFU_STATUS_ERR_STALLEDPKT = 15"

definition status_byte :: "dfu_status \<Rightarrow> u8" where
  "status_byte s = of_nat (dfu_status_code s)"

lemma status_byte_eq: "status_byte s = status_byte t \<longleftrightarrow> s = t"
  by (cases s; cases t) (simp_all add: status_byte_def)

datatype dfu_state =
    STATE_APP_IDLE | STATE_APP_DETACH | STATE_DFU_IDLE | STATE_DFU_DNLOAD_SYNC | STATE_DFU_DNBUSY
  | STATE_DFU_DNLOAD_IDLE | STATE_DFU_MANIFEST_SYNC | STATE_DFU_MANIFEST
  | STATE_DFU_MANIFEST_WAIT_RESET | STATE_DFU_UPLOAD_IDLE | STATE_DFU_ERROR

primrec dfu_state_code :: "dfu_state \<Rightarrow> nat" where
  "dfu_state_code STATE_APP_IDLE = 0"
| "dfu_state_code STATE_APP_DETACH = 1"
| "dfu_state_code STATE_DFU_IDLE = 2"
| "dfu_state_code STATE_DFU_DNLOAD_SYNC = 3"
| "dfu_state_code STATE_DFU_DNBUSY = 4"
| "dfu_state_code STATE_DFU_DNLOAD_IDLE = 5"
| "dfu_state_code STATE_DFU_MANIFEST_SYNC = 6"
| "dfu_state_code STATE_DFU_MANIFEST = 7"
| "dfu_state_code STATE_DFU_MANIFEST_WAIT_RESET = 8"
| "dfu_state_code STATE_DFU_UPLOAD_IDLE = 9"
| "dfu_state_code STATE_DFU_ERROR = 10"

text \<open>The byte the host gets, and the enumeration order of the source.\<close>

definition state_byte :: "dfu_state \<Rightarrow> u8" where
  "state_byte s = of_nat (dfu_state_code s)"

lemma dfu_state_code_eq: "dfu_state_code s = dfu_state_code t \<longleftrightarrow> s = t"
  by (cases s; cases t) simp_all

lemma dfu_state_code_le: "dfu_state_code s \<le> 10"
  by (cases s) simp_all

instantiation dfu_state :: linorder
begin

definition less_eq_dfu_state :: "dfu_state \<Rightarrow> dfu_state \<Rightarrow> bool" where
  "less_eq_dfu_state s t \<longleftrightarrow> dfu_state_code s \<le> dfu_state_code t"

definition less_dfu_state :: "dfu_state \<Rightarrow> dfu_state \<Rightarrow> bool" where
  "less_dfu_state s t \<longleftrightarrow> dfu_state_code s < dfu_state_code t"

instance
  by standard (auto simp: less_eq_dfu_state_def less_dfu_state_def dfu_state_code_eq)

end

lemma state_byte_eq: "state_byte s = state_byte t \<longleftrightarrow> s = t"
  by (cases s; cases t) (simp_all add: state_byte_def)

datatype usbd_request_return_codes =
  USBD_REQ_NOTSUPP | USBD_REQ_HANDLED | USBD_REQ_NEXT_CALLBACK

section \<open>The numbers of a setup packet\<close>

text \<open>The fields of \<open>bmRequestType\<close>\<close>

abbreviation (input) USB_REQ_TYPE_DIRECTION :: u8 where "USB_REQ_TYPE_DIRECTION \<equiv> 0x80"
abbreviation (input) USB_REQ_TYPE_IN :: u8 where "USB_REQ_TYPE_IN \<equiv> 0x80"
abbreviation (input) USB_REQ_TYPE_TYPE :: u8 where "USB_REQ_TYPE_TYPE \<equiv> 0x60"
abbreviation (input) USB_REQ_TYPE_STANDARD :: u8 where "USB_REQ_TYPE_STANDARD \<equiv> 0x00"
abbreviation (input) USB_REQ_TYPE_CLASS :: u8 where "USB_REQ_TYPE_CLASS \<equiv> 0x20"
abbreviation (input) USB_REQ_TYPE_VENDOR :: u8 where "USB_REQ_TYPE_VENDOR \<equiv> 0x40"
abbreviation (input) USB_REQ_TYPE_RECIPIENT :: u8 where "USB_REQ_TYPE_RECIPIENT \<equiv> 0x1F"
abbreviation (input) USB_REQ_TYPE_DEVICE :: u8 where "USB_REQ_TYPE_DEVICE \<equiv> 0x00"
abbreviation (input) USB_REQ_TYPE_INTERFACE :: u8 where "USB_REQ_TYPE_INTERFACE \<equiv> 0x01"
abbreviation (input) USB_REQ_TYPE_ENDPOINT :: u8 where "USB_REQ_TYPE_ENDPOINT \<equiv> 0x02"

text \<open>Standard request codes and the feature selector of endpoints\<close>

abbreviation (input) USB_REQ_GET_STATUS :: u8 where "USB_REQ_GET_STATUS \<equiv> 0"
abbreviation (input) USB_REQ_CLEAR_FEATURE :: u8 where "USB_REQ_CLEAR_FEATURE \<equiv> 1"
abbreviation (input) USB_REQ_SET_FEATURE :: u8 where "USB_REQ_SET_FEATURE \<equiv> 3"
abbreviation (input) USB_REQ_SET_ADDRESS :: u8 where "USB_REQ_SET_ADDRESS \<equiv> 5"
abbreviation (input) USB_REQ_GET_DESCRIPTOR :: u8 where "USB_REQ_GET_DESCRIPTOR \<equiv> 6"
abbreviation (input) USB_REQ_GET_CONFIGURATION :: u8 where "USB_REQ_GET_CONFIGURATION \<equiv> 8"
abbreviation (input) USB_REQ_SET_CONFIGURATION :: u8 where "USB_REQ_SET_CONFIGURATION \<equiv> 9"
abbreviation (input) USB_REQ_GET_INTERFACE :: u8 where "USB_REQ_GET_INTERFACE \<equiv> 10"
abbreviation (input) USB_REQ_SET_INTERFACE :: u8 where "USB_REQ_SET_INTERFACE \<equiv> 11"
abbreviation (input) USB_FEAT_ENDPOINT_HALT :: u16 where "USB_FEAT_ENDPOINT_HALT \<equiv> 0"

text \<open>Transfer types of an endpoint\<close>

abbreviation (input) USB_ENDPOINT_ATTR_CONTROL :: u8 where "USB_ENDPOINT_ATTR_CONTROL \<equiv> 0"
abbreviation (input) USB_ENDPOINT_ATTR_ISOCHRONOUS :: u8 where "USB_ENDPOINT_ATTR_ISOCHRONOUS \<equiv> 1"
abbreviation (input) USB_ENDPOINT_ATTR_BULK :: u8 where "USB_ENDPOINT_ATTR_BULK \<equiv> 2"
abbreviation (input) USB_ENDPOINT_ATTR_INTERRUPT :: u8 where "USB_ENDPOINT_ATTR_INTERRUPT \<equiv> 3"

section \<open>The setup packet\<close>

record usb_setup_data =
  bmRequestType :: u8
  bRequest :: u8
  wValue :: u16
  wIndex :: u16
  wLength :: u16

definition sizeof_setup :: u16 where "sizeof_setup = 8"

definition setup_of_bytes :: "u8 list \<Rightarrow> usb_setup_data" where
  "setup_of_bytes p =
     \<lparr>bmRequestType = p ! 0, bRequest = p ! 1, wValue = le16 (p ! 2) (p ! 3),
      wIndex = le16 (p ! 4) (p ! 5), wLength = le16 (p ! 6) (p ! 7)\<rparr>"

definition bytes_of_setup :: "usb_setup_data \<Rightarrow> u8 list" where
  "bytes_of_setup r =
     [bmRequestType r, bRequest r] @ bytes16 (wValue r) @ bytes16 (wIndex r) @ bytes16 (wLength r)"

lemma setup_of_bytes_of_setup [simp]: "setup_of_bytes (bytes_of_setup r) = r"
  by (simp add: setup_of_bytes_def bytes_of_setup_def bytes16_def)

lemma bytes16_le16 [simp]: "bytes16 (le16 a b) = [a, b]"
  by (simp add: bytes16_def)

lemma bytes_of_setup_of_bytes: "length p = 8 \<Longrightarrow> bytes_of_setup (setup_of_bytes p) = p"
  by (auto simp: setup_of_bytes_def bytes_of_setup_def numeral_eq_Suc length_Suc_conv)

lemma length_bytes_of_setup [simp]: "length (bytes_of_setup r) = 8"
  by (simp add: bytes_of_setup_def)

end
