(* ===== verification/FlashDriver.thy ===== *)
theory FlashDriver
  imports FlashHw
begin

text \<open>
  The flash driver as a contract. \<open>ready\<close> holds between operations of an unlocked
  controller, \<open>content\<close> is the flash array; the laws say what scanning, erasing and
  programming do to it. A client that erases a page unless it is blank and then programs
  it ends with exactly the programmed data and blank cells after it: \<open>rewrite\<close>.
\<close>

definition ready :: "fpec \<Rightarrow> bool" where
  "ready F \<longleftrightarrow> \<not> locked F \<and> \<not> key1 F \<and> cr F = 0"

definition blank_page :: "u32 \<Rightarrow> (u32 \<Rightarrow> u16) \<Rightarrow> bool" where
  "blank_page p f \<longleftrightarrow> list_all (\<lambda>i. f (p + 2 * of_nat i) = 0xFFFF) [0..<512]"

definition put_halves :: "u32 \<Rightarrow> u8 list \<Rightarrow> nat \<Rightarrow> (u32 \<Rightarrow> u16) \<Rightarrow> u32 \<Rightarrow> u16" where
  "put_halves base data n f a =
     (let d = unat (a - base) in
      if even d \<and> d div 2 < n then half_at data (d div 2) else f a)"

section \<open>Lock and unlock\<close>

lemma cr_bits [simp]:
  "FLASH_CR_LOCK \<noteq> 0" "FLASH_CR \<noteq> FLASH_KEYR" "FLASH_KEYR \<noteq> FLASH_CR"
  "FLASH_AR \<noteq> FLASH_KEYR" "FLASH_AR \<noteq> FLASH_CR"
  by (simp_all add: reg_defs)

lemma effect_unlock:
  assumes H: "fpec_hw H F0" and F: "cr F = 0" "\<not> key1 F"
  shows "effect (fpec_run F0) (flash_unlock H) F () (F\<lparr>locked := False\<rparr>)"
  unfolding flash_unlock_def
proof (rule effect_bindc [OF effect_load_cr [OF H]])
  let ?keys = "block [store32 H FLASH_KEYR 0x45670123, store32 H FLASH_KEYR 0xcdef89ab]"
  have "effect (fpec_run F0) ?keys F () (fpec_reg FLASH_KEYR 0xcdef89ab (fpec_reg FLASH_KEYR 0x45670123 F))"
    by (rule H effect_block_Cons effect_block_Nil effect_regs | simp)+
  moreover have "fpec_reg FLASH_KEYR 0xcdef89ab (fpec_reg FLASH_KEYR 0x45670123 F) =
      F\<lparr>locked := False\<rparr>" if "locked F"
    using that F by (simp add: fpec_reg_def)
  moreover have "effect (fpec_run F0) skip F () (F\<lparr>locked := False\<rparr>)" if "\<not> locked F"
  proof -
    from that have "F\<lparr>locked := False\<rparr> = F" by (cases F) simp
    then show ?thesis by (simp only: effect_give)
  qed
  ultimately show "effect (fpec_run F0) (if cr_value F AND FLASH_CR_LOCK \<noteq> 0 then ?keys else skip) F ()
      (F\<lparr>locked := False\<rparr>)"
    using F by (cases "locked F") (simp_all add: cr_value_def)
qed

lemma effect_lock:
  assumes H: "fpec_hw H F0" and F: "ready F"
  shows "effect (fpec_run F0) (flash_lock H) F () (F\<lparr>locked := True\<rparr>)"
proof -
  let ?F1 = "fpec_reg FLASH_CR (cr_value F AND NOT FLASH_CR_OPTWRE) F"
  let ?F2 = "fpec_reg FLASH_CR (cr_value ?F1 OR FLASH_CR_LOCK) ?F1"
  have "effect (fpec_run F0) (flash_lock H) F () ?F2"
    unfolding flash_lock_def
    by (rule H effect_block_Cons effect_block_Nil effect_regs | simp)+
  moreover have "?F2 = F\<lparr>locked := True\<rparr>"
    using F by (cases F) (simp add: ready_def fpec_reg_def cr_value_def reg_defs)
  ultimately show ?thesis by simp
qed

section \<open>Erasing a page\<close>

lemma effect_erase:
  assumes H: "fpec_hw H F0" and F: "ready F"
  shows "effect (fpec_run F0) (flash_erase_page H p) F () (F\<lparr>ar := p, cells := erase_cells p (cells F)\<rparr>)"
proof -
  let ?F1 = "fpec_reg FLASH_CR (cr_value F OR FLASH_CR_PER) F"
  let ?F2 = "fpec_reg FLASH_AR p ?F1"
  let ?F3 = "fpec_reg FLASH_CR (cr_value ?F2 OR FLASH_CR_STRT) ?F2"
  let ?F4 = "fpec_reg FLASH_CR (cr_value ?F3 AND NOT FLASH_CR_PER) ?F3"
  have "effect (fpec_run F0) (flash_erase_page H p) F () ?F4"
    unfolding flash_erase_page_def
    by (rule H effect_block_Cons effect_block_Nil effect_regs | simp)+
  moreover have "?F4 = F\<lparr>ar := p, cells := erase_cells p (cells F)\<rparr>"
    using F by (cases F) (simp add: ready_def fpec_reg_def cr_value_def reg_defs)
  ultimately show ?thesis by simp
qed

section \<open>Scanning a page\<close>

lemma cell_word_blank: "cell_word f a = 0xffffffff \<longleftrightarrow> f a = 0xFFFF \<and> f (a + 2) = 0xFFFF"
proof
  assume w: "cell_word f a = 0xffffffff"
  have "take_bit 16 (cell_word f a) = ucast (f a)"
    by (rule bit_word_eqI)
      (auto simp: cell_word_def bit_take_bit_iff bit_or_iff bit_push_bit_iff bit_ucast_iff
        dest: bit_imp_le_length)
  with w have "ucast (f a) = (0xFFFF :: u32)" by simp
  then have "ucast (ucast (f a) :: u32) = (0xFFFF :: u16)" by simp
  then have lo: "f a = 0xFFFF" by (simp only: ucast_up_down)
  have "drop_bit 16 (cell_word f a) = ucast (f (a + 2))"
    by (rule bit_word_eqI)
      (auto simp: cell_word_def bit_drop_bit_eq bit_or_iff bit_push_bit_iff bit_ucast_iff
        dest: bit_imp_le_length)
  with w have "ucast (f (a + 2)) = (0xFFFF :: u32)" by simp
  then have "ucast (ucast (f (a + 2)) :: u32) = (0xFFFF :: u16)" by simp
  then have "f (a + 2) = 0xFFFF" by (simp only: ucast_up_down)
  with lo show "f a = 0xFFFF \<and> f (a + 2) = 0xFFFF" by simp
qed (simp add: cell_word_def)

lemma effect_scan:
  assumes H: "fpec_hw H F0"
    and a: "\<forall>i < n. in_flash (p + 4 * of_nat i) \<and> unat (p + 4 * of_nat i) mod 4 = 0"
  shows "effect (fpec_run F0) (flash_scan H p n) F
     (\<forall>i < n. cell_word (cells F) (p + 4 * of_nat i) = 0xffffffff) F"
  using a
proof (induction n arbitrary: p)
  case 0
  then show ?case by (simp add: effect_give)
next
  case (Suc n)
  let ?w = "\<lambda>q. cell_word (cells F) q = 0xffffffff"
  have sh: "p + 4 * of_nat (Suc i) = (p + 4) + 4 * of_nat i" for i
    by (simp add: algebra_simps)
  have "\<forall>i < n. in_flash ((p + 4) + 4 * of_nat i) \<and> unat ((p + 4) + 4 * of_nat i) mod 4 = 0"
    using Suc.prems unfolding sh [symmetric] by blast
  then have IH: "effect (fpec_run F0) (flash_scan H (p + 4) n) F (\<forall>i < n. ?w ((p + 4) + 4 * of_nat i)) F"
    by (rule Suc.IH)
  have all: "(\<forall>i < Suc n. ?w (p + 4 * of_nat i)) \<longleftrightarrow> ?w p \<and> (\<forall>i < n. ?w ((p + 4) + 4 * of_nat i))"
    unfolding All_less_Suc2 sh by simp
  have "effect (fpec_run F0) (load32 H p) F (cell_word (cells F) p) F"
    using Suc.prems [rule_format, of 0] by (intro effect_load_cell H) simp_all
  then show ?case
    unfolding flash_scan.simps all
    by (rule effect_bindc) (use IH in \<open>auto simp: effect_give\<close>)
qed

text \<open>Addresses of a page: offsets below 1024 do not leave the page, the flash or 32 bits.\<close>

lemma page_offset:
  assumes "page_base p" and "k < 1024"
  shows "unat (p + of_nat k) = unat p + k" and "in_flash (p + of_nat k)"
    and "in_page p (p + of_nat k)"
proof -
  obtain q where q: "unat p = 1024 * q" "131072 \<le> q" "q < 131200"
  proof
    show "unat p = 1024 * (unat p div 1024)"
      using assms(1) by (simp add: page_base_def flip: dvd_eq_mod_eq_0)
    show "131072 \<le> unat p div 1024" "unat p div 1024 < 131200"
      using assms(1)
      by (auto simp: page_base_def in_flash_def word_le_nat_alt word_less_nat_alt)
  qed
  show u: "unat (p + of_nat k) = unat p + k" using q assms(2) by (intro unat_add_u32) simp
  show "in_flash (p + of_nat k)"
    using q assms(2) u unfolding in_flash_def word_le_nat_alt word_less_nat_alt by simp
  show "in_page p (p + of_nat k)"
    using q assms(2) u unfolding in_page_def by simp
qed

lemma effect_is_erased:
  assumes H: "fpec_hw H F0" and p: "page_base p"
  shows "effect (fpec_run F0) (flash_page_is_erased H p) F (blank_page p (cells F)) F"
proof -
  have m: "4 * of_nat i = (of_nat (4 * i) :: u32)" "2 * of_nat i = (of_nat (2 * i) :: u32)" for i
    by simp_all
  have al: "unat p mod 4 = 0"
    using p mod_mod_cancel [of 4 1024 "unat p"] by (simp add: page_base_def)
  have "\<forall>i < 256. in_flash (p + 4 * of_nat i) \<and> unat (p + 4 * of_nat i) mod 4 = 0"
  proof (intro allI impI)
    fix i :: nat assume "i < 256"
    then have "4 * i < 1024" by simp
    note page_offset [OF p this]
    then show "in_flash (p + 4 * of_nat i) \<and> unat (p + 4 * of_nat i) mod 4 = 0"
      unfolding m using al by simp
  qed
  from effect_scan [OF H this, of F]
  have "effect (fpec_run F0) (flash_page_is_erased H p) F
     (\<forall>i < 256. cell_word (cells F) (p + 4 * of_nat i) = 0xffffffff) F"
    by (simp add: flash_page_is_erased_def)
  moreover have "(\<forall>i < 256. cell_word (cells F) (p + 4 * of_nat i) = 0xffffffff) \<longleftrightarrow>
      blank_page p (cells F)"
  proof -
    have "(\<forall>i < 512. P i) \<longleftrightarrow> (\<forall>i < 256. P (2 * i) \<and> P (2 * i + 1))" for P :: "nat \<Rightarrow> bool"
    proof
      assume r: "\<forall>i < 256. P (2 * i) \<and> P (2 * i + 1)"
      show "\<forall>i < 512. P i"
      proof (intro allI impI)
        fix i :: nat assume "i < 512"
        with r [rule_format, of "i div 2"] show "P i"
          by (cases "even i") (auto elim!: evenE oddE)
      qed
    qed simp
    note halves = this [of "\<lambda>i. cells F (p + 2 * of_nat i) = 0xFFFF"]
    show ?thesis
      unfolding blank_page_def list_all_iff cell_word_blank
      using halves by (simp add: algebra_simps Ball_def)
  qed
  ultimately show ?thesis by simp
qed

lemma in_page_even:
  assumes "page_base p" and "in_page p a" and "even (unat a)"
  shows "\<exists>i < 512. a = p + 2 * of_nat i"
proof -
  from assms obtain q where p: "unat p = 1024 * q" and q: "unat a div 1024 = q"
    by (auto simp: page_base_def in_page_def elim!: dvdE simp flip: dvd_eq_mod_eq_0)
  define k where "k = unat a mod 1024"
  have a: "unat a = 1024 * q + k" "k < 1024"
    using q mult_div_mod_eq [of 1024 "unat a"] by (simp_all add: k_def)
  have "even k" using assms(3) by (simp add: k_def dvd_mod_iff)
  then obtain i where i: "k = 2 * i" by blast
  have "unat a = unat (p + of_nat k)" using a p page_offset(1) [OF assms(1)] by simp
  then have "a = p + of_nat k" by (simp only: word_unat_eq_iff)
  with i a(2) show ?thesis by (intro exI [of _ i]) simp
qed

lemma erase_blank: "page_base p \<Longrightarrow> blank_page p f \<Longrightarrow> erase_cells p f = f"
  using in_page_even by (fastforce simp: erase_cells_def blank_page_def list_all_iff)

section \<open>Programming\<close>

lemma put_halves_0 [simp]: "put_halves base data 0 f = f"
  by (rule ext) (simp add: put_halves_def)

lemma put_halves_at:
  "2 * i < 4294967296 \<Longrightarrow>
   put_halves base data n f (base + 2 * of_nat i) =
     (if i < n then half_at data i else f (base + 2 * of_nat i))"
proof -
  assume "2 * i < 4294967296"
  then have "unat (of_nat (2 * i) :: u32) = 2 * i" by (rule unat_word_of_nat_u32)
  then have "unat (2 * of_nat i :: u32) = 2 * i" by simp
  then show ?thesis by (simp add: put_halves_def)
qed

lemma put_halves_Suc:
  assumes "2 * n < 4294967296"
  shows "put_halves base data (Suc n) f =
    (put_halves base data n f)(base + 2 * of_nat n := half_at data n)"
proof
  fix a
  have "unat (of_nat (2 * n) :: u32) = 2 * n" using assms by (rule unat_word_of_nat_u32)
  then have u: "unat (2 * of_nat n :: u32) = 2 * n" by simp
  show "put_halves base data (Suc n) f a =
      ((put_halves base data n f)(base + 2 * of_nat n := half_at data n)) a"
  proof (cases "a = base + 2 * of_nat n")
    case True
    then show ?thesis using put_halves_at [OF assms] by simp
  next
    case False
    have "unat (a - base) \<noteq> 2 * n"
    proof
      assume "unat (a - base) = 2 * n"
      with u have "a - base = 2 * of_nat n" by (simp only: word_unat_eq_iff)
      with False show False by (simp add: algebra_simps)
    qed
    then have "even (unat (a - base)) \<Longrightarrow> unat (a - base) div 2 \<noteq> n" by auto
    with False show ?thesis by (auto simp: put_halves_def Let_def less_Suc_eq)
  qed
qed

lemma effect_program:
  assumes H: "fpec_hw H F0" and F: "ready F" and len: "len \<le> length data" "len < 4294967296"
    and tgt: "\<forall>i < len div 2. in_flash (base + 2 * of_nat i) \<and>
      even (unat (base + 2 * of_nat i)) \<and> cells F (base + 2 * of_nat i) = 0xFFFF"
  shows "effect (fpec_run F0) (flash_program_buffer H base data len) F ()
     (F\<lparr>cells := put_halves base data (len div 2) (cells F)\<rparr>)"
proof -
  let ?G = "\<lambda>i. F\<lparr>cr := FLASH_CR_PG, cells := put_halves base data i (cells F)\<rparr>"
  let ?body = "\<lambda>i. if 2 * i + 1 < length data
        then block [store16 H (base + 2 * of_nat i) (half_at data i),
                    flash_wait_for_last_operation H]
        else halt OutOfBounds"
  have pg: "fpec_reg FLASH_CR (cr_value F OR FLASH_CR_PG) F = ?G 0"
    using F by (cases F) (simp add: ready_def fpec_reg_def cr_value_def reg_defs)
  have unpg: "fpec_reg FLASH_CR (cr_value (?G (len div 2)) AND NOT FLASH_CR_PG) (?G (len div 2)) =
      F\<lparr>cells := put_halves base data (len div 2) (cells F)\<rparr>"
    using F by (cases F) (simp add: ready_def fpec_reg_def cr_value_def reg_defs)
  have body: "effect (fpec_run F0) (?body i) (?G i) () (?G (Suc i))" if "i < len div 2" for i
  proof -
    let ?a = "base + 2 * of_nat i"
    have i: "2 * i < 4294967296" "2 * i + 1 < length data" using that len by simp_all
    have "fpec_write ?a (half_at data i) (?G i) = ?G (Suc i)"
      using tgt that F put_halves_at [OF i(1), of base data i]
      by (simp add: fpec_write_def ready_def put_halves_Suc [OF i(1)] reg_defs)
    moreover have "effect (fpec_run F0) (block [store16 H ?a (half_at data i),
        flash_wait_for_last_operation H]) (?G i) () (fpec_write ?a (half_at data i) (?G i))"
      by (rule H effect_block_Cons effect_block_Nil effect_wait effect_store_half | simp add: tgt that)+
    ultimately show ?thesis using i by simp
  qed
  have "effect (fpec_run F0) (forc (len div 2) ?body) (?G 0) () (?G (len div 2))"
    by (rule effect_forc) (rule body)
  then have "effect (fpec_run F0) (flash_program_buffer H base data len) F ()
     (fpec_reg FLASH_CR (cr_value (?G (len div 2)) AND NOT FLASH_CR_PG) (?G (len div 2)))"
    unfolding flash_program_buffer_def pg [symmetric]
    by (rule_tac H effect_block_Cons effect_block_Nil effect_wait effect_or32_cr effect_and32_cr | assumption)+
  then show ?thesis by (simp only: unpg)
qed

section \<open>Erasing consecutive pages\<close>

text \<open>\<open>n\<close> pages from the page base \<open>lo\<close> on are blank, the rest is unchanged.\<close>

definition erase_span :: "u32 \<Rightarrow> nat \<Rightarrow> (u32 \<Rightarrow> u16) \<Rightarrow> u32 \<Rightarrow> u16" where
  "erase_span lo n f a =
     (if even (unat a) \<and> unat lo \<le> unat a \<and> unat a < unat lo + 1024 * n then 0xFFFF else f a)"

lemma erase_span_0 [simp]: "erase_span lo 0 f = f"
  by (rule ext) (auto simp: erase_span_def)

lemma in_page_base:
  assumes "page_base p"
  shows "in_page p a \<longleftrightarrow> unat p \<le> unat a \<and> unat a < unat p + 1024"
proof -
  obtain q where q: "unat p = 1024 * q"
    using assms by (auto simp: page_base_def simp flip: dvd_eq_mod_eq_0)
  have "unat a div 1024 = q \<longleftrightarrow> 1024 * q \<le> unat a \<and> unat a < 1024 * q + 1024"
    using div_nat_eqI [of 1024 q "unat a"] dividend_less_times_div [of 1024 "unat a"]
      times_div_less_eq_dividend [of 1024 "unat a"] by auto
  then show ?thesis by (simp add: in_page_def q)
qed

lemma page_step:
  assumes "page_base p"
  shows "unat (p + 1024) = unat p + 1024"
proof -
  have "unat p < 134348800"
    using assms by (simp add: page_base_def in_flash_def word_less_nat_alt)
  then show ?thesis using unat_add_u32 [of p 1024] by simp
qed

lemma erase_span_Suc:
  assumes "page_base p"
  shows "erase_span (p + 1024) n (erase_cells p f) = erase_span p (Suc n) f"
  by (rule ext) (auto simp: erase_span_def erase_cells_def in_page_base [OF assms] page_step [OF assms])

section \<open>The contract of the driver\<close>

locale flash_driver =
  fixes usable :: "hw \<Rightarrow> 'f \<Rightarrow> history \<Rightarrow> bool"
    and content :: "'f \<Rightarrow> history \<Rightarrow> u32 \<Rightarrow> u16"
    and is_erased :: "hw \<Rightarrow> u32 \<Rightarrow> (history, bool) cmd"
    and erase :: "hw \<Rightarrow> u32 \<Rightarrow> (history, unit) cmd"
    and program :: "hw \<Rightarrow> u32 \<Rightarrow> u8 list \<Rightarrow> nat \<Rightarrow> (history, unit) cmd"
  assumes is_erased_law:
      "usable H F h \<Longrightarrow> page_base p \<Longrightarrow>
       \<exists>h'. is_erased H p h = Done (blank_page p (content F h)) h' \<and>
         usable H F h' \<and> content F h' = content F h"
    and erase_law:
      "usable H F h \<Longrightarrow>
       \<exists>h'. erase H p h = Done () h' \<and>
         usable H F h' \<and> content F h' = erase_cells p (content F h)"
    and program_law:
      "usable H F h \<Longrightarrow> len \<le> length data \<Longrightarrow> len < 4294967296 \<Longrightarrow>
       (\<forall>i < len div 2. in_flash (base + 2 * of_nat i) \<and>
          even (unat (base + 2 * of_nat i)) \<and> content F h (base + 2 * of_nat i) = 0xFFFF) \<Longrightarrow>
       \<exists>h'. program H base data len h = Done () h' \<and>
         usable H F h' \<and> content F h' = put_halves base data (len div 2) (content F h)"
begin

lemma erase_unless_blank:
  assumes "usable H F h" and "page_base p"
  shows "\<exists>h'. bindc (is_erased H p) (\<lambda>e. if \<not> e then erase H p else skip) h = Done () h' \<and>
    usable H F h' \<and> content F h' = erase_cells p (content F h)"
proof -
  from is_erased_law [OF assms] obtain h1 where
    1: "is_erased H p h = Done (blank_page p (content F h)) h1" "usable H F h1"
      "content F h1 = content F h" by blast
  show ?thesis
  proof (cases "blank_page p (content F h)")
    case True
    with 1 assms(2) show ?thesis
      by (intro exI [of _ h1]) (simp add: bindc_def give_def erase_blank)
  next
    case False
    from erase_law [OF 1(2), of p] obtain h2 where
      "erase H p h1 = Done () h2" "usable H F h2" "content F h2 = erase_cells p (content F h1)"
      by blast
    with 1 False show ?thesis by (intro exI [of _ h2]) (simp add: bindc_def)
  qed
qed

text \<open>The erase loops of the firmware: every page between two addresses, unless blank.\<close>

lemma erase_loop:
  assumes "usable H F h" and "unat lo mod 1024 = 0" and "0x08000000 \<le> unat lo"
    and "unat lim \<le> 0x08020000" and "unat lim \<le> unat lo + 1024 * n"
    and "0 < n \<Longrightarrow> unat lo + 1024 * n < unat lim + 1024"
  shows "\<exists>h'. for_step lo lim 1024 (\<lambda>a. bindc (is_erased H a) (\<lambda>e. if \<not> e then erase H a else skip)) h
      = Done () h' \<and> usable H F h' \<and> content F h' = erase_span lo n (content F h)"
  using assms
proof (induction n arbitrary: lo h)
  case 0
  then have "\<not> lo < lim" by (simp add: word_less_nat_alt)
  then show ?case using "0.prems"(1) by (simp add: for_step_done)
next
  case (Suc n)
  have lt: "lo < lim" using Suc.prems(6) by (simp add: word_less_nat_alt)
  have p: "page_base lo"
    using Suc.prems(2-4) lt by (simp add: page_base_def in_flash_def word_less_nat_alt word_le_nat_alt)
  from erase_unless_blank [OF Suc.prems(1) p] obtain h1 where
    1: "bindc (is_erased H lo) (\<lambda>e. if \<not> e then erase H lo else skip) h = Done () h1"
      "usable H F h1" "content F h1 = erase_cells lo (content F h)" by blast
  note u = page_step [OF p]
  have "\<exists>h'. for_step (lo + 1024) lim 1024 (\<lambda>a. bindc (is_erased H a) (\<lambda>e. if \<not> e then erase H a else skip)) h1
      = Done () h' \<and> usable H F h' \<and> content F h' = erase_span (lo + 1024) n (content F h1)"
  proof (rule Suc.IH [OF 1(2)])
    show "unat (lo + 1024) mod 1024 = 0" using u Suc.prems(2) by simp
  qed (use u Suc.prems in simp_all)
  then obtain h2 where
    2: "for_step (lo + 1024) lim 1024 (\<lambda>a. bindc (is_erased H a) (\<lambda>e. if \<not> e then erase H a else skip)) h1
      = Done () h2" "usable H F h2" "content F h2 = erase_span (lo + 1024) n (content F h1)" by blast
  from for_step_step [where body = "\<lambda>a. bindc (is_erased H a) (\<lambda>e. if \<not> e then erase H a else skip)",
      OF lt 1(1) 2(1)] 2(2,3) 1(3)
  show ?case by (intro exI [of _ h2]) (simp add: erase_span_Suc [OF p])
qed

lemma rewrite:
  assumes "usable H F h" and p: "page_base p" and len: "len \<le> length data" "len \<le> 1024"
  shows "\<exists>h'. block [bindc (is_erased H p) (\<lambda>e. if \<not> e then erase H p else skip),
      program H p data len] h = Done () h' \<and> usable H F h' \<and>
    content F h' = put_halves p data (len div 2) (erase_cells p (content F h))"
proof -
  from erase_unless_blank [OF assms(1,2)] obtain h1 where
    1: "bindc (is_erased H p) (\<lambda>e. if \<not> e then erase H p else skip) h = Done () h1"
      "usable H F h1" "content F h1 = erase_cells p (content F h)" by blast
  have tgt: "\<forall>i < len div 2. in_flash (p + 2 * of_nat i) \<and> even (unat (p + 2 * of_nat i)) \<and>
      content F h1 (p + 2 * of_nat i) = 0xFFFF"
  proof (intro allI impI)
    fix i assume "i < len div 2"
    then have "2 * i < 1024" using len by simp
    note o = page_offset [OF p this]
    have "even (unat p)"
      using p dvd_trans [of 2 1024 "unat p"] by (simp add: page_base_def dvd_eq_mod_eq_0)
    with o 1(3) show "in_flash (p + 2 * of_nat i) \<and> even (unat (p + 2 * of_nat i)) \<and>
        content F h1 (p + 2 * of_nat i) = 0xFFFF"
      by (simp add: erase_cells_def)
  qed
  from len have "len < 4294967296" by simp
  from program_law [OF 1(2) len(1) this tgt] obtain h2 where
    "program H p data len h1 = Done () h2" "usable H F h2"
    "content F h2 = put_halves p data (len div 2) (content F h1)" by blast
  with 1 show ?thesis by (intro exI [of _ h2]) (simp add: bindc_Done give_def)
qed

end

definition fpec_usable :: "hw \<Rightarrow> fpec \<Rightarrow> history \<Rightarrow> bool" where
  "fpec_usable H F0 h \<longleftrightarrow> fpec_hw H F0 \<and> ready (fpec_run F0 h)"

definition flash_content :: "fpec \<Rightarrow> history \<Rightarrow> u32 \<Rightarrow> u16" where
  "flash_content F0 h = cells (fpec_run F0 h)"

interpretation fd: flash_driver fpec_usable flash_content flash_page_is_erased flash_erase_page
  flash_program_buffer
proof
  fix H F h p assume u: "fpec_usable H F h" and p: "page_base p"
  from u have H: "fpec_hw H F" by (simp add: fpec_usable_def)
  from effectD [OF effect_is_erased [OF H p] refl] u
  show "\<exists>h'. flash_page_is_erased H p h = Done (blank_page p (flash_content F h)) h' \<and>
      fpec_usable H F h' \<and> flash_content F h' = flash_content F h"
    unfolding fpec_usable_def flash_content_def by fastforce
next
  fix H F h p assume u: "fpec_usable H F h"
  then have H: "fpec_hw H F" and r: "ready (fpec_run F h)" by (simp_all add: fpec_usable_def)
  from effectD [OF effect_erase [OF H r, of p] refl] u
  show "\<exists>h'. flash_erase_page H p h = Done () h' \<and>
      fpec_usable H F h' \<and> flash_content F h' = erase_cells p (flash_content F h)"
    unfolding fpec_usable_def flash_content_def ready_def by fastforce
next
  fix H F h len base and data :: "u8 list"
  assume u: "fpec_usable H F h" and len: "len \<le> length data" "len < 4294967296"
    and tgt: "\<forall>i < len div 2. in_flash (base + 2 * of_nat i) \<and>
      even (unat (base + 2 * of_nat i)) \<and> flash_content F h (base + 2 * of_nat i) = 0xFFFF"
  from u have H: "fpec_hw H F" and r: "ready (fpec_run F h)" by (simp_all add: fpec_usable_def)
  from effectD [OF effect_program [OF H r len tgt [unfolded flash_content_def]] refl] u
  show "\<exists>h'. flash_program_buffer H base data len h = Done () h' \<and>
      fpec_usable H F h' \<and> flash_content F h' = put_halves base data (len div 2) (flash_content F h)"
    unfolding fpec_usable_def flash_content_def ready_def by fastforce
qed

section \<open>Lock and unlock as part of the contract\<close>

text \<open>\<open>idle\<close> holds between sessions: the controller is locked and no operation is selected.\<close>

locale locked_flash_driver = flash_driver usable content is_erased erase program
  for usable :: "hw \<Rightarrow> 'f \<Rightarrow> history \<Rightarrow> bool"
    and content :: "'f \<Rightarrow> history \<Rightarrow> u32 \<Rightarrow> u16"
    and is_erased :: "hw \<Rightarrow> u32 \<Rightarrow> (history, bool) cmd"
    and erase :: "hw \<Rightarrow> u32 \<Rightarrow> (history, unit) cmd"
    and program :: "hw \<Rightarrow> u32 \<Rightarrow> u8 list \<Rightarrow> nat \<Rightarrow> (history, unit) cmd" +
  fixes idle :: "hw \<Rightarrow> 'f \<Rightarrow> history \<Rightarrow> bool"
    and unlock :: "hw \<Rightarrow> (history, unit) cmd"
    and lock :: "hw \<Rightarrow> (history, unit) cmd"
  assumes unlock_law:
      "idle H F h \<Longrightarrow> \<exists>h'. unlock H h = Done () h' \<and> usable H F h' \<and> content F h' = content F h"
    and lock_law:
      "usable H F h \<Longrightarrow> \<exists>h'. lock H h = Done () h' \<and> idle H F h' \<and> content F h' = content F h"
begin

text \<open>
  A client that unlocks the flash, makes one change and locks it again. The change is any
  command that a usable controller finishes with a known effect on the contents.
\<close>

lemma session:
  assumes i: "idle H F h"
    and c: "\<And>g. usable H F g \<Longrightarrow> content F g = content F h \<Longrightarrow>
      \<exists>g'. c g = Done () g' \<and> usable H F g' \<and> content F g' = f'"
  shows "\<exists>h'. block [unlock H, c, lock H] h = Done () h' \<and> idle H F h' \<and> content F h' = f'"
proof -
  from unlock_law [OF i] obtain h1 where
    1: "unlock H h = Done () h1" "usable H F h1" "content F h1 = content F h" by blast
  from c [OF 1(2,3)] obtain h2 where
    2: "c h1 = Done () h2" "usable H F h2" "content F h2 = f'" by blast
  from lock_law [OF 2(2)] 2(3) obtain h3 where
    3: "lock H h2 = Done () h3" "idle H F h3" "content F h3 = f'" by auto
  from 1(1) 2(1) 3 show ?thesis
    by (intro exI [of _ h3]) (simp add: bindc_Done give_def)
qed

end

definition fpec_idle :: "hw \<Rightarrow> fpec \<Rightarrow> history \<Rightarrow> bool" where
  "fpec_idle H F0 h \<longleftrightarrow> fpec_hw H F0 \<and>
     locked (fpec_run F0 h) \<and> \<not> key1 (fpec_run F0 h) \<and> cr (fpec_run F0 h) = 0"

interpretation lfd: locked_flash_driver fpec_usable flash_content flash_page_is_erased
  flash_erase_page flash_program_buffer fpec_idle flash_unlock flash_lock
proof
  fix H F h assume "fpec_idle H F h"
  then have H: "fpec_hw H F" and i: "cr (fpec_run F h) = 0" "\<not> key1 (fpec_run F h)"
    by (simp_all add: fpec_idle_def)
  from effectD [OF effect_unlock [OF H i] refl] H i
  show "\<exists>h'. flash_unlock H h = Done () h' \<and> fpec_usable H F h' \<and>
      flash_content F h' = flash_content F h"
    unfolding fpec_usable_def flash_content_def ready_def by fastforce
next
  fix H F h assume "fpec_usable H F h"
  then have H: "fpec_hw H F" and r: "ready (fpec_run F h)" by (simp_all add: fpec_usable_def)
  from effectD [OF effect_lock [OF H r] refl] H r
  show "\<exists>h'. flash_lock H h = Done () h' \<and> fpec_idle H F h' \<and>
      flash_content F h' = flash_content F h"
    unfolding fpec_idle_def flash_content_def ready_def by fastforce
qed

section \<open>The two writers of the bootloader\<close>

text \<open>Rewriting one page between unlock and lock\<close>

lemma rewrite_session:
  assumes i: "fpec_idle H F0 h" and p: "page_base p" and n: "n \<le> length data" "n \<le> 1024"
  shows "\<exists>h'. block [flash_unlock H,
      block [bindc (flash_page_is_erased H p) (\<lambda>e. if \<not> e then flash_erase_page H p else skip),
        flash_program_buffer H p data n],
      flash_lock H] h = Done () h' \<and> fpec_idle H F0 h' \<and>
    flash_content F0 h' = put_halves p data (n div 2) (erase_cells p (flash_content F0 h))"
proof (rule lfd.session [OF i])
  fix g assume "fpec_usable H F0 g" and c: "flash_content F0 g = flash_content F0 h"
  from fd.rewrite [OF this(1) p n]
  show "\<exists>g'. block [bindc (flash_page_is_erased H p) (\<lambda>e. if \<not> e then flash_erase_page H p else skip),
        flash_program_buffer H p data n] g = Done () g' \<and> fpec_usable H F0 g' \<and>
      flash_content F0 g' = put_halves p data (n div 2) (erase_cells p (flash_content F0 h))"
    unfolding c .
qed

text \<open>\<open>check_do_erase\<close> blanks the application area, once.\<close>

lemma check_do_erase_once:
  assumes "fpec_usable H F0 h"
  shows "\<exists>h'. check_do_erase H False h = Done True h' \<and> fpec_usable H F0 h' \<and>
    flash_content F0 h' = erase_span 0x08002000 120 (flash_content F0 h)"
    and "check_do_erase H True h = Done True h"
proof -
  have "\<exists>h'. for_step start_addr end_addr 1024 (\<lambda>a.
      bindc (flash_page_is_erased H a) (\<lambda>e. if \<not> e then flash_erase_page H a else skip)) h = Done () h' \<and>
    fpec_usable H F0 h' \<and> flash_content F0 h' = erase_span start_addr 120 (flash_content F0 h)"
    by (rule fd.erase_loop [OF assms]) simp_all
  then show "\<exists>h'. check_do_erase H False h = Done True h' \<and> fpec_usable H F0 h' \<and>
    flash_content F0 h' = erase_span 0x08002000 120 (flash_content F0 h)"
    by (auto simp: check_do_erase_def bindc_Done give_def)
  show "check_do_erase H True h = Done True h" by (simp add: check_do_erase_def give_def)
qed

end
