(* ===== verification/Dfu.thy ===== *)
theory Dfu
  imports UsbTypes FlashDriver
begin

text \<open>
  \<open>Core/Src/usbdfu.c\<close> and \<open>Core/Inc/reboot.h\<close>: the DFU class requests. The state holds
  the file's static variables beside the bus history: the control buffer shared with
  \<open>usb.c\<close>, the DFU state, the pending block (\<open>prog\<close>) and the flag of \<open>check_do_erase\<close>.
\<close>

definition CMD_SETADDR :: u8 where "CMD_SETADDR = 0x21"
definition CMD_ERASE :: u8 where "CMD_ERASE = 0x41"

record dfu =
  io :: history
  usbd_control_buffer :: "u8 list"
  usbdfu_state :: dfu_state
  prog_buf :: "u8 list"
  prog_len :: u16
  prog_addr :: u32
  prog_blocknum :: u16
  erased :: bool

text \<open>The state after start-up: static variables are zero unless initialised.\<close>

definition dfu_init :: "history \<Rightarrow> dfu" where
  "dfu_init h =
     \<lparr>io = h, usbd_control_buffer = replicate DFU_TRANSFER_SIZE 0, usbdfu_state = STATE_DFU_IDLE,
      prog_buf = replicate DFU_TRANSFER_SIZE 0, prog_len = 0, prog_addr = 0, prog_blocknum = 0,
      erased = False\<rparr>"

text \<open>A bus command inside the DFU state.\<close>

definition bus :: "(history, 'a) cmd \<Rightarrow> (dfu, 'a) cmd" where
  "bus c = zoom io (\<lambda>h s. s\<lparr>io := h\<rparr>) c"

definition set_state :: "dfu_state \<Rightarrow> (dfu, unit) cmd" where
  "set_state q = modc (\<lambda>s. s\<lparr>usbdfu_state := q\<rparr>)"

text \<open>Stores into the control buffer from its first byte on.\<close>

definition put_buffer :: "u8 list \<Rightarrow> (dfu, unit) cmd" where
  "put_buffer bs = modc (\<lambda>s. s\<lparr>usbd_control_buffer := overwrite 0 bs (usbd_control_buffer s)\<rparr>)"

section \<open>reboot.h\<close>

text \<open>\<open>_stack\<close> is placed by the linker script at the reserved end of the RAM.\<close>

definition stack_word :: u32 where [reg_defs]: "stack_word = 0x20004FF8"

definition reboot_into_bootloader :: "hw \<Rightarrow> (history, unit) cmd" where
  "reboot_into_bootloader H = store32 H stack_word 0xCC00FFEE"

definition reboot_into_updater :: "hw \<Rightarrow> (history, unit) cmd" where
  "reboot_into_updater H = store32 H stack_word 0x600DF00D"

definition clear_reboot_flags :: "hw \<Rightarrow> (history, unit) cmd" where
  "clear_reboot_flags H = store32 H stack_word 0"

definition rebooted_into_dfu :: "hw \<Rightarrow> (history, bool) cmd" where
  "rebooted_into_dfu H = bindc (load32 H stack_word) (\<lambda>v. give (v = 0xCC00FFEE))"

definition rebooted_into_updater :: "hw \<Rightarrow> (history, bool) cmd" where
  "rebooted_into_updater H = bindc (load32 H stack_word) (\<lambda>v. give (v = 0x600DF00D))"

text \<open>The loop after the request is left by the reset itself.\<close>

definition full_system_reset :: "hw \<Rightarrow> (history, unit) cmd" where
  "full_system_reset H = block [store32 H 0xE000ED0C (0x05FA0000 OR 0x4), halt Reset]"

section \<open>usbdfu.c\<close>

text \<open>Returns the status and \<open>*bwPollTimeout\<close>, which the caller has set to 0.\<close>

definition usbdfu_getstatus :: "(dfu, u8 \<times> u32) cmd" where
  "usbdfu_getstatus = bindc (getc usbdfu_state) (\<lambda>q. case q of
       STATE_DFU_DNLOAD_SYNC \<Rightarrow>
         bindc (set_state STATE_DFU_DNBUSY) (\<lambda>_. give (status_byte DFU_STATUS_OK, 100))
     | STATE_DFU_MANIFEST_SYNC \<Rightarrow>
         bindc (set_state STATE_DFU_MANIFEST) (\<lambda>_. give (status_byte DFU_STATUS_OK, 0))
     | STATE_DFU_ERROR \<Rightarrow> give (state_byte STATE_DFU_ERROR, 0)
     | _ \<Rightarrow> give (status_byte DFU_STATUS_OK, 0))"

text \<open>\<open>*(uint32_t *)(prog.buf + 1)\<close>\<close>

definition prog_word :: "dfu \<Rightarrow> u32" where
  "prog_word s = le32 (prog_buf s ! 1) (prog_buf s ! 2) (prog_buf s ! 3) (prog_buf s ! 4)"

text \<open>\<open>prog.addr + ((blocknum - 2) * DFU_TRANSFER_SIZE)\<close>, in 32-bit arithmetic\<close>

definition block_address :: "u32 \<Rightarrow> u16 \<Rightarrow> u32" where
  "block_address a blocknum = a + (ucast blocknum - 2) * of_nat DFU_TRANSFER_SIZE"

text \<open>\<open>baseaddr >= start_addr && baseaddr + n <= end_addr\<close>\<close>

definition in_bounds :: "u32 \<Rightarrow> u32 \<Rightarrow> bool" where
  "in_bounds baseaddr n \<longleftrightarrow> baseaddr \<ge> start_addr \<and> baseaddr + n \<le> end_addr"

text \<open>\<open>if (!_flash_page_is_erased(baseaddr)) _flash_erase_page(baseaddr);\<close>\<close>

definition erase_if_needed :: "hw \<Rightarrow> u32 \<Rightarrow> (history, unit) cmd" where
  "erase_if_needed H baseaddr = bindc (flash_page_is_erased H baseaddr) (\<lambda>e.
     if \<not> e then flash_erase_page H baseaddr else skip)"

definition safewrite :: "config \<Rightarrow> hw \<Rightarrow> (dfu, unit) cmd" where
  "safewrite C H =
     (if enable_safewrite C
      then bindc (getc erased) (\<lambda>e. bindc (bus (check_do_erase H e)) (\<lambda>e'.
             modc (\<lambda>s. s\<lparr>erased := e'\<rparr>)))
      else skip)"

definition dnload_command :: "config \<Rightarrow> hw \<Rightarrow> (dfu, unit) cmd" where
  "dnload_command C H = bindc (getc (\<lambda>s. prog_buf s ! 0)) (\<lambda>c.
     if c = CMD_ERASE then
       bindc (safewrite C H) (\<lambda>_. bindc (getc prog_word) (\<lambda>baseaddr.
         if in_bounds baseaddr (of_nat DFU_TRANSFER_SIZE)
         then bus (erase_if_needed H baseaddr) else skip))
     else if c = CMD_SETADDR then
       bindc (getc prog_word) (\<lambda>a. modc (\<lambda>s. s\<lparr>prog_addr := a\<rparr>))
     else skip)"

definition dnload_block :: "config \<Rightarrow> hw \<Rightarrow> (dfu, unit) cmd" where
  "dnload_block C H =
     bindc (safewrite C H) (\<lambda>_.
     bindc (getc (\<lambda>s. (block_address (prog_addr s) (prog_blocknum s), prog_len s, prog_buf s)))
       (\<lambda>(baseaddr, n, data).
         if in_bounds baseaddr (ucast n)
         then bus (block [erase_if_needed H baseaddr,
                          flash_program_buffer H baseaddr data (unat n)])
         else skip))"

definition usbdfu_getstatus_complete :: "config \<Rightarrow> hw \<Rightarrow> usb_setup_data \<Rightarrow> (dfu, unit) cmd" where
  "usbdfu_getstatus_complete C H req = bindc (getc usbdfu_state) (\<lambda>q. case q of
       STATE_DFU_DNBUSY \<Rightarrow> block
         [bus (flash_unlock H),
          bindc (getc prog_blocknum) (\<lambda>b.
            if b = 0 then dnload_command C H else dnload_block C H),
          bus (flash_lock H),
          set_state STATE_DFU_DNLOAD_IDLE]
     | STATE_DFU_MANIFEST \<Rightarrow> bus (block [clear_reboot_flags H, full_system_reset H])
     | _ \<Rightarrow> skip)"

text \<open>\<open>memcpy\<close> from the bus: \<open>n\<close> byte loads from \<open>a\<close> on, in order\<close>

primrec load_bytes :: "hw \<Rightarrow> u32 \<Rightarrow> nat \<Rightarrow> (history, u8 list) cmd" where
  "load_bytes H a 0 = give []"
| "load_bytes H a (Suc n) =
     bindc (load8 H a) (\<lambda>b. bindc (load_bytes H (a + 1) n) (\<lambda>bs. give (b # bs)))"

text \<open>
  A request handler gets the setup packet and \<open>*len\<close> (the only caller passes a valid
  pointer), and returns its code, the new \<open>*len\<close> and whether it set \<open>*complete\<close>.
\<close>

definition dfu_upload :: "config \<Rightarrow> hw \<Rightarrow> usb_setup_data \<Rightarrow> (dfu, u16) cmd" where
  "dfu_upload C H req =
     (if wValue req = 0
      then bindc (put_buffer [0x00, CMD_SETADDR, CMD_ERASE]) (\<lambda>_. give 3)
      else if \<not> enable_dfu_upload C
      then bindc (set_state STATE_DFU_ERROR) (\<lambda>_. give 0)
      else bindc (getc (\<lambda>s. block_address (prog_addr s) (wValue req))) (\<lambda>baseaddr.
        if in_bounds baseaddr (of_nat DFU_TRANSFER_SIZE)
        then bindc (bus (load_bytes H baseaddr DFU_TRANSFER_SIZE)) (\<lambda>bs.
               bindc (put_buffer bs) (\<lambda>_. give (of_nat DFU_TRANSFER_SIZE)))
        else bindc (set_state STATE_DFU_ERROR) (\<lambda>_. give 0)))"

definition dfu_store_block :: "usb_setup_data \<Rightarrow> u16 \<Rightarrow> dfu \<Rightarrow> dfu" where
  "dfu_store_block req len s =
     (let n = (if unat len > length (prog_buf s) then of_nat (length (prog_buf s)) else len) in
      s\<lparr>prog_blocknum := wValue req, prog_len := n,
        prog_buf := overwrite 0 (take (unat n) (usbd_control_buffer s)) (prog_buf s)\<rparr>)"

definition getstatus_reply :: "u8 \<Rightarrow> u32 \<Rightarrow> dfu_state \<Rightarrow> u8 list" where
  "getstatus_reply st bwPollTimeout q =
     [st, ucast (bwPollTimeout AND 0xFF), ucast (drop_bit 8 bwPollTimeout AND 0xFF),
      ucast (drop_bit 16 bwPollTimeout AND 0xFF), state_byte q, 0]"

definition usbdfu_control_request ::
  "config \<Rightarrow> hw \<Rightarrow> usb_setup_data \<Rightarrow> u16 \<Rightarrow> (dfu, usbd_request_return_codes \<times> u16 \<times> bool) cmd" where
  "usbdfu_control_request C H req len = (case dfu_req_of (bRequest req) of
       Some DFU_DNLOAD \<Rightarrow>
         if len = 0
         then bindc (set_state STATE_DFU_MANIFEST_SYNC) (\<lambda>_. give (USBD_REQ_HANDLED, len, True))
         else bindc (modc (dfu_store_block req len)) (\<lambda>_.
              bindc (set_state STATE_DFU_DNLOAD_SYNC) (\<lambda>_. give (USBD_REQ_HANDLED, len, False)))
     | Some DFU_CLRSTATUS \<Rightarrow>
         bindc (getc usbdfu_state) (\<lambda>q.
         bindc (if q = STATE_DFU_ERROR then set_state STATE_DFU_IDLE else skip) (\<lambda>_.
         give (USBD_REQ_HANDLED, len, False)))
     | Some DFU_ABORT \<Rightarrow>
         bindc (set_state STATE_DFU_IDLE) (\<lambda>_. give (USBD_REQ_HANDLED, len, False))
     | Some DFU_DETACH \<Rightarrow>
         bindc (set_state STATE_DFU_MANIFEST_SYNC) (\<lambda>_. give (USBD_REQ_HANDLED, len, True))
     | Some DFU_UPLOAD \<Rightarrow>
         bindc (set_state STATE_DFU_UPLOAD_IDLE) (\<lambda>_.
         bindc (dfu_upload C H req) (\<lambda>n. give (USBD_REQ_HANDLED, n, False)))
     | Some DFU_GETSTATUS \<Rightarrow>
         bindc usbdfu_getstatus (\<lambda>(st, bwPollTimeout).
         bindc (getc usbdfu_state) (\<lambda>q.
         bindc (put_buffer (getstatus_reply st bwPollTimeout q)) (\<lambda>_.
         give (USBD_REQ_HANDLED, 6, True))))
     | Some DFU_GETSTATE \<Rightarrow>
         bindc (getc usbdfu_state) (\<lambda>q.
         bindc (put_buffer [state_byte q]) (\<lambda>_. give (USBD_REQ_HANDLED, 1, False)))
     | None \<Rightarrow> give (USBD_REQ_NEXT_CALLBACK, len, False))"

end
