(* ===== verification/UsbRegs.thy ===== *)
theory UsbRegs
  imports UsbTypes
begin

text \<open>
  The register layer of the USB peripheral: the access macros of \<open>Core/Inc/usb.h\<close> (16-bit
  values in 32-bit registers, write-zero-to-clear bits, toggle bits, the buffer
  description table) and the packet memory copies of \<open>Core/Src/usb.c\<close>.
\<close>

section \<open>Registers\<close>

definition USB_DEV_FS_BASE :: u32 where [reg_defs]: "USB_DEV_FS_BASE = 0x40000000 + 0x5c00"
definition USB_PMA_BASE :: u32 where [reg_defs]: "USB_PMA_BASE = 0x40000000 + 0x6000"
definition USB_CNTR_REG :: u32 where [reg_defs]: "USB_CNTR_REG = USB_DEV_FS_BASE + 0x40"
definition USB_ISTR_REG :: u32 where [reg_defs]: "USB_ISTR_REG = USB_DEV_FS_BASE + 0x44"
definition USB_DADDR_REG :: u32 where [reg_defs]: "USB_DADDR_REG = USB_DEV_FS_BASE + 0x4C"
definition USB_BTABLE_REG :: u32 where [reg_defs]: "USB_BTABLE_REG = USB_DEV_FS_BASE + 0x50"

text \<open>Pointer arithmetic on \<open>uint32_t *\<close>: four bytes per endpoint.\<close>

definition USB_EP_REG :: "u8 \<Rightarrow> u32" where [reg_defs]: "USB_EP_REG ep = USB_DEV_FS_BASE + 4 * ucast ep"

definition USB_DADDR_EF :: u16 where "USB_DADDR_EF = 0x80"
definition USB_DADDR_ADDR :: u16 where "USB_DADDR_ADDR = 0x7F"

definition USB_CNTR_CTRM :: u16 where "USB_CNTR_CTRM = 0x8000"
definition USB_CNTR_WKUPM :: u16 where "USB_CNTR_WKUPM = 0x1000"
definition USB_CNTR_SUSPM :: u16 where "USB_CNTR_SUSPM = 0x0800"
definition USB_CNTR_RESETM :: u16 where "USB_CNTR_RESETM = 0x0400"
definition USB_CNTR_SOFM :: u32 where "USB_CNTR_SOFM = 0x0200"
definition USB_CNTR_PWDN :: u32 where "USB_CNTR_PWDN = 0x0002"

definition USB_ISTR_CTR :: u16 where "USB_ISTR_CTR = 0x8000"
definition USB_ISTR_WKUP :: u16 where "USB_ISTR_WKUP = 0x1000"
definition USB_ISTR_SUSP :: u16 where "USB_ISTR_SUSP = 0x0800"
definition USB_ISTR_RESET :: u16 where "USB_ISTR_RESET = 0x0400"
definition USB_ISTR_SOF :: u16 where "USB_ISTR_SOF = 0x0200"
definition USB_ISTR_DIR :: u16 where "USB_ISTR_DIR = 0x0010"
definition USB_ISTR_EP_ID :: u16 where "USB_ISTR_EP_ID = 0x000F"

definition USB_EP_RX_CTR :: u16 where "USB_EP_RX_CTR = 0x8000"
definition USB_EP_RX_DTOG :: u16 where "USB_EP_RX_DTOG = 0x4000"
definition USB_EP_RX_STAT :: u16 where "USB_EP_RX_STAT = 0x3000"
definition USB_EP_SETUP :: u16 where "USB_EP_SETUP = 0x0800"
definition USB_EP_TYPE :: u16 where "USB_EP_TYPE = 0x0600"
definition USB_EP_KIND :: u16 where "USB_EP_KIND = 0x0100"
definition USB_EP_TX_CTR :: u16 where "USB_EP_TX_CTR = 0x0080"
definition USB_EP_TX_DTOG :: u16 where "USB_EP_TX_DTOG = 0x0040"
definition USB_EP_TX_STAT :: u16 where "USB_EP_TX_STAT = 0x0030"
definition USB_EP_ADDR :: u16 where "USB_EP_ADDR = 0x000F"

definition USB_EP_NTOGGLE_MSK :: u16 where
  "USB_EP_NTOGGLE_MSK =
     USB_EP_RX_CTR OR USB_EP_SETUP OR USB_EP_TYPE OR USB_EP_KIND OR USB_EP_TX_CTR OR USB_EP_ADDR"

definition USB_EP_RX_STAT_TOG_MSK :: u16 where
  "USB_EP_RX_STAT_TOG_MSK = USB_EP_RX_STAT OR USB_EP_NTOGGLE_MSK"

definition USB_EP_TX_STAT_TOG_MSK :: u16 where
  "USB_EP_TX_STAT_TOG_MSK = USB_EP_TX_STAT OR USB_EP_NTOGGLE_MSK"

definition USB_EP_RX_STAT_DISABLED :: u16 where "USB_EP_RX_STAT_DISABLED = 0"
definition USB_EP_RX_STAT_STALL :: u16 where "USB_EP_RX_STAT_STALL = 0x1000"
definition USB_EP_RX_STAT_NAK :: u16 where "USB_EP_RX_STAT_NAK = 0x2000"
definition USB_EP_RX_STAT_VALID :: u16 where "USB_EP_RX_STAT_VALID = 0x3000"
definition USB_EP_TX_STAT_DISABLED :: u16 where "USB_EP_TX_STAT_DISABLED = 0"
definition USB_EP_TX_STAT_STALL :: u16 where "USB_EP_TX_STAT_STALL = 0x0010"
definition USB_EP_TX_STAT_NAK :: u16 where "USB_EP_TX_STAT_NAK = 0x0020"
definition USB_EP_TX_STAT_VALID :: u16 where "USB_EP_TX_STAT_VALID = 0x0030"
definition USB_EP_TYPE_BULK :: u16 where "USB_EP_TYPE_BULK = 0"
definition USB_EP_TYPE_CONTROL :: u16 where "USB_EP_TYPE_CONTROL = 0x0200"
definition USB_EP_TYPE_ISO :: u16 where "USB_EP_TYPE_ISO = 0x0400"
definition USB_EP_TYPE_INTERRUPT :: u16 where "USB_EP_TYPE_INTERRUPT = 0x0600"

lemmas ep_bits = USB_EP_RX_CTR_def USB_EP_RX_DTOG_def USB_EP_RX_STAT_def USB_EP_SETUP_def
  USB_EP_TYPE_def USB_EP_KIND_def USB_EP_TX_CTR_def USB_EP_TX_DTOG_def USB_EP_TX_STAT_def
  USB_EP_ADDR_def USB_EP_NTOGGLE_MSK_def USB_EP_RX_STAT_TOG_MSK_def USB_EP_TX_STAT_TOG_MSK_def

section \<open>Access macros\<close>

definition GET_REG :: "hw \<Rightarrow> u32 \<Rightarrow> (history, u16) cmd" where
  "GET_REG H reg = bindc (load32 H reg) (\<lambda>v. give (ucast v))"

definition SET_REG :: "hw \<Rightarrow> u32 \<Rightarrow> u16 \<Rightarrow> (history, unit) cmd" where
  "SET_REG H reg v = store32 H reg (ucast v)"

definition CLR_REG_BIT :: "hw \<Rightarrow> u32 \<Rightarrow> u16 \<Rightarrow> (history, unit) cmd" where
  "CLR_REG_BIT H reg b = SET_REG H reg (NOT b)"

definition CLR_REG_BIT_MSK_AND_SET ::
  "hw \<Rightarrow> u32 \<Rightarrow> u16 \<Rightarrow> u16 \<Rightarrow> u16 \<Rightarrow> (history, unit) cmd" where
  "CLR_REG_BIT_MSK_AND_SET H reg msk b extra =
     bindc (GET_REG H reg) (\<lambda>v. SET_REG H reg ((v AND msk AND NOT b) OR extra))"

definition toggle_value :: "u16 \<Rightarrow> u16 \<Rightarrow> u16 \<Rightarrow> u16 \<Rightarrow> u16" where
  "toggle_value v msk b extra = ((v AND msk) XOR b) OR extra"

definition TOG_SET_REG_BIT_MSK_AND_SET ::
  "hw \<Rightarrow> u32 \<Rightarrow> u16 \<Rightarrow> u16 \<Rightarrow> u16 \<Rightarrow> (history, unit) cmd" where
  "TOG_SET_REG_BIT_MSK_AND_SET H reg msk b extra =
     bindc (GET_REG H reg) (\<lambda>v. SET_REG H reg (toggle_value v msk b extra))"

definition USB_SET_EP_RX_STAT :: "hw \<Rightarrow> u8 \<Rightarrow> u16 \<Rightarrow> (history, unit) cmd" where
  "USB_SET_EP_RX_STAT H ep stat = TOG_SET_REG_BIT_MSK_AND_SET H (USB_EP_REG ep)
     USB_EP_RX_STAT_TOG_MSK stat (USB_EP_RX_CTR OR USB_EP_TX_CTR)"

definition USB_SET_EP_TX_STAT :: "hw \<Rightarrow> u8 \<Rightarrow> u16 \<Rightarrow> (history, unit) cmd" where
  "USB_SET_EP_TX_STAT H ep stat = TOG_SET_REG_BIT_MSK_AND_SET H (USB_EP_REG ep)
     USB_EP_TX_STAT_TOG_MSK stat (USB_EP_RX_CTR OR USB_EP_TX_CTR)"

definition USB_CLR_EP_TX_DTOG :: "hw \<Rightarrow> u8 \<Rightarrow> (history, unit) cmd" where
  "USB_CLR_EP_TX_DTOG H ep = bindc (GET_REG H (USB_EP_REG ep)) (\<lambda>v.
     SET_REG H (USB_EP_REG ep) (v AND (USB_EP_NTOGGLE_MSK OR USB_EP_TX_DTOG)))"

definition USB_CLR_EP_RX_DTOG :: "hw \<Rightarrow> u8 \<Rightarrow> (history, unit) cmd" where
  "USB_CLR_EP_RX_DTOG H ep = bindc (GET_REG H (USB_EP_REG ep)) (\<lambda>v.
     SET_REG H (USB_EP_REG ep) (v AND (USB_EP_NTOGGLE_MSK OR USB_EP_RX_DTOG)))"

definition USB_CLR_EP_RX_CTR :: "hw \<Rightarrow> u8 \<Rightarrow> (history, unit) cmd" where
  "USB_CLR_EP_RX_CTR H ep =
     CLR_REG_BIT_MSK_AND_SET H (USB_EP_REG ep) USB_EP_NTOGGLE_MSK USB_EP_RX_CTR USB_EP_TX_CTR"

definition USB_CLR_EP_TX_CTR :: "hw \<Rightarrow> u8 \<Rightarrow> (history, unit) cmd" where
  "USB_CLR_EP_TX_CTR H ep =
     CLR_REG_BIT_MSK_AND_SET H (USB_EP_REG ep) USB_EP_NTOGGLE_MSK USB_EP_TX_CTR USB_EP_RX_CTR"

definition USB_SET_EP_TYPE :: "hw \<Rightarrow> u8 \<Rightarrow> u16 \<Rightarrow> (history, unit) cmd" where
  "USB_SET_EP_TYPE H ep ty = bindc (GET_REG H (USB_EP_REG ep)) (\<lambda>v.
     SET_REG H (USB_EP_REG ep) ((v AND (USB_EP_NTOGGLE_MSK AND NOT USB_EP_TYPE)) OR ty))"

definition USB_SET_EP_ADDR :: "hw \<Rightarrow> u8 \<Rightarrow> u16 \<Rightarrow> (history, unit) cmd" where
  "USB_SET_EP_ADDR H ep addr = bindc (GET_REG H (USB_EP_REG ep)) (\<lambda>v.
     SET_REG H (USB_EP_REG ep) ((v AND (USB_EP_NTOGGLE_MSK AND NOT USB_EP_ADDR)) OR addr))"

section \<open>The buffer description table\<close>

text \<open>\<open>USB_PMA_BASE + (USB_GET_BTABLE + EP * 8 + k) * 2\<close>\<close>

definition btable_entry :: "u16 \<Rightarrow> u8 \<Rightarrow> u32 \<Rightarrow> u32" where
  "btable_entry bt ep k = USB_PMA_BASE + (ucast bt + ucast ep * 8 + k) * 2"

definition btable_get :: "hw \<Rightarrow> u8 \<Rightarrow> u32 \<Rightarrow> (history, u16) cmd" where
  "btable_get H ep k = bindc (GET_REG H USB_BTABLE_REG) (\<lambda>bt. GET_REG H (btable_entry bt ep k))"

definition btable_set :: "hw \<Rightarrow> u8 \<Rightarrow> u32 \<Rightarrow> u16 \<Rightarrow> (history, unit) cmd" where
  "btable_set H ep k v = bindc (GET_REG H USB_BTABLE_REG) (\<lambda>bt. SET_REG H (btable_entry bt ep k) v)"

definition USB_SET_EP_TX_ADDR :: "hw \<Rightarrow> u8 \<Rightarrow> u16 \<Rightarrow> (history, unit) cmd" where
  "USB_SET_EP_TX_ADDR H ep v = btable_set H ep 0 v"

definition USB_SET_EP_TX_COUNT :: "hw \<Rightarrow> u8 \<Rightarrow> u16 \<Rightarrow> (history, unit) cmd" where
  "USB_SET_EP_TX_COUNT H ep v = btable_set H ep 2 v"

definition USB_SET_EP_RX_ADDR :: "hw \<Rightarrow> u8 \<Rightarrow> u16 \<Rightarrow> (history, unit) cmd" where
  "USB_SET_EP_RX_ADDR H ep v = btable_set H ep 4 v"

definition USB_SET_EP_RX_COUNT :: "hw \<Rightarrow> u8 \<Rightarrow> u16 \<Rightarrow> (history, unit) cmd" where
  "USB_SET_EP_RX_COUNT H ep v = btable_set H ep 6 v"

definition USB_GET_EP_RX_COUNT :: "hw \<Rightarrow> u8 \<Rightarrow> (history, u16) cmd" where
  "USB_GET_EP_RX_COUNT H ep = btable_get H ep 6"

definition USB_GET_EP_TX_BUFF :: "hw \<Rightarrow> u8 \<Rightarrow> (history, u32) cmd" where
  "USB_GET_EP_TX_BUFF H ep = bindc (btable_get H ep 0) (\<lambda>a. give (USB_PMA_BASE + ucast a * 2))"

definition USB_GET_EP_RX_BUFF :: "hw \<Rightarrow> u8 \<Rightarrow> (history, u32) cmd" where
  "USB_GET_EP_RX_BUFF H ep = bindc (btable_get H ep 4) (\<lambda>a. give (USB_PMA_BASE + ucast a * 2))"

section \<open>The packet memory\<close>

text \<open>\<open>PMA_WORD(base, index)\<close>: logical words live in every other half word.\<close>

definition PMA_WORD :: "u32 \<Rightarrow> nat \<Rightarrow> u32" where
  "PMA_WORD base index = base + 4 * of_nat index"

text \<open>Two words per turn of the loop, then a single word if one is left.\<close>

fun copy_words_to_pm :: "hw \<Rightarrow> u32 \<Rightarrow> nat \<Rightarrow> u8 list \<Rightarrow> nat \<Rightarrow> (history, unit) cmd" where
  "copy_words_to_pm H base idx src (Suc (Suc words)) =
     (if length src < 4 then halt OutOfBounds
      else block
        [store16 H (PMA_WORD base idx) (le16 (src ! 0) (src ! 1)),
         store16 H (PMA_WORD base (idx + 1)) (le16 (src ! 2) (src ! 3)),
         copy_words_to_pm H base (idx + 2) (drop 4 src) words])"
| "copy_words_to_pm H base idx src (Suc 0) =
     (if length src < 2 then halt OutOfBounds
      else store16 H (PMA_WORD base idx) (le16 (src ! 0) (src ! 1)))"
| "copy_words_to_pm H base idx src 0 = skip"

definition st_usbfs_copy_to_pm :: "hw \<Rightarrow> u32 \<Rightarrow> u8 list \<Rightarrow> u16 \<Rightarrow> (history, unit) cmd" where
  "st_usbfs_copy_to_pm H vPM buf len =
     (if len = 0 then skip
      else let n = unat len; words = n div 2 in
        block
          [copy_words_to_pm H vPM 0 buf words,
           if odd n
           then (if length buf \<le> 2 * words then halt OutOfBounds
                 else store16 H (PMA_WORD vPM words) (ucast (buf ! (2 * words))))
           else skip])"

text \<open>The bytes stored into the destination, in order.\<close>

fun copy_words_from_pm :: "hw \<Rightarrow> u32 \<Rightarrow> nat \<Rightarrow> nat \<Rightarrow> (history, u8 list) cmd" where
  "copy_words_from_pm H base idx (Suc (Suc words)) =
     bindc (load16 H (PMA_WORD base idx)) (\<lambda>w0.
     bindc (load16 H (PMA_WORD base (idx + 1))) (\<lambda>w1.
     bindc (copy_words_from_pm H base (idx + 2) words) (\<lambda>bs.
     give (bytes16 w0 @ bytes16 w1 @ bs))))"
| "copy_words_from_pm H base idx (Suc 0) =
     bindc (load16 H (PMA_WORD base idx)) (\<lambda>w. give (bytes16 w))"
| "copy_words_from_pm H base idx 0 = give []"

definition st_usbfs_copy_from_pm :: "hw \<Rightarrow> u32 \<Rightarrow> u16 \<Rightarrow> (history, u8 list) cmd" where
  "st_usbfs_copy_from_pm H vPM len =
     (let n = unat len; words = n div 2 in
      bindc (copy_words_from_pm H vPM 0 words) (\<lambda>bs.
        if odd n then bindc (load8 H (PMA_WORD vPM words)) (\<lambda>b. give (bs @ [b]))
        else give bs))"

section \<open>What the toggle macros do to an endpoint register\<close>

text \<open>
  The documented effect of a write to an endpoint register (RM0008): a one written to a
  toggle bit inverts it, a zero written to a CTR bit clears it, SETUP is read-only, the
  other bits take the value written.
\<close>

definition ep_write :: "u16 \<Rightarrow> u16 \<Rightarrow> u16" where
  "ep_write old v =
     ((old XOR v) AND 0x7070) OR (old AND v AND 0x8080) OR (old AND 0x0800) OR (v AND 0x070F)"

lemma upto_16: "n < 16 \<Longrightarrow> n \<in> {0, 1, 2, 3, 4, 5, 6, 7, 8, 9, 10, 11, 12, 13, 14, 15 :: nat}"
  by (simp add: numeral_eq_Suc less_Suc_eq)

lemma word16_eqI:
  fixes v w :: u16
  assumes "\<And>n. n \<in> {0, 1, 2, 3, 4, 5, 6, 7, 8, 9, 10, 11, 12, 13, 14, 15} \<Longrightarrow> bit v n = bit w n"
  shows "v = w"
  by (rule bit_word_eqI) (use assms upto_16 in simp)

lemma ep_set_rx_stat:
  "ep_write r (toggle_value r USB_EP_RX_STAT_TOG_MSK (s AND USB_EP_RX_STAT)
      (USB_EP_RX_CTR OR USB_EP_TX_CTR)) =
   (r AND NOT USB_EP_RX_STAT) OR (s AND USB_EP_RX_STAT)"
  by (rule word16_eqI)
    (auto simp: ep_write_def toggle_value_def ep_bits bit_or_iff bit_and_iff bit_xor_iff bit_not_iff)

lemma ep_set_tx_stat:
  "ep_write r (toggle_value r USB_EP_TX_STAT_TOG_MSK (s AND USB_EP_TX_STAT)
      (USB_EP_RX_CTR OR USB_EP_TX_CTR)) =
   (r AND NOT USB_EP_TX_STAT) OR (s AND USB_EP_TX_STAT)"
  by (rule word16_eqI)
    (auto simp: ep_write_def toggle_value_def ep_bits bit_or_iff bit_and_iff bit_xor_iff bit_not_iff)

lemma ep_clr_rx_ctr:
  "ep_write r ((r AND USB_EP_NTOGGLE_MSK AND NOT USB_EP_RX_CTR) OR USB_EP_TX_CTR) =
   r AND NOT USB_EP_RX_CTR"
  by (rule word16_eqI)
    (auto simp: ep_write_def ep_bits bit_or_iff bit_and_iff bit_xor_iff bit_not_iff)

lemma ep_clr_tx_ctr:
  "ep_write r ((r AND USB_EP_NTOGGLE_MSK AND NOT USB_EP_TX_CTR) OR USB_EP_RX_CTR) =
   r AND NOT USB_EP_TX_CTR"
  by (rule word16_eqI)
    (auto simp: ep_write_def ep_bits bit_or_iff bit_and_iff bit_xor_iff bit_not_iff)

lemma ep_clr_dtog:
  "ep_write r (r AND (USB_EP_NTOGGLE_MSK OR USB_EP_TX_DTOG)) = r AND NOT USB_EP_TX_DTOG"
  "ep_write r (r AND (USB_EP_NTOGGLE_MSK OR USB_EP_RX_DTOG)) = r AND NOT USB_EP_RX_DTOG"
  by (rule word16_eqI,
    auto simp: ep_write_def ep_bits bit_or_iff bit_and_iff bit_xor_iff bit_not_iff)+

end
