(* ===== verification/UsbDesc.thy ===== *)
theory UsbDesc
  imports UsbTypes
begin

text \<open>
  The constant data the device presents: the descriptors of \<open>Core/Src/usb.c\<close> (records with
  their packed byte layout), the descriptor strings of \<open>Core/Src/main.c\<close> for every
  configuration, the compatible-ID descriptor for Windows, and the serial number made from
  the unique device ID.
\<close>

definition USB_DT_DEVICE :: u8 where "USB_DT_DEVICE = 1"
definition USB_DT_CONFIGURATION :: u8 where "USB_DT_CONFIGURATION = 2"
definition USB_DT_STRING :: u8 where "USB_DT_STRING = 3"
definition USB_DT_INTERFACE :: u8 where "USB_DT_INTERFACE = 4"
definition DFU_FUNCTIONAL :: u8 where "DFU_FUNCTIONAL = 0x21"
definition USB_DFU_CAN_DOWNLOAD :: u8 where "USB_DFU_CAN_DOWNLOAD = 0x01"
definition USB_DFU_CAN_UPLOAD :: u8 where "USB_DFU_CAN_UPLOAD = 0x02"
definition USB_DFU_WILL_DETACH :: u8 where "USB_DFU_WILL_DETACH = 0x08"
definition USB_LANGID_ENGLISH_US :: u16 where "USB_LANGID_ENGLISH_US = 0x409"
definition USB_VID :: u16 where "USB_VID = 0x0483"
definition USB_PID :: u16 where "USB_PID = 0xDF11"

section \<open>Device descriptor\<close>

record usb_device_descriptor =
  bLength :: u8
  bDescriptorType :: u8
  bcdUSB :: u16
  bDeviceClass :: u8
  bDeviceSubClass :: u8
  bDeviceProtocol :: u8
  bMaxPacketSize0 :: u8
  idVendor :: u16
  idProduct :: u16
  bcdDevice :: u16
  iManufacturer :: u8
  iProduct :: u8
  iSerialNumber :: u8
  bNumConfigurations :: u8

definition bytes_of_device :: "usb_device_descriptor \<Rightarrow> u8 list" where
  "bytes_of_device d =
     [bLength d, bDescriptorType d] @ bytes16 (bcdUSB d) @
     [bDeviceClass d, bDeviceSubClass d, bDeviceProtocol d, bMaxPacketSize0 d] @
     bytes16 (idVendor d) @ bytes16 (idProduct d) @ bytes16 (bcdDevice d) @
     [iManufacturer d, iProduct d, iSerialNumber d, bNumConfigurations d]"

definition dev_desc :: usb_device_descriptor where
  "dev_desc =
     \<lparr>bLength = 18, bDescriptorType = USB_DT_DEVICE, bcdUSB = 0x0200, bDeviceClass = 0,
      bDeviceSubClass = 0, bDeviceProtocol = 0, bMaxPacketSize0 = 64, idVendor = USB_VID,
      idProduct = USB_PID, bcdDevice = 0x0200, iManufacturer = 1, iProduct = 2,
      iSerialNumber = 3, bNumConfigurations = 1\<rparr>"

section \<open>Configuration descriptor\<close>

record usb_config_descriptor =
  bLength :: u8
  bDescriptorType :: u8
  wTotalLength :: u16
  bNumInterfaces :: u8
  bConfigurationValue :: u8
  iConfiguration :: u8
  bmAttributes :: u8
  bMaxPower :: u8

definition bytes_of_config :: "usb_config_descriptor \<Rightarrow> u8 list" where
  "bytes_of_config d =
     [bLength d, bDescriptorType d] @ bytes16 (wTotalLength d) @
     [bNumInterfaces d, bConfigurationValue d, iConfiguration d, bmAttributes d, bMaxPower d]"

definition config_part :: usb_config_descriptor where
  "config_part =
     \<lparr>bLength = 9, bDescriptorType = USB_DT_CONFIGURATION, wTotalLength = 27,
      bNumInterfaces = 1, bConfigurationValue = 1, iConfiguration = 5, bmAttributes = 0xC0,
      bMaxPower = 0x32\<rparr>"

record usb_interface_descriptor =
  bLength :: u8
  bDescriptorType :: u8
  bInterfaceNumber :: u8
  bAlternateSetting :: u8
  bNumEndpoints :: u8
  bInterfaceClass :: u8
  bInterfaceSubClass :: u8
  bInterfaceProtocol :: u8
  iInterface :: u8

definition bytes_of_interface :: "usb_interface_descriptor \<Rightarrow> u8 list" where
  "bytes_of_interface d =
     [bLength d, bDescriptorType d, bInterfaceNumber d, bAlternateSetting d, bNumEndpoints d,
      bInterfaceClass d, bInterfaceSubClass d, bInterfaceProtocol d, iInterface d]"

definition interface_part :: usb_interface_descriptor where
  "interface_part =
     \<lparr>bLength = 9, bDescriptorType = USB_DT_INTERFACE, bInterfaceNumber = 0,
      bAlternateSetting = 0, bNumEndpoints = 0, bInterfaceClass = 0xFE, bInterfaceSubClass = 1,
      bInterfaceProtocol = 2, iInterface = 4\<rparr>"

record usb_dfu_descriptor =
  bLength :: u8
  bDescriptorType :: u8
  bmAttributes :: u8
  wDetachTimeout :: u16
  wTransferSize :: u16
  bcdDFUVersion :: u16

definition bytes_of_dfu :: "usb_dfu_descriptor \<Rightarrow> u8 list" where
  "bytes_of_dfu d =
     [bLength d, bDescriptorType d, bmAttributes d] @ bytes16 (wDetachTimeout d) @
     bytes16 (wTransferSize d) @ bytes16 (bcdDFUVersion d)"

definition dfu_part_desc :: "config \<Rightarrow> usb_dfu_descriptor" where
  "dfu_part_desc C =
     \<lparr>bLength = 9, bDescriptorType = DFU_FUNCTIONAL,
      bmAttributes = (if enable_dfu_upload C then USB_DFU_CAN_UPLOAD else 0)
        OR USB_DFU_CAN_DOWNLOAD OR USB_DFU_WILL_DETACH,
      wDetachTimeout = 255, wTransferSize = of_nat DFU_TRANSFER_SIZE, bcdDFUVersion = 0x011A\<rparr>"

text \<open>The three parts as one packed object.\<close>

definition config_desc :: "config \<Rightarrow> u8 list" where
  "config_desc C = bytes_of_config config_part @ bytes_of_interface interface_part @
     bytes_of_dfu (dfu_part_desc C)"

definition winusb_desc :: "u8 list" where
  "winusb_desc =
     [0x28, 0x00, 0x00, 0x00, 0x00, 0x01, 0x04, 0x00, 0x01,
      0x00, 0x00, 0x00, 0x00, 0x00, 0x00, 0x00, 0x00, 0x01,
      0x57, 0x49, 0x4E, 0x55, 0x53, 0x42, 0x00, 0x00,
      0x00, 0x00, 0x00, 0x00, 0x00, 0x00, 0x00, 0x00,
      0x00, 0x00, 0x00, 0x00, 0x00, 0x00]"

section \<open>Strings\<close>

text \<open>A C string: its characters and the terminating zero.\<close>

definition cstr :: "string \<Rightarrow> u8 list" where
  "cstr s = map of_char s @ [0]"

definition winusbstr :: "u8 list" where
  "winusbstr = cstr ''MSFT100A''"

text \<open>\<open>while (*s++) ret++;\<close>, \<open>None\<close> when it runs off the array\<close>

fun strlen :: "u8 list \<Rightarrow> nat option" where
  "strlen [] = None"
| "strlen (c # cs) = (if c = 0 then Some 0 else map_option Suc (strlen cs))"

text \<open>\<open>STR(n)\<close> for a decimal number\<close>

fun nat_str :: "nat \<Rightarrow> string" where
  "nat_str n = (if n < 10 then [char_of (48 + n)] else nat_str (n div 10) @ [char_of (48 + n mod 10)])"

declare nat_str.simps [simp del]

definition version_str :: "config \<Rightarrow> string" where
  "version_str C = (if enable_spi_sram_image C then ''02.00'' else ''01.00'')"

definition usb_strings :: "config \<Rightarrow> u8 list \<Rightarrow> u8 list list" where
  "usb_strings C serial_no =
     [cstr ''ESTELAR'',
      cstr (''DFU bootloader ['' @ version_str C @ '']''),
      serial_no,
      cstr ''@Internal Flash /0x08000000/8*001Ka,120*001Kg'',
      cstr (''Bootloader config: '' @
        (case enable_watchdog C of None \<Rightarrow> [] | Some n \<Rightarrow> ''WtDg['' @ nat_str n @ ''s] '') @
        (if enable_safewrite C then ''SafeWr '' else []) @
        (if enable_writeprot C then ''ROboot '' else []) @
        (if enable_protections C then ''RDO/DBG ROboot '' else []) @
        (if enable_checksum C then ''FW-CRC '' else []))]"

section \<open>Serial number\<close>

definition hcharset :: string where "hcharset = ''0123456789ABCDEF''"

definition hex_digit :: "u8 \<Rightarrow> u8" where
  "hex_digit b = of_char (hcharset ! unat (b AND 0xF))"

text \<open>
  \<open>s[i] = hcharset[(*unique_id >> 4) & 0xF]; s[i+1] = hcharset[*unique_id++ & 0xF];\<close> for
  twelve bytes, each read twice
\<close>

definition unique_id :: u32 where [reg_defs]: "unique_id = 0x1FFFF7E8"

primrec unique_id_digits :: "hw \<Rightarrow> u32 \<Rightarrow> nat \<Rightarrow> (history, u8 list) cmd" where
  "unique_id_digits H a 0 = give []"
| "unique_id_digits H a (Suc n) =
     bindc (load8 H a) (\<lambda>b1. bindc (load8 H a) (\<lambda>b2.
     bindc (unique_id_digits H (a + 1) n) (\<lambda>ds.
     give (hex_digit (drop_bit 4 b1) # hex_digit b2 # ds))))"

definition get_dev_unique_id :: "hw \<Rightarrow> (history, u8 list) cmd" where
  "get_dev_unique_id H = unique_id_digits H unique_id 12"

section \<open>Lengths\<close>

lemma length_device: "length (bytes_of_device d) = 18"
  by (simp add: bytes_of_device_def)

lemma length_config: "length (config_desc C) = 27"
  by (simp add: config_desc_def bytes_of_config_def bytes_of_interface_def bytes_of_dfu_def)

text \<open>The sizes the descriptors declare are the sizes that are sent.\<close>

lemma declared_lengths:
  "length (bytes_of_device dev_desc) = unat (usb_device_descriptor.bLength dev_desc)"
  "length (config_desc C) = unat (wTotalLength config_part)"
  "length (bytes_of_config config_part) = unat (usb_config_descriptor.bLength config_part)"
  "length (bytes_of_interface interface_part) = unat (usb_interface_descriptor.bLength interface_part)"
  "length (bytes_of_dfu (dfu_part_desc C)) = unat (usb_dfu_descriptor.bLength (dfu_part_desc C))"
  "length winusb_desc = unat (le32 (winusb_desc ! 0) (winusb_desc ! 1) (winusb_desc ! 2) (winusb_desc ! 3))"
  by (simp_all add: length_device length_config dev_desc_def config_part_def interface_part_def
      dfu_part_desc_def bytes_of_config_def bytes_of_interface_def bytes_of_dfu_def winusb_desc_def
      le32_def)

lemma strlen_takeWhile:
  "0 \<in> set s \<Longrightarrow> strlen s = Some (length (takeWhile (\<lambda>c. c \<noteq> 0) s))"
  by (induction s) auto

lemma strlen_SomeD: "strlen s = Some n \<Longrightarrow> n < length s \<and> s ! n = 0 \<and> (\<forall>i < n. s ! i \<noteq> 0)"
proof (induction s arbitrary: n)
  case (Cons c cs)
  show ?case
  proof (cases "c = 0")
    case False
    with Cons.prems obtain k where k: "n = Suc k" "strlen cs = Some k" by auto
    from Cons.IH [OF k(2)] k False show ?thesis by (auto simp: less_Suc_eq_0_disj)
  qed (use Cons.prems in auto)
qed simp

end
