(* ===== verification/Usb.thy ===== *)
theory Usb
  imports Dfu UsbRegs UsbDesc
begin

text \<open>
  The control endpoint of \<open>Core/Src/usb.c\<close>: endpoint primitives, the control transfer
  state machine, the standard requests, the dispatch to the DFU class, endpoint set-up
  and the polling routine. The state holds the file's global variables beside the state
  of the DFU class.
\<close>

datatype usb_fsm =
    IDLE | STALLED
  | DATA_IN | LAST_DATA_IN | STATUS_IN
  | DATA_OUT | LAST_DATA_OUT | STATUS_OUT

record usb =
  dfu_part :: dfu
  usb_fsm_state :: usb_fsm
  datasize :: u16
  dataoff :: u16
  usb_pm_top :: u16
  usb_needs_zlp :: u8
  usb_req :: usb_setup_data
  usb_force_nak :: "u8 list"
  usb_complete_cb :: bool
  serial_no :: "u8 list"

text \<open>The only callback is \<open>usbdfu_getstatus_complete\<close>; \<open>False\<close> is the null pointer.\<close>

definition usb_boot :: "history \<Rightarrow> usb" where
  "usb_boot h =
     \<lparr>dfu_part = dfu_init h, usb_fsm_state = IDLE, datasize = 0, dataoff = 0, usb_pm_top = 0,
      usb_needs_zlp = 0, usb_req = setup_of_bytes (replicate 8 0),
      usb_force_nak = replicate 8 0, usb_complete_cb = False, serial_no = replicate 25 0\<rparr>"

definition on_dfu :: "(dfu, 'a) cmd \<Rightarrow> (usb, 'a) cmd" where
  "on_dfu c = zoom dfu_part (\<lambda>d s. s\<lparr>dfu_part := d\<rparr>) c"

definition ubus :: "(history, 'a) cmd \<Rightarrow> (usb, 'a) cmd" where
  "ubus c = on_dfu (bus c)"

definition set_fsm :: "usb_fsm \<Rightarrow> (usb, unit) cmd" where
  "set_fsm q = modc (\<lambda>s. s\<lparr>usb_fsm_state := q\<rparr>)"

definition set_datasize :: "u16 \<Rightarrow> (usb, unit) cmd" where
  "set_datasize n = modc (\<lambda>s. s\<lparr>datasize := n\<rparr>)"

definition ctl_buffer :: "usb \<Rightarrow> u8 list" where
  "ctl_buffer s = usbd_control_buffer (dfu_part s)"

text \<open>Stores into the control buffer from index \<open>off\<close> on.\<close>

definition put_ctl :: "nat \<Rightarrow> u8 list \<Rightarrow> (usb, unit) cmd" where
  "put_ctl off bs = bindc (getc (\<lambda>s. length (ctl_buffer s))) (\<lambda>n.
     if off + length bs \<le> n
     then on_dfu (modc (\<lambda>d. d\<lparr>usbd_control_buffer := overwrite off bs (usbd_control_buffer d)\<rparr>))
     else halt OutOfBounds)"

section \<open>Initialisation\<close>

definition USB_RCC_APB1ENR :: u32 where [reg_defs]: "USB_RCC_APB1ENR = 0x4002101C"

definition usb_init :: "hw \<Rightarrow> (history, unit) cmd" where
  "usb_init H = block
     [or32 H USB_RCC_APB1ENR (push_bit 23 1),
      SET_REG H USB_CNTR_REG 0,
      SET_REG H USB_BTABLE_REG 0,
      SET_REG H USB_ISTR_REG 0,
      SET_REG H USB_CNTR_REG (USB_CNTR_RESETM OR USB_CNTR_CTRM OR USB_CNTR_SUSPM OR USB_CNTR_WKUPM)]"

definition USBD_PM_TOP :: u16 where "USBD_PM_TOP = 0x40"

section \<open>Packets\<close>


text \<open>The number of bytes sent: 0 when the previous packet is still pending.\<close>

definition usbd_ep_write_packet :: "hw \<Rightarrow> u8 \<Rightarrow> u8 list \<Rightarrow> u16 \<Rightarrow> (history, u16) cmd" where
  "usbd_ep_write_packet H addr0 buf len =
     (let addr = addr0 AND 0x7F in
      bindc (load32 H (USB_EP_REG addr)) (\<lambda>r.
        if r AND ucast USB_EP_TX_STAT = ucast USB_EP_TX_STAT_VALID then give 0
        else bindc (USB_GET_EP_TX_BUFF H addr) (\<lambda>vPM.
             bindc (block
               [st_usbfs_copy_to_pm H vPM buf len,
                USB_SET_EP_TX_COUNT H addr len,
                USB_SET_EP_TX_STAT H addr USB_EP_TX_STAT_VALID]) (\<lambda>_. give len))))"

text \<open>\<open>MIN(USB_GET_EP_RX_COUNT(addr) & 0x3ff, len)\<close>: the macro reads the count again.\<close>

definition rx_length :: "hw \<Rightarrow> u8 \<Rightarrow> u16 \<Rightarrow> (history, u16) cmd" where
  "rx_length H addr len = bindc (USB_GET_EP_RX_COUNT H addr) (\<lambda>c.
     if c AND 0x3ff < len
     then bindc (USB_GET_EP_RX_COUNT H addr) (\<lambda>c'. give (c' AND 0x3ff))
     else give len)"

text \<open>The transfer out of the packet memory: the length and the bytes stored.\<close>

definition ep_fetch :: "hw \<Rightarrow> u8 \<Rightarrow> u16 \<Rightarrow> (history, u16 \<times> u8 list) cmd" where
  "ep_fetch H addr len =
     bindc (rx_length H addr len) (\<lambda>n.
     bindc (USB_GET_EP_RX_BUFF H addr) (\<lambda>vPM.
     bindc (st_usbfs_copy_from_pm H vPM n) (\<lambda>bs.
     bindc (USB_CLR_EP_RX_CTR H addr) (\<lambda>_. give (n, bs)))))"

text \<open>\<open>if (!usb_force_nak[addr]) USB_SET_EP_RX_STAT(addr, USB_EP_RX_STAT_VALID);\<close>\<close>

definition ep_rearm :: "hw \<Rightarrow> u8 \<Rightarrow> (usb, unit) cmd" where
  "ep_rearm H addr = bindc (getc usb_force_nak) (\<lambda>nak.
     if length nak \<le> unat addr then halt OutOfBounds
     else if nak ! unat addr = 0 then ubus (USB_SET_EP_RX_STAT H addr USB_EP_RX_STAT_VALID)
     else skip)"

text \<open>The length read and the bytes stored into the caller's buffer.\<close>

definition usbd_ep_read_packet :: "hw \<Rightarrow> u8 \<Rightarrow> u16 \<Rightarrow> (usb, u16 \<times> u8 list) cmd" where
  "usbd_ep_read_packet H addr len =
     bindc (ubus (load32 H (USB_EP_REG addr))) (\<lambda>r.
       if r AND ucast USB_EP_RX_STAT = ucast USB_EP_RX_STAT_VALID then give (0, [])
       else bindc (ubus (ep_fetch H addr len)) (\<lambda>(n, bs).
            bindc (ep_rearm H addr) (\<lambda>_. give (n, bs))))"

definition usbd_ep_nak_set :: "hw \<Rightarrow> u8 \<Rightarrow> u8 \<Rightarrow> (usb, unit) cmd" where
  "usbd_ep_nak_set H addr nak =
     (if addr AND 0x80 \<noteq> 0 then skip
      else bindc (getc (\<lambda>s. length (usb_force_nak s))) (\<lambda>n.
        if n \<le> unat addr then halt OutOfBounds
        else bindc (modc (\<lambda>s. s\<lparr>usb_force_nak := (usb_force_nak s)[unat addr := nak]\<rparr>)) (\<lambda>_.
             ubus (USB_SET_EP_RX_STAT H addr
               (if nak \<noteq> 0 then USB_EP_RX_STAT_NAK else USB_EP_RX_STAT_VALID)))))"

definition ep_stall_set :: "hw \<Rightarrow> u8 \<Rightarrow> bool \<Rightarrow> (history, unit) cmd" where
  "ep_stall_set H addr stall =
     (let tx = (if stall then USB_EP_TX_STAT_STALL else USB_EP_TX_STAT_NAK) in
      block
        [if addr = 0 then USB_SET_EP_TX_STAT H addr tx else skip,
         if addr AND 0x80 \<noteq> 0
         then (let a = addr AND 0x7F in block
           [USB_SET_EP_TX_STAT H a tx,
            if \<not> stall then USB_CLR_EP_TX_DTOG H a else skip])
         else block
           [if \<not> stall then USB_CLR_EP_RX_DTOG H addr else skip,
            USB_SET_EP_RX_STAT H addr (if stall then USB_EP_RX_STAT_STALL else USB_EP_RX_STAT_VALID)]])"

definition ep_stall_get :: "hw \<Rightarrow> u8 \<Rightarrow> (history, u8) cmd" where
  "ep_stall_get H addr =
     (if addr AND 0x80 \<noteq> 0
      then bindc (load32 H (USB_EP_REG (addr AND 0x7F))) (\<lambda>r.
             give (if r AND ucast USB_EP_TX_STAT = ucast USB_EP_TX_STAT_STALL then 1 else 0))
      else bindc (load32 H (USB_EP_REG addr)) (\<lambda>r.
             give (if r AND ucast USB_EP_RX_STAT = ucast USB_EP_RX_STAT_STALL then 1 else 0)))"

definition stall_transaction :: "hw \<Rightarrow> (usb, unit) cmd" where
  "stall_transaction H = block [ubus (ep_stall_set H 0 True), set_fsm IDLE]"

section \<open>Data stages\<close>

definition max_packet :: nat where
  "max_packet = unat (bMaxPacketSize0 dev_desc)"

definition usb_control_send_chunk :: "hw \<Rightarrow> (usb, unit) cmd" where
  "usb_control_send_chunk H =
     bindc (getc (\<lambda>s. (datasize s, drop (unat (dataoff s)) (ctl_buffer s)))) (\<lambda>(n, data).
       if max_packet < unat n
       then block
         [bindc (ubus (usbd_ep_write_packet H 0 data (of_nat max_packet))) (\<lambda>_. skip),
          set_fsm DATA_IN,
          modc (\<lambda>s. s\<lparr>dataoff := dataoff s + of_nat max_packet\<rparr>),
          modc (\<lambda>s. s\<lparr>datasize := datasize s - of_nat max_packet\<rparr>)]
       else block
         [bindc (ubus (usbd_ep_write_packet H 0 data n)) (\<lambda>_. skip),
          bindc (getc usb_needs_zlp) (\<lambda>z. set_fsm (if z \<noteq> 0 then DATA_IN else LAST_DATA_IN)),
          modc (\<lambda>s. s\<lparr>usb_needs_zlp := 0\<rparr>),
          set_datasize 0])"

text \<open>\<open>None\<close> is the result -1.\<close>

definition usb_control_recv_chunk :: "hw \<Rightarrow> (usb, u16 option) cmd" where
  "usb_control_recv_chunk H =
     bindc (getc (\<lambda>s. (datasize s,
       word_of_int (min (int max_packet) (uint (wLength (usb_req s)) - uint (datasize s))) :: u16)))
       (\<lambda>(off, packetsize).
     bindc (usbd_ep_read_packet H 0 packetsize) (\<lambda>(n, bs).
     bindc (put_ctl (unat off) bs) (\<lambda>_.
       if n \<noteq> packetsize
       then bindc (stall_transaction H) (\<lambda>_. give None)
       else bindc (modc (\<lambda>s. s\<lparr>datasize := datasize s + n\<rparr>)) (\<lambda>_. give (Some packetsize)))))"

section \<open>Standard requests\<close>

text \<open>\<open>sd->wData[i] = s[i]\<close>: each character as a half word\<close>

definition wide :: "u8 list \<Rightarrow> u8 list" where
  "wide cs = concat (map (\<lambda>c. bytes16 (ucast c)) cs)"

text \<open>\<open>datasize = sd->bLength = n\<close>: the byte truncates the length.\<close>

definition set_blength :: "nat \<Rightarrow> (usb, unit) cmd" where
  "set_blength n = bindc (put_ctl 0 [of_nat n]) (\<lambda>_. set_datasize (ucast (of_nat n :: u8)))"

definition get_string_descriptor :: "config \<Rightarrow> nat \<Rightarrow> (usb, usbd_request_return_codes) cmd" where
  "get_string_descriptor C descr_idx =
     bindc (put_ctl 1 [USB_DT_STRING]) (\<lambda>_.
       if descr_idx = 0
       then bindc (put_ctl 2 (bytes16 USB_LANGID_ENGLISH_US)) (\<lambda>_.
            bindc (set_blength (1 + 1 + 2)) (\<lambda>_. give USBD_REQ_HANDLED))
       else if winusb_support C \<and> descr_idx = 0xEE
       then bindc (put_ctl 2 (wide winusbstr)) (\<lambda>_.
            bindc (set_blength (1 + 1 + length winusbstr * 2)) (\<lambda>_. give USBD_REQ_HANDLED))
       else bindc (getc (\<lambda>s. (usb_strings C (serial_no s), wIndex (usb_req s)))) (\<lambda>(strings, index).
         let array_idx = descr_idx - 1 in
         if length strings \<le> array_idx then give USBD_REQ_NOTSUPP
         else if index \<noteq> USB_LANGID_ENGLISH_US then give USBD_REQ_NOTSUPP
         else (case strlen (strings ! array_idx) of
             None \<Rightarrow> halt OutOfBounds
           | Some numchars \<Rightarrow>
               bindc (set_blength (numchars * 2 + 1 + 1)) (\<lambda>_.
               bindc (put_ctl 2 (wide (take numchars (strings ! array_idx)))) (\<lambda>_.
               give USBD_REQ_HANDLED)))))"

definition usb_standard_get_descriptor :: "config \<Rightarrow> (usb, usbd_request_return_codes) cmd" where
  "usb_standard_get_descriptor C =
     bindc (getc (\<lambda>s. (unat (wValue (usb_req s) AND 0xFF), unat (drop_bit 8 (wValue (usb_req s))))))
       (\<lambda>(descr_idx, descr_type).
       if descr_type = unat USB_DT_DEVICE
       then bindc (put_ctl 0 (bytes_of_device dev_desc)) (\<lambda>_.
            bindc (set_datasize (of_nat (length (bytes_of_device dev_desc)))) (\<lambda>_.
            give USBD_REQ_HANDLED))
       else if descr_type = unat USB_DT_CONFIGURATION
       then bindc (put_ctl 0 (config_desc C)) (\<lambda>_.
            bindc (set_datasize (of_nat (length (config_desc C)))) (\<lambda>_.
            give USBD_REQ_HANDLED))
       else if descr_type = unat USB_DT_STRING then get_string_descriptor C descr_idx
       else give USBD_REQ_NOTSUPP)"

definition usbd_standard_request_device :: "config \<Rightarrow> hw \<Rightarrow> (usb, usbd_request_return_codes) cmd" where
  "usbd_standard_request_device C H = bindc (getc usb_req) (\<lambda>req.
     if bRequest req = USB_REQ_SET_ADDRESS then
       (if bmRequestType req \<noteq> 0 \<or> wValue req \<ge> 128 then give USBD_REQ_NOTSUPP
        else give USBD_REQ_HANDLED)
     else if bRequest req = USB_REQ_SET_CONFIGURATION then
       (if wValue req = ucast (bConfigurationValue config_part)
        then bindc (ubus (block (concat (map (\<lambda>i.
                 [USB_SET_EP_TX_STAT H (of_nat i) USB_EP_TX_STAT_DISABLED,
                  USB_SET_EP_RX_STAT H (of_nat i) USB_EP_RX_STAT_DISABLED]) [1..<8])))) (\<lambda>_.
             bindc (modc (\<lambda>s. s\<lparr>usb_pm_top := USBD_PM_TOP + 2 * of_nat max_packet\<rparr>)) (\<lambda>_.
             give USBD_REQ_HANDLED))
        else give USBD_REQ_NOTSUPP)
     else if bRequest req = USB_REQ_GET_CONFIGURATION then
       bindc (put_ctl 0 [1]) (\<lambda>_. bindc (set_datasize 1) (\<lambda>_. give USBD_REQ_HANDLED))
     else if bRequest req = USB_REQ_GET_DESCRIPTOR then usb_standard_get_descriptor C
     else if bRequest req = USB_REQ_GET_STATUS then
       bindc (set_datasize 2) (\<lambda>_. bindc (put_ctl 0 [0, 0]) (\<lambda>_. give USBD_REQ_HANDLED))
     else give USBD_REQ_NOTSUPP)"

text \<open>GET_STATUS leaves the switch by its \<open>break\<close>, with the reply prepared.\<close>

definition usbd_standard_request_interface :: "(usb, usbd_request_return_codes) cmd" where
  "usbd_standard_request_interface = bindc (getc usb_req) (\<lambda>req.
     if bRequest req = USB_REQ_GET_INTERFACE then
       bindc (put_ctl 0 [1]) (\<lambda>_. bindc (set_datasize 1) (\<lambda>_. give USBD_REQ_HANDLED))
     else if bRequest req = USB_REQ_SET_INTERFACE then
       bindc (set_datasize 0) (\<lambda>_. give USBD_REQ_HANDLED)
     else if bRequest req = USB_REQ_GET_STATUS then
       bindc (set_datasize 2) (\<lambda>_. bindc (put_ctl 0 [0, 0]) (\<lambda>_. give USBD_REQ_NOTSUPP))
     else give USBD_REQ_NOTSUPP)"

definition usbd_standard_request_endpoint :: "hw \<Rightarrow> (usb, usbd_request_return_codes) cmd" where
  "usbd_standard_request_endpoint H = bindc (getc usb_req) (\<lambda>req.
     if bRequest req = USB_REQ_CLEAR_FEATURE \<or> bRequest req = USB_REQ_SET_FEATURE then
       (if wValue req = USB_FEAT_ENDPOINT_HALT
        then bindc (ubus (ep_stall_set H (ucast (wIndex req)) (bRequest req = USB_REQ_SET_FEATURE))) (\<lambda>_.
             give USBD_REQ_HANDLED)
        else give USBD_REQ_NOTSUPP)
     else if bRequest req = USB_REQ_GET_STATUS then
       bindc (ubus (ep_stall_get H (ucast (wIndex req)))) (\<lambda>st.
       bindc (put_ctl 0 [if st \<noteq> 0 then 1 else 0, 0]) (\<lambda>_.
       bindc (set_datasize 2) (\<lambda>_. give USBD_REQ_HANDLED)))
     else give USBD_REQ_NOTSUPP)"

definition usbd_standard_request :: "config \<Rightarrow> hw \<Rightarrow> (usb, usbd_request_return_codes) cmd" where
  "usbd_standard_request C H = bindc (getc (\<lambda>s. bmRequestType (usb_req s))) (\<lambda>ty.
     if ty AND USB_REQ_TYPE_TYPE \<noteq> USB_REQ_TYPE_STANDARD then give USBD_REQ_NOTSUPP
     else if ty AND USB_REQ_TYPE_RECIPIENT = USB_REQ_TYPE_DEVICE then usbd_standard_request_device C H
     else if ty AND USB_REQ_TYPE_RECIPIENT = USB_REQ_TYPE_INTERFACE then usbd_standard_request_interface
     else if ty AND USB_REQ_TYPE_RECIPIENT = USB_REQ_TYPE_ENDPOINT then usbd_standard_request_endpoint H
     else give USBD_REQ_NOTSUPP)"

section \<open>Dispatch\<close>

definition class_request :: "config \<Rightarrow> hw \<Rightarrow> (usb, usbd_request_return_codes) cmd" where
  "class_request C H = bindc (getc usb_req) (\<lambda>req.
     if bmRequestType req AND (USB_REQ_TYPE_TYPE OR USB_REQ_TYPE_RECIPIENT) =
       USB_REQ_TYPE_CLASS OR USB_REQ_TYPE_INTERFACE
     then bindc (set_datasize (wLength req)) (\<lambda>_.
          bindc (on_dfu (usbdfu_control_request C H req (wLength req))) (\<lambda>(result, n, cb).
          bindc (modc (\<lambda>s. s\<lparr>datasize := n, usb_complete_cb := usb_complete_cb s \<or> cb\<rparr>)) (\<lambda>_.
          give result)))
     else give USBD_REQ_NEXT_CALLBACK)"

definition usb_control_request_dispatch :: "config \<Rightarrow> hw \<Rightarrow> (usb, usbd_request_return_codes) cmd" where
  "usb_control_request_dispatch C H = bindc (class_request C H) (\<lambda>result.
     if result = USBD_REQ_HANDLED \<or> result = USBD_REQ_NOTSUPP then give result
     else bindc (getc usb_req) (\<lambda>req.
       if winusb_support C \<and> bmRequestType req AND (USB_REQ_TYPE_TYPE OR USB_REQ_TYPE_RECIPIENT) =
           USB_REQ_TYPE_VENDOR OR USB_REQ_TYPE_DEVICE \<and> bRequest req = 0x41
       then bindc (put_ctl 0 winusb_desc) (\<lambda>_.
            bindc (set_datasize (of_nat (length winusb_desc))) (\<lambda>_. give USBD_REQ_HANDLED))
       else usbd_standard_request C H))"

section \<open>The control transfer state machine\<close>

definition needs_zlp :: "u16 \<Rightarrow> u16 \<Rightarrow> nat \<Rightarrow> u8" where
  "needs_zlp len wlen ep_size =
     (if len < wlen then (if len \<noteq> 0 \<and> unat len mod ep_size = 0 then 1 else 0) else 0)"

definition usb_control_setup_read :: "config \<Rightarrow> hw \<Rightarrow> (usb, unit) cmd" where
  "usb_control_setup_read C H = bindc (getc (\<lambda>s. wLength (usb_req s))) (\<lambda>maxdataout.
     bindc (modc (\<lambda>s. s\<lparr>dataoff := 0\<rparr>)) (\<lambda>_.
     bindc (usb_control_request_dispatch C H) (\<lambda>result.
       if result \<noteq> USBD_REQ_NOTSUPP
       then bindc (modc (\<lambda>s. if datasize s > maxdataout then s\<lparr>datasize := maxdataout\<rparr> else s)) (\<lambda>_.
         if maxdataout \<noteq> 0
         then block
           [modc (\<lambda>s. s\<lparr>usb_needs_zlp := needs_zlp (datasize s) maxdataout max_packet\<rparr>),
            usb_control_send_chunk H]
         else block
           [bindc (ubus (usbd_ep_write_packet H 0 [] 0)) (\<lambda>_. skip),
            set_fsm STATUS_IN])
       else stall_transaction H)))"

definition usb_control_setup_write :: "hw \<Rightarrow> (usb, unit) cmd" where
  "usb_control_setup_write H = bindc (getc (\<lambda>s. wLength (usb_req s))) (\<lambda>n.
     if DFU_TRANSFER_SIZE < unat n then stall_transaction H
     else block
       [set_datasize 0,
        set_fsm (if max_packet < unat n then DATA_OUT else LAST_DATA_OUT),
        usbd_ep_nak_set H 0 0])"

definition usbd_control_setup :: "config \<Rightarrow> hw \<Rightarrow> (usb, unit) cmd" where
  "usbd_control_setup C H =
     bindc (modc (\<lambda>s. s\<lparr>usb_complete_cb := False\<rparr>)) (\<lambda>_.
     bindc (usbd_ep_nak_set H 0 1) (\<lambda>_.
     bindc (usbd_ep_read_packet H 0 sizeof_setup) (\<lambda>(n, bs).
     bindc (modc (\<lambda>s. s\<lparr>usb_req := setup_of_bytes (overwrite 0 bs (bytes_of_setup (usb_req s)))\<rparr>)) (\<lambda>_.
       if n \<noteq> sizeof_setup then stall_transaction H
       else bindc (getc usb_req) (\<lambda>req.
         if wLength req = 0 \<or> bmRequestType req AND USB_REQ_TYPE_DIRECTION \<noteq> 0
         then usb_control_setup_read C H
         else usb_control_setup_write H)))))"

text \<open>\<open>if (usb_complete_cb) usb_complete_cb(&usb_req);\<close>\<close>

definition run_complete_cb :: "config \<Rightarrow> hw \<Rightarrow> (usb, unit) cmd" where
  "run_complete_cb C H = bindc (getc (\<lambda>s. (usb_complete_cb s, usb_req s))) (\<lambda>(cb, req).
     if cb then on_dfu (usbdfu_getstatus_complete C H req) else skip)"

definition usbd_control_out :: "config \<Rightarrow> hw \<Rightarrow> (usb, unit) cmd" where
  "usbd_control_out C H = bindc (getc usb_fsm_state) (\<lambda>q. case q of
       DATA_OUT \<Rightarrow> bindc (usb_control_recv_chunk H) (\<lambda>r. case r of
           None \<Rightarrow> skip
         | Some _ \<Rightarrow> bindc (getc (\<lambda>s. uint (wLength (usb_req s)) - uint (datasize s))) (\<lambda>left.
             if left \<le> int max_packet then set_fsm LAST_DATA_OUT else skip))
     | LAST_DATA_OUT \<Rightarrow> bindc (usb_control_recv_chunk H) (\<lambda>r. case r of
           None \<Rightarrow> skip
         | Some _ \<Rightarrow> bindc (usb_control_request_dispatch C H) (\<lambda>result.
             if result \<noteq> USBD_REQ_NOTSUPP
             then block
               [bindc (ubus (usbd_ep_write_packet H 0 [] 0)) (\<lambda>_. skip),
                set_fsm STATUS_IN]
             else stall_transaction H))
     | STATUS_OUT \<Rightarrow> block
         [bindc (usbd_ep_read_packet H 0 0) (\<lambda>_. skip),
          set_fsm IDLE,
          run_complete_cb C H,
          modc (\<lambda>s. s\<lparr>usb_complete_cb := False\<rparr>)]
     | _ \<Rightarrow> stall_transaction H)"

definition usbd_control_in :: "config \<Rightarrow> hw \<Rightarrow> (usb, unit) cmd" where
  "usbd_control_in C H = bindc (getc usb_fsm_state) (\<lambda>q. case q of
       DATA_IN \<Rightarrow> usb_control_send_chunk H
     | LAST_DATA_IN \<Rightarrow> block [set_fsm STATUS_OUT, usbd_ep_nak_set H 0 0]
     | STATUS_IN \<Rightarrow> block
         [run_complete_cb C H,
          bindc (getc usb_req) (\<lambda>req.
            if bmRequestType req = 0 \<and> bRequest req = USB_REQ_SET_ADDRESS
            then ubus (SET_REG H USB_DADDR_REG ((wValue req AND USB_DADDR_ADDR) OR USB_DADDR_EF))
            else skip),
          set_fsm IDLE]
     | _ \<Rightarrow> stall_transaction H)"

section \<open>Endpoint set-up and polling\<close>

definition rx_bufsize :: "u32 \<Rightarrow> u16" where
  "rx_bufsize sz =
     (if sz > 62
      then let sz' = (if sz AND 0x1f \<noteq> 0 then sz - 32 else sz) in ucast (push_bit 5 sz' OR 0x8000)
      else let sz' = (if sz AND 1 \<noteq> 0 then sz + 1 else sz) in ucast (push_bit 10 sz'))"

definition set_ep_rx_bufsize :: "hw \<Rightarrow> u8 \<Rightarrow> u32 \<Rightarrow> (history, unit) cmd" where
  "set_ep_rx_bufsize H ep sz = USB_SET_EP_RX_COUNT H ep (rx_bufsize sz)"

definition typelookup :: "u16 list" where
  "typelookup = [USB_EP_TYPE_CONTROL, USB_EP_TYPE_ISO, USB_EP_TYPE_BULK, USB_EP_TYPE_INTERRUPT]"

definition usbd_ep_setup :: "hw \<Rightarrow> u8 \<Rightarrow> u8 \<Rightarrow> u16 \<Rightarrow> (usb, unit) cmd" where
  "usbd_ep_setup H addr0 ty max_size =
     (if length typelookup \<le> unat ty then halt OutOfBounds
      else let dir = addr0 AND 0x80; addr = addr0 AND 0x7f in block
        [ubus (USB_SET_EP_ADDR H addr (ucast addr)),
         ubus (USB_SET_EP_TYPE H addr (typelookup ! unat ty)),
         if dir \<noteq> 0 \<or> addr = 0
         then block
           [bindc (getc usb_pm_top) (\<lambda>top. ubus (USB_SET_EP_TX_ADDR H addr top)),
            ubus (USB_CLR_EP_TX_DTOG H addr),
            ubus (USB_SET_EP_TX_STAT H addr USB_EP_TX_STAT_NAK),
            modc (\<lambda>s. s\<lparr>usb_pm_top := usb_pm_top s + max_size\<rparr>)]
         else skip,
         if dir = 0
         then block
           [bindc (getc usb_pm_top) (\<lambda>top. ubus (USB_SET_EP_RX_ADDR H addr top)),
            ubus (set_ep_rx_bufsize H addr (ucast max_size)),
            ubus (USB_CLR_EP_RX_DTOG H addr),
            ubus (USB_SET_EP_RX_STAT H addr USB_EP_RX_STAT_VALID),
            modc (\<lambda>s. s\<lparr>usb_pm_top := usb_pm_top s + max_size\<rparr>)]
         else skip])"

definition usb_reset :: "hw \<Rightarrow> (usb, unit) cmd" where
  "usb_reset H = block
     [ubus (CLR_REG_BIT H USB_ISTR_REG USB_ISTR_RESET),
      modc (\<lambda>s. s\<lparr>usb_pm_top := USBD_PM_TOP\<rparr>),
      usbd_ep_setup H 0 USB_ENDPOINT_ATTR_CONTROL (of_nat max_packet),
      ubus (SET_REG H USB_DADDR_REG (0 OR USB_DADDR_EF))]"

definition do_usb_poll :: "config \<Rightarrow> hw \<Rightarrow> (usb, unit) cmd" where
  "do_usb_poll C H = bindc (ubus (GET_REG H USB_ISTR_REG)) (\<lambda>istr.
     if istr AND USB_ISTR_RESET \<noteq> 0 then usb_reset H
     else block
       [if istr AND USB_ISTR_CTR \<noteq> 0
        then (let ep = ucast (istr AND USB_ISTR_EP_ID) in
          if istr AND USB_ISTR_DIR \<noteq> 0
          then bindc (ubus (load32 H (USB_EP_REG ep))) (\<lambda>r.
                 if r AND ucast USB_EP_SETUP \<noteq> 0
                 then usbd_control_setup C H else usbd_control_out C H)
          else block [ubus (USB_CLR_EP_TX_CTR H ep), usbd_control_in C H])
        else skip,
        if istr AND USB_ISTR_SUSP \<noteq> 0 then ubus (CLR_REG_BIT H USB_ISTR_REG USB_ISTR_SUSP) else skip,
        if istr AND USB_ISTR_WKUP \<noteq> 0 then ubus (CLR_REG_BIT H USB_ISTR_REG USB_ISTR_WKUP) else skip,
        if istr AND USB_ISTR_SOF \<noteq> 0 then ubus (CLR_REG_BIT H USB_ISTR_REG USB_ISTR_SOF) else skip,
        ubus (and32 H USB_CNTR_REG (NOT USB_CNTR_SOFM))])"

end
