(* ===== verification/Boot.thy ===== *)
theory Boot
  imports SramImage Watchdog Usb
begin

text \<open>
  \<open>Core/Src/main.c\<close> from reset to the jump into the application or to the main loop: the
  option bytes, the installation of an image staged in the external RAM, the boot
  decision, the clocks, and the start of the USB device. The feature switches are the
  fields of the configuration.
\<close>

definition GPIO_LED_1 :: u16 where "GPIO_LED_1 = 14"
definition GPIO_LED_2 :: u16 where "GPIO_LED_2 = 15"

section \<open>Why the device was reset\<close>

text \<open>The delay loop of the source makes no access.\<close>

definition force_dfu_gpio :: "config \<Rightarrow> hw \<Rightarrow> (history, bool) cmd" where
  "force_dfu_gpio C H =
     (if enable_gpio_dfu_boot C
      then bindc (block
          [rcc_gpio_enable H GPIO_DFU_BOOT_PORT,
           gpio_set_input_pp H GPIO_DFU_BOOT_PORT GPIO_DFU_BOOT_PIN,
           gpio_clear H GPIO_DFU_BOOT_PORT GPIO_DFU_BOOT_PIN]) (\<lambda>_.
        bindc (gpio_read H GPIO_DFU_BOOT_PORT GPIO_DFU_BOOT_PIN) (\<lambda>val.
        bindc (gpio_set_input H GPIO_DFU_BOOT_PORT GPIO_DFU_BOOT_PIN) (\<lambda>_.
        give ((ucast val :: u16) \<noteq> 0))))
      else give False)"

definition RCC_CSR_PINRSTF :: u32 where [reg_defs]: "RCC_CSR_PINRSTF = 0x04000000"
definition RCC_CSR_RMVF :: u32 where [reg_defs]: "RCC_CSR_RMVF = 0x01000000"

text \<open>Low-power, window watchdog, watchdog, software and power-on reset\<close>

definition RCC_CSR_OTHER :: u32 where [reg_defs]: "RCC_CSR_OTHER = 0xF8000000"

definition reset_due_to_pin :: "hw \<Rightarrow> (history, bool) cmd" where
  "reset_due_to_pin H = bindc (load32 H RCC_CSR) (\<lambda>v.
     if v AND RCC_CSR_PINRSTF = 0 then give False
     else bindc (load32 H RCC_CSR) (\<lambda>v'. give (v' AND RCC_CSR_OTHER = 0)))"

section \<open>Clocks\<close>

definition RCC_CR :: u32 where [reg_defs]: "RCC_CR = 0x40021000"
definition RCC_CFGR :: u32 where [reg_defs]: "RCC_CFGR = 0x40021004"
definition FLASH_ACR :: u32 where [reg_defs]: "FLASH_ACR = 0x40022000"

abbreviation (input) RCC_CFGR_HPRE_SYSCLK_NODIV :: u32 where "RCC_CFGR_HPRE_SYSCLK_NODIV \<equiv> 0"
abbreviation (input) RCC_CFGR_PPRE1_HCLK_DIV2 :: u32 where "RCC_CFGR_PPRE1_HCLK_DIV2 \<equiv> 4"
abbreviation (input) RCC_CFGR_PPRE2_HCLK_NODIV :: u32 where "RCC_CFGR_PPRE2_HCLK_NODIV \<equiv> 0"
abbreviation (input) RCC_CFGR_ADCPRE_PCLK2_DIV8 :: u32 where "RCC_CFGR_ADCPRE_PCLK2_DIV8 \<equiv> 3"
abbreviation (input) RCC_CFGR_PLLMUL_PLL_CLK_MUL9 :: u32 where "RCC_CFGR_PLLMUL_PLL_CLK_MUL9 \<equiv> 7"
abbreviation (input) RCC_CFGR_PLLSRC_HSE_CLK :: u32 where "RCC_CFGR_PLLSRC_HSE_CLK \<equiv> 1"
abbreviation (input) RCC_CFGR_PLLXTPRE_HSE_CLK :: u32 where "RCC_CFGR_PLLXTPRE_HSE_CLK \<equiv> 0"
abbreviation (input) RCC_CFGR_SW_SYSCLKSEL_PLLCLK :: u32 where "RCC_CFGR_SW_SYSCLKSEL_PLLCLK \<equiv> 2"
abbreviation (input) RCC_CFGR_SW :: u32 where "RCC_CFGR_SW \<equiv> push_bit 0 3"
abbreviation (input) RCC_CR_HSEON :: u32 where "RCC_CR_HSEON \<equiv> push_bit 16 1"
abbreviation (input) RCC_CR_HSERDY :: u32 where "RCC_CR_HSERDY \<equiv> push_bit 17 1"
abbreviation (input) RCC_CR_PLLON :: u32 where "RCC_CR_PLLON \<equiv> push_bit 24 1"
abbreviation (input) RCC_CR_PLLRDY :: u32 where "RCC_CR_PLLRDY \<equiv> push_bit 25 1"
abbreviation (input) FLASH_ACR_LATENCY :: u32 where "FLASH_ACR_LATENCY \<equiv> 7"
abbreviation (input) FLASH_ACR_LATENCY_2WS :: u32 where "FLASH_ACR_LATENCY_2WS \<equiv> 2"

text \<open>The value composed from the \<open>RCC_CFGR_\<close> constants\<close>

definition cfgr_bits :: u32 where
  "cfgr_bits = push_bit 4 RCC_CFGR_HPRE_SYSCLK_NODIV OR push_bit 8 RCC_CFGR_PPRE1_HCLK_DIV2 OR
     push_bit 11 RCC_CFGR_PPRE2_HCLK_NODIV OR push_bit 14 RCC_CFGR_ADCPRE_PCLK2_DIV8 OR
     push_bit 18 RCC_CFGR_PLLMUL_PLL_CLK_MUL9 OR push_bit 16 RCC_CFGR_PLLSRC_HSE_CLK OR
     push_bit 17 RCC_CFGR_PLLXTPRE_HSE_CLK"

definition clock_setup_in_hse_8mhz_out_72mhz :: "hw \<Rightarrow> (history, unit) cmd" where
  "clock_setup_in_hse_8mhz_out_72mhz H = block
     [or32 H RCC_CR RCC_CR_HSEON,
      spin_while H RCC_CR (\<lambda>v. v AND RCC_CR_HSERDY = 0),
      bindc (load32 H RCC_CFGR) (\<lambda>v. store32 H RCC_CFGR ((v AND 0xFFC0000F) OR cfgr_bits)),
      bindc (load32 H FLASH_ACR) (\<lambda>v. store32 H FLASH_ACR
        ((v AND NOT FLASH_ACR_LATENCY) OR FLASH_ACR_LATENCY_2WS)),
      or32 H RCC_CR RCC_CR_PLLON,
      spin_while H RCC_CR (\<lambda>v. v AND RCC_CR_PLLRDY = 0),
      bindc (load32 H RCC_CFGR) (\<lambda>v. store32 H RCC_CFGR
        ((v AND NOT RCC_CFGR_SW) OR push_bit 0 RCC_CFGR_SW_SYSCLKSEL_PLLCLK))]"

definition SysTick_BASE :: u32 where [reg_defs]: "SysTick_BASE = 0xE000E000 + 0x0010"

definition systick_setup :: "hw \<Rightarrow> u32 \<Rightarrow> (history, u32) cmd" where
  "systick_setup H ticks =
     (if ticks - 1 > 0xFFFFFF then give 1
      else bindc (block
        [store32 H (SysTick_BASE + 4) (ticks - 1),
         store32 H (SysTick_BASE + 8) 0,
         store32 H SysTick_BASE (4 OR 2 OR 1)]) (\<lambda>_. give 0))"

section \<open>Option bytes\<close>

definition FLASH_OBR :: u32 where [reg_defs]: "FLASH_OBR = 0x4002201C"
definition FLASH_WRPR :: u32 where [reg_defs]: "FLASH_WRPR = 0x40022020"
definition FLASH_OPT_BYTES :: u32 where [reg_defs]: "FLASH_OPT_BYTES = 0x1FFFF800"
definition WORD_RDP :: nat where "WORD_RDP = 0"
definition WORD_WRP0 :: nat where "WORD_WRP0 = 4"
definition AFIO_MAPR :: u32 where [reg_defs]: "AFIO_MAPR = 0x40010004"

text \<open>\<open>memcpy(&opt[0], FLASH_OPT_BYTES, sizeof(opt))\<close>: eight half words\<close>

definition read_option_bytes :: "hw \<Rightarrow> (history, u16 list) cmd" where
  "read_option_bytes H =
     bindc (load_bytes H FLASH_OPT_BYTES 16) (\<lambda>bs. give (map (half_at bs) [0..<8]))"

text \<open>Wipe the option bytes, program them again, reset.\<close>

definition rewrite_option_bytes :: "hw \<Rightarrow> u16 list \<Rightarrow> (history, unit) cmd" where
  "rewrite_option_bytes H opt = block
     [flash_unlock H,
      optbytes_unlock H,
      flash_erase_option_bytes H,
      forc 8 (\<lambda>i. flash_program_option_bytes H (FLASH_OPT_BYTES + 2 * of_nat i) (opt ! i)),
      full_system_reset H]"

definition protect_bootloader :: "hw \<Rightarrow> (history, unit) cmd" where
  "protect_bootloader H = bindc (rebooted_into_updater H) (\<lambda>u.
     if u then skip
     else bindc (load32 H FLASH_WRPR) (\<lambda>w.
       if w AND 1 \<noteq> 0
       then bindc (read_option_bytes H) (\<lambda>opt.
            rewrite_option_bytes H (opt[WORD_WRP0 := (opt ! WORD_WRP0 AND NOT 0x0001) OR 0x0100]))
       else skip))"

definition protect_readout :: "hw \<Rightarrow> (history, unit) cmd" where
  "protect_readout H = block
     [bindc (load32 H FLASH_OBR) (\<lambda>v.
        if v AND 0x2 = 0
        then bindc (read_option_bytes H) (\<lambda>opt. rewrite_option_bytes H (opt[WORD_RDP := 0xFFFF]))
        else skip),
      bindc (load32 H AFIO_MAPR) (\<lambda>v.
        store32 H AFIO_MAPR ((v AND NOT (push_bit 24 7)) OR push_bit 24 4))]"

section \<open>The staged image\<close>

text \<open>
  The copy loop. \<open>buf\<close> is the static chunk buffer; a failed read leaves the loop.
\<close>

function install_loop :: "hw \<Rightarrow> u32 \<Rightarrow> u32 \<Rightarrow> u8 list \<Rightarrow> u32 \<Rightarrow> (history, unit) cmd" where
  "install_loop H img_offset img_size buf written =
     (if written < img_size
      then bindc (spi_sram_read H (img_offset + written) (Some buf) (chunk_len (img_size - written)))
        (\<lambda>(r, buf').
          if r \<noteq> 0 then skip
          else bindc (flash_program_buffer H (APP_ADDRESS + written) buf'
                        (unat (chunk_len (img_size - written)))) (\<lambda>_.
               install_loop H img_offset img_size buf' (written + chunk_len (img_size - written))))
      else skip)"
  by pat_completeness auto
termination
proof (relation "measure (\<lambda>(_, _, sz, _, w). unat sz - unat w)", goal_cases)
  case (2 H off sz buf w)
  let ?c = "chunk_len (sz - w)"
  from 2(1) have lt: "unat w < unat sz" by (simp add: word_less_nat_alt)
  have d: "unat (sz - w) = unat sz - unat w"
    using lt by (intro unat_diff_u32) (simp add: word_le_nat_alt)
  have "sz - w \<noteq> 0" using 2(1) by auto
  then have "0 < unat ?c" using chunk_len_bounds(3) [of "sz - w"] by (simp add: word_less_nat_alt)
  moreover have "unat ?c \<le> unat sz - unat w" using chunk_len_bounds(2) [of "sz - w"] d by simp
  moreover have "unat (w + ?c) = unat w + unat ?c"
    using calculation(2) lt unat_u32_less [of sz] by (simp add: unat_word_ariths)
  ultimately show ?case using lt by simp
qed simp

declare install_loop.simps [simp del]

text \<open>
  Erase the pages of the image, mark the staged image consumed, program, reset. The
  comparison \<open>a < APP_ADDRESS + img_size\<close> is on 32-bit words.
\<close>

definition install_image :: "hw \<Rightarrow> u32 \<Rightarrow> u32 \<Rightarrow> (history, unit) cmd" where
  "install_image H img_offset img_size = block
     [flash_unlock H,
      for_step APP_ADDRESS (APP_ADDRESS + img_size) 1024 (\<lambda>a.
        bindc (flash_page_is_erased H a) (\<lambda>e. if \<not> e then flash_erase_page H a else skip)),
      bindc (spi_sram_write H SRAM_IMAGE_HEADER_OFFSET
               (Some (bytes_of_header \<lparr>magic = 0, offset = 0, hdr_size = 0\<rparr>)) sizeof_header) (\<lambda>_. skip),
      install_loop H img_offset img_size (replicate (unat SRAM_IMAGE_CHUNK_BYTES) 0) 0,
      clear_reboot_flags H,
      full_system_reset H]"

definition boot_from_sram :: "hw \<Rightarrow> (history, unit) cmd" where
  "boot_from_sram H =
     bindc (spi_sram_hw_init H) (\<lambda>_.
     bindc (sram_has_valid_image H) (\<lambda>valid.
       if valid
       then bindc (spi_sram_read H SRAM_IMAGE_HEADER_OFFSET
                     (Some (replicate (unat sizeof_header) 0)) sizeof_header) (\<lambda>(r, bs).
            if r = 0
            then install_image H (sram_le32 (offset (header_of_bytes bs)))
                   (sram_le32 (hdr_size (header_of_bytes bs)))
            else skip)
       else skip))"

section \<open>The boot decision\<close>

text \<open>\<open>||\<close> evaluates its operands from left to right and stops at the first true one.\<close>

fun any_of :: "(history, bool) cmd list \<Rightarrow> (history, bool) cmd" where
  "any_of [] = give False"
| "any_of (c # cs) = bindc c (\<lambda>b. if b then give True else any_of cs)"

definition go_dfu :: "config \<Rightarrow> hw \<Rightarrow> u32 \<Rightarrow> (history, bool) cmd" where
  "go_dfu C H imagesize = any_of
     ([rebooted_into_dfu H] @
      (if enable_pinrst_dfu_boot C then [reset_due_to_pin H] else []) @
      (if enable_watchdog C \<noteq> None then [reset_due_to_watchdog H] else []) @
      [give (imagesize > FLASH_BOOTLDR_PAYLOAD_SIZE_KB * 1024 div 4),
       force_dfu_gpio C H])"

text \<open>Vector table, stack pointer, jump; the application does not return.\<close>

definition start_app :: "config \<Rightarrow> hw \<Rightarrow> (history, unit) cmd" where
  "start_app C H = block
     [clear_reboot_flags H,
      (case enable_watchdog C of None \<Rightarrow> skip | Some secs \<Rightarrow> enable_iwdg H (watchdog_reload secs)),
      store32 H 0xE000ED08 (APP_ADDRESS AND 0xFFFF),
      bindc (load32 H APP_ADDRESS) (\<lambda>msp.
      bindc (load32 H (APP_ADDRESS + 4)) (\<lambda>entry. halt (JumpApp msp entry)))]"

definition boot_app :: "config \<Rightarrow> hw \<Rightarrow> u32 \<Rightarrow> (history, unit) cmd" where
  "boot_app C H imagesize =
     bindc (go_dfu C H imagesize) (\<lambda>dfu.
     bindc (or32 H RCC_CSR RCC_CSR_RMVF) (\<lambda>_.
       if dfu then skip
       else bindc (load32 H APP_ADDRESS) (\<lambda>sp.
         if sp AND 0x2FFE0000 = 0x20000000
         then bindc (if enable_checksum C then validate_checksum H APP_ADDRESS imagesize else give True)
           (\<lambda>ok. if ok then start_app C H else skip)
         else skip)))"

definition boot :: "config \<Rightarrow> hw \<Rightarrow> (history, unit) cmd" where
  "boot C H =
     bindc (block
       [if enable_writeprot C then protect_bootloader H else skip,
        if enable_protections C then protect_readout H else skip]) (\<lambda>_.
     bindc (if enable_checksum C then load32 H (APP_ADDRESS + 0x20) else give 0) (\<lambda>imagesize.
     bindc (if enable_spi_sram_image C then boot_from_sram H else skip) (\<lambda>_.
     boot_app C H imagesize)))"

section \<open>DFU mode\<close>

text \<open>Clocks, re-enumeration by pulling D+ low, serial number, USB device, LEDs.\<close>

definition dfu_start :: "hw \<Rightarrow> (history, u8 list) cmd" where
  "dfu_start H =
     bindc (systick_setup H 100000) (\<lambda>_.
     bindc (block
       [clock_setup_in_hse_8mhz_out_72mhz H,
        store32 H USB_CNTR_REG USB_CNTR_PWDN,
        rcc_gpio_enable H GPIOA,
        gpio_set_output H GPIOA 12,
        gpio_clear H GPIOA 12]) (\<lambda>_.
     bindc (get_dev_unique_id H) (\<lambda>serial.
     bindc (block
       [usb_init H,
        gpio_set_output H GPIOA 12,
        rcc_gpio_enable H GPIOC,
        gpio_set_output H GPIOC GPIO_LED_1,
        gpio_set_output H GPIOC GPIO_LED_2,
        gpio_set H GPIOC GPIO_LED_1,
        gpio_set H GPIOC GPIO_LED_2]) (\<lambda>_.
     give serial))))"

section \<open>The main loop\<close>

text \<open>
  The local variables of \<open>main\<close> and the tick counter of \<open>init.c\<close>, which the interrupt
  handler increments.
\<close>

record board =
  usb_part :: usb
  systick :: u32
  cnt :: u32
  led_state :: u8

definition systick_handler :: "(board, unit) cmd" where
  "systick_handler = modc (\<lambda>b. b\<lparr>systick := systick b + 1\<rparr>)"

definition systick_get :: "(board, u32) cmd" where
  "systick_get = getc systick"

definition main_init :: "u8 list \<Rightarrow> history \<Rightarrow> board" where
  "main_init serial h =
     \<lparr>usb_part = (usb_boot h)\<lparr>serial_no := overwrite 0 serial (serial_no (usb_boot h))\<rparr>,
      systick = 0, cnt = 500, led_state = 1\<rparr>"

definition on_usb :: "(usb, 'a) cmd \<Rightarrow> (board, 'a) cmd" where
  "on_usb c = zoom usb_part (\<lambda>u b. b\<lparr>usb_part := u\<rparr>) c"

definition blink :: "hw \<Rightarrow> (board, unit) cmd" where
  "blink H = bindc (getc led_state) (\<lambda>st. block
     [on_usb (ubus (block (if st \<noteq> 0
        then [gpio_set H GPIOC GPIO_LED_1, gpio_clear H GPIOC GPIO_LED_2]
        else [gpio_clear H GPIOC GPIO_LED_1, gpio_set H GPIOC GPIO_LED_2]))),
      modc (\<lambda>b. b\<lparr>led_state := (if led_state b = 0 then 1 else 0)\<rparr>)])"

text \<open>
  One turn of the loop. \<open>k\<close> is the number of tick interrupts between the two reads of the
  counter; interrupts at other places are the steps of the handler between two turns.
\<close>

definition main_loop :: "config \<Rightarrow> hw \<Rightarrow> nat \<Rightarrow> (board, unit) cmd" where
  "main_loop C H k = block
     [bindc (getc cnt) (\<lambda>c. bindc systick_get (\<lambda>t.
        if c < t
        then block
          [block (replicate k systick_handler),
           bindc systick_get (\<lambda>t'. modc (\<lambda>b. b\<lparr>cnt := t' + 500\<rparr>)),
           blink H]
        else skip)),
      on_usb (do_usb_poll C H)]"

text \<open>Runs from reset: the boot code, then turns of the loop and tick interrupts.\<close>

inductive main_reach :: "config \<Rightarrow> hw \<Rightarrow> board \<Rightarrow> bool" for C :: config and H :: hw where
  power_on: "bindc (boot C H) (\<lambda>_. dfu_start H) [] = Done serial h \<Longrightarrow>
    main_reach C H (main_init serial h)"
| turn: "main_reach C H b \<Longrightarrow> main_loop C H k b = Done x b' \<Longrightarrow> main_reach C H b'"
| tick: "main_reach C H b \<Longrightarrow> systick_handler b = Done x b' \<Longrightarrow> main_reach C H b'"

end
