(* ===== verification/Views.thy ===== *)
theory Views
  imports SpiSram Dfu
begin

text \<open>
  Two devices on one bus. A device is seen through a view of the bus history; a driver of
  another device leaves it alone. The locale \<open>bystander\<close> is that contract: which stores
  may touch the view. Its interpretations are the RAM chip, which the flash driver does
  not touch, the flash controller, which the SPI driver does not touch, and the word the
  firmware keeps across resets.
\<close>

locale bystander =
  fixes view :: "history \<Rightarrow> 'm" and touches :: "width \<Rightarrow> u32 \<Rightarrow> bool"
  assumes view_load: "view (Loaded w a v # h) = view h"
    and view_store: "\<not> touches w a \<Longrightarrow> view (Stored w a v # h) = view h"
begin

lemma leaves_load: "keeps (\<lambda>h. view h = G) (load H w a)"
  by (rule keeps_load) (simp add: view_load)

lemma leaves_store: "\<not> touches w a \<Longrightarrow> keeps (\<lambda>h. view h = G) (store H w a v)"
  by (rule keeps_store) (simp add: view_store)

lemma leaves_load16: "keeps (\<lambda>h. view h = G) (load16 H a)"
  unfolding load16_def by (intro keeps_rules leaves_load)

lemma leaves_load8: "keeps (\<lambda>h. view h = G) (load8 H a)"
  unfolding load8_def by (intro keeps_rules leaves_load)

lemma leaves_store16: "\<not> touches W16 a \<Longrightarrow> keeps (\<lambda>h. view h = G) (store16 H a v)"
  unfolding store16_def by (rule leaves_store)

lemma leaves_or32: "\<not> touches W32 a \<Longrightarrow> keeps (\<lambda>h. view h = G) (or32 H a m)"
  unfolding or32_def by (intro keeps_rules leaves_load leaves_store)

lemma leaves_and32: "\<not> touches W32 a \<Longrightarrow> keeps (\<lambda>h. view h = G) (and32 H a m)"
  unfolding and32_def by (intro keeps_rules leaves_load leaves_store)

lemma leaves_spin: "keeps (\<lambda>h. view h = G) (spin_while H a p)"
  unfolding spin_while_def by (intro keeps_rules leaves_load)

lemma leaves_list: "list_all (keeps (\<lambda>h. view h = G)) cs \<Longrightarrow> keeps (\<lambda>h. view h = G) (block cs)"
  by (rule keeps_block) (simp add: list_all_iff)

lemmas leaves_bus = leaves_load leaves_load16 leaves_load8 leaves_spin

text \<open>The flash driver: reads are free, the rest needs its registers to be untouched.\<close>

lemma leaves_scan: "keeps (\<lambda>h. view h = G) (flash_page_is_erased H p)"
proof -
  have "keeps (\<lambda>h. view h = G) (flash_scan H p n)" for n
    by (induction n arbitrary: p) (auto intro!: keeps_rules leaves_load)
  then show ?thesis by (simp add: flash_page_is_erased_def)
qed

lemma leaves_xor_image: "keeps (\<lambda>h. view h = G) (xor_image H p n x)"
  by (induction n arbitrary: p x) (auto intro!: keeps_rules leaves_load)

lemma leaves_validate_checksum: "keeps (\<lambda>h. view h = G) (validate_checksum H p n)"
  unfolding validate_checksum_def by (intro keeps_rules leaves_xor_image)

lemma leaves_unlock:
  "\<not> touches W32 FLASH_KEYR \<Longrightarrow> keeps (\<lambda>h. view h = G) (flash_unlock H)"
  unfolding flash_unlock_def
  by (intro keeps_bindc keeps_if keeps_give leaves_load leaves_list) (simp add: leaves_store)

lemma leaves_erase:
  "\<not> touches W32 FLASH_CR \<Longrightarrow> \<not> touches W32 FLASH_AR \<Longrightarrow>
   keeps (\<lambda>h. view h = G) (flash_erase_page H p)"
  unfolding flash_erase_page_def flash_wait_for_last_operation_def
  by (rule leaves_list) (simp add: leaves_spin leaves_or32 leaves_and32 leaves_store)

lemma leaves_erase_loop:
  "\<not> touches W32 FLASH_CR \<Longrightarrow> \<not> touches W32 FLASH_AR \<Longrightarrow>
   keeps (\<lambda>h. view h = G) (for_step lo lim st (\<lambda>a.
     bindc (flash_page_is_erased H a) (\<lambda>e. if \<not> e then flash_erase_page H a else skip)))"
  by (intro keeps_for_step keeps_bindc keeps_if keeps_give leaves_scan leaves_erase)

lemma leaves_program:
  assumes "\<not> touches W32 FLASH_CR"
    and "\<And>i. i < len div 2 \<Longrightarrow> \<not> touches W16 (p + 2 * of_nat i)"
  shows "keeps (\<lambda>h. view h = G) (flash_program_buffer H p data len)"
proof -
  have "keeps (\<lambda>h. view h = G) (forc (len div 2) (\<lambda>i.
        if 2 * i + 1 < length data
        then block [store16 H (p + 2 * of_nat i) (half_at data i), flash_wait_for_last_operation H]
        else halt OutOfBounds))"
    unfolding flash_wait_for_last_operation_def
    by (intro keeps_forc keeps_if keeps_halt leaves_list)
      (simp add: leaves_store16 leaves_spin assms)
  then show ?thesis unfolding flash_program_buffer_def
    by (intro leaves_list)
      (simp add: flash_wait_for_last_operation_def leaves_spin leaves_or32 leaves_and32 assms)
qed

text \<open>The SPI driver: one GPIO register and the data register.\<close>

lemma leaves_xfer: "\<not> touches W16 SPI2_DR \<Longrightarrow> keeps (\<lambda>h. view h = G) (spi_sram_xfer_byte H b)"
  unfolding spi_sram_xfer_byte_def
  by (intro keeps_bindc keeps_if keeps_give leaves_bus leaves_store16)

lemma leaves_cs:
  assumes "\<not> touches W32 (GPIO_BSRR SPI_SRAM_PORT)"
  shows "keeps (\<lambda>h. view h = G) (spi_sram_cs_assert H)"
    and "keeps (\<lambda>h. view h = G) (spi_sram_cs_deassert H)"
  unfolding spi_sram_cs_assert_def spi_sram_cs_deassert_def gpio_clear_def gpio_set_def
  using assms by (auto intro: leaves_store)

lemma leaves_send: "\<not> touches W16 SPI2_DR \<Longrightarrow> keeps (\<lambda>h. view h = G) (send_byte H b)"
  unfolding send_byte_def by (intro keeps_bindc leaves_xfer keeps_give)

lemma leaves_header: "\<not> touches W16 SPI2_DR \<Longrightarrow> keeps (\<lambda>h. view h = G) (send_header H opc addr)"
  unfolding send_header_def by (rule leaves_list) (simp add: leaves_send)

lemma leaves_read:
  assumes t: "\<not> touches W32 (GPIO_BSRR SPI_SRAM_PORT)" "\<not> touches W16 SPI2_DR"
  shows "keeps (\<lambda>h. view h = G) (spi_sram_read H a buf len)"
proof -
  have "keeps (\<lambda>h. view h = G) (read_bytes H n)" for n
    by (induction n) (auto intro!: keeps_rules leaves_xfer t)
  then show ?thesis unfolding spi_sram_read_def
    by (cases buf) (auto intro!: keeps_bindc keeps_if keeps_give keeps_halt leaves_cs
        leaves_header t)
qed

lemma leaves_write:
  assumes t: "\<not> touches W32 (GPIO_BSRR SPI_SRAM_PORT)" "\<not> touches W16 SPI2_DR"
  shows "keeps (\<lambda>h. view h = G) (spi_sram_write H a buf len)"
  unfolding spi_sram_write_def
  by (cases buf) (auto intro!: keeps_rules leaves_cs leaves_header leaves_send t)

lemma leaves_stream:
  assumes "\<And>a buf n. keeps (\<lambda>h. view h = G) (rd a buf n)"
  shows "keeps (\<lambda>h. view h = G) (validate_checksum_stream (Some rd) a n)"
proof -
  have "keeps (\<lambda>h. view h = G) (stream_loop rd buf addr r x)" for buf addr r x
  proof (induction "unat r" arbitrary: buf addr r x rule: less_induct)
    case less
    show ?case
    proof (cases "r = 0")
      case False
      then have "0 < unat (chunk_len r)" "0 < unat r"
        using chunk_len_bounds(3) [of r] by (simp_all add: word_less_nat_alt unat_gt_0)
      then have "unat (r - chunk_len r) < unat r" by (simp add: chunk_len_remaining)
      from less [OF this] False assms show ?thesis
        by (subst stream_loop.simps) (auto intro!: keeps_rules)
    qed (simp add: stream_loop.simps keeps_give)
  qed
  then show ?thesis unfolding validate_checksum_stream_def by (auto intro!: keeps_rules)
qed

text \<open>A command that leaves the view alone, run from a state.\<close>

lemma unchanged: "keeps (\<lambda>h. view h = view h0) c \<Longrightarrow> c h0 = Done x h' \<Longrightarrow> view h' = view h0"
  by (erule keeps_Done [where s = h0]) simp_all

end

section \<open>The RAM chip\<close>

fun touches_sram :: "width \<Rightarrow> u32 \<Rightarrow> bool" where
  "touches_sram W32 a = (a = GPIO_BSRR SPI_SRAM_PORT)"
| "touches_sram W16 a = (a = SPI2_DR)"
| "touches_sram W8 a = False"

interpretation sv: bystander "sram_run S0" touches_sram for S0
proof
  fix w a v h assume "\<not> touches_sram w a"
  then show "sram_run S0 (Stored w a v # h) = sram_run S0 h"
    by (cases w) simp_all
qed simp

section \<open>The flash controller\<close>

fun touches_fpec :: "width \<Rightarrow> u32 \<Rightarrow> bool" where
  "touches_fpec W32 a = (a = FLASH_KEYR \<or> a = FLASH_AR \<or> a = FLASH_CR)"
| "touches_fpec W16 a = in_flash a"
| "touches_fpec W8 a = False"

interpretation fv: bystander "fpec_run F0" touches_fpec for F0
proof
  show "fpec_run F0 (Loaded w a v # h) = fpec_run F0 h" for w a v h
    by (cases w) simp_all
  fix w a v h assume "\<not> touches_fpec w a"
  then show "fpec_run F0 (Stored w a v # h) = fpec_run F0 h"
    by (cases w) (simp_all add: fpec_reg_def fpec_write_def)
qed

section \<open>The word kept across resets\<close>

fun stack_run :: "u32 \<Rightarrow> history \<Rightarrow> u32" where
  "stack_run w0 [] = w0"
| "stack_run w0 (Stored w a v # h) = (if a = stack_word then v else stack_run w0 h)"
| "stack_run w0 (Loaded w a v # h) = stack_run w0 h"

interpretation kv: bystander "stack_run w0" "\<lambda>w a. a = stack_word" for w0
  by unfold_locales simp_all

text \<open>No driver touches another device.\<close>

lemma separate [simp]:
  "FLASH_CR \<noteq> GPIO_BSRR SPI_SRAM_PORT" "FLASH_AR \<noteq> GPIO_BSRR SPI_SRAM_PORT"
  "FLASH_KEYR \<noteq> GPIO_BSRR SPI_SRAM_PORT" "GPIO_BSRR SPI_SRAM_PORT \<noteq> FLASH_KEYR"
  "GPIO_BSRR SPI_SRAM_PORT \<noteq> FLASH_AR" "GPIO_BSRR SPI_SRAM_PORT \<noteq> FLASH_CR"
  "\<not> in_flash SPI2_DR" "FLASH_CR \<noteq> stack_word" "FLASH_AR \<noteq> stack_word"
  "FLASH_KEYR \<noteq> stack_word" "GPIO_BSRR SPI_SRAM_PORT \<noteq> stack_word" "SPI2_DR \<noteq> stack_word"
  "stack_word \<noteq> FLASH_CR" "stack_word \<noteq> FLASH_AR" "stack_word \<noteq> FLASH_KEYR"
  "stack_word \<noteq> GPIO_BSRR SPI_SRAM_PORT"
  by (simp_all add: reg_defs SPI_SRAM_PORT_def in_flash_def)

lemma in_flash_separate: "in_flash a \<Longrightarrow> a \<noteq> SPI2_DR" "in_flash a \<Longrightarrow> a \<noteq> stack_word"
  by (auto simp: reg_defs in_flash_def)

end
