(* ===== verification/DfuSafe.thy ===== *)
theory DfuSafe
  imports Dfu
begin

text \<open>
  The DFU class code within its bounds: the invariant on its buffers, the exact set of
  addresses its guards accept, and the proof that every request and every completion
  stays within a write policy. The guards wrap around at the top of the address space;
  what keeps the flash safe there is that the page scan reads first and faults.
\<close>

section \<open>The invariant\<close>

definition dfu_ok :: "dfu \<Rightarrow> bool" where
  "dfu_ok s \<longleftrightarrow>
     length (usbd_control_buffer s) = DFU_TRANSFER_SIZE \<and>
     length (prog_buf s) = DFU_TRANSFER_SIZE \<and>
     unat (prog_len s) \<le> DFU_TRANSFER_SIZE \<and>
     (prog_len s = 0 \<longrightarrow> prog_blocknum s = 0) \<and>
     usbdfu_state s \<in> {STATE_DFU_IDLE, STATE_DFU_DNLOAD_SYNC, STATE_DFU_DNBUSY,
       STATE_DFU_DNLOAD_IDLE, STATE_DFU_MANIFEST_SYNC, STATE_DFU_MANIFEST,
       STATE_DFU_UPLOAD_IDLE, STATE_DFU_ERROR}"

lemma dfu_ok_init: "dfu_ok (dfu_init h)"
  by (simp add: dfu_ok_def dfu_init_def)

lemma dfu_ok_io [simp]: "dfu_ok (s\<lparr>io := h\<rparr>) = dfu_ok s"
  by (simp add: dfu_ok_def)

lemma dfu_ok_buffer [simp]:
  "length bs = length (usbd_control_buffer s) \<Longrightarrow> dfu_ok (s\<lparr>usbd_control_buffer := bs\<rparr>) = dfu_ok s"
  by (simp add: dfu_ok_def)

lemma dfu_ok_addr [simp]:
  "dfu_ok (s\<lparr>prog_addr := a\<rparr>) = dfu_ok s" "dfu_ok (s\<lparr>erased := e\<rparr>) = dfu_ok s"
  by (simp_all add: dfu_ok_def)

lemma dfu_ok_state:
  "dfu_ok s \<Longrightarrow> q \<in> {STATE_DFU_IDLE, STATE_DFU_DNLOAD_SYNC, STATE_DFU_DNBUSY,
       STATE_DFU_DNLOAD_IDLE, STATE_DFU_MANIFEST_SYNC, STATE_DFU_MANIFEST,
       STATE_DFU_UPLOAD_IDLE, STATE_DFU_ERROR} \<Longrightarrow> dfu_ok (s\<lparr>usbdfu_state := q\<rparr>)"
  by (simp add: dfu_ok_def)

lemma dfu_ok_store_block:
  assumes "dfu_ok s" and "len \<noteq> 0"
  shows "dfu_ok (dfu_store_block req len s)"
proof -
  have "len \<noteq> 0 \<Longrightarrow> 0 < unat len" by (simp add: unat_gt_0)
  with assms show ?thesis by (simp add: dfu_ok_def dfu_store_block_def DFU_TRANSFER_SIZE_def)
qed

section \<open>What the guards accept\<close>

lemma DFU_TRANSFER_SIZE_u32: "(of_nat DFU_TRANSFER_SIZE :: u32) = 1024"
  by (simp add: DFU_TRANSFER_SIZE_def)

text \<open>
  The guard holds inside the application area, and also, by wrap-around, for the last
  addresses below \<open>2 ^ 32\<close>.
\<close>

lemma in_bounds_exact:
  assumes "unat n \<le> 1024"
  shows "in_bounds b n \<longleftrightarrow>
    0x08002000 \<le> unat b \<and> unat b + unat n \<le> 0x08020000 \<or> 2 ^ 32 \<le> unat b + unat n"
proof (cases "unat b + unat n < 2 ^ 32")
  case True
  then have "unat (b + n) = unat b + unat n"
    using unat_add_u32 [of b "unat n"] by simp
  with True show ?thesis by (auto simp: in_bounds_def word_le_nat_alt)
next
  case False
  moreover have "unat b < 2 ^ 32" using unat_u32_less [of b] by simp
  ultimately have "unat (b + n) = unat b + unat n - 2 ^ 32"
    using assms by (simp add: unat_word_ariths le_mod_geq)
  with False assms unat_u32_less [of b] show ?thesis
    by (auto simp: in_bounds_def word_le_nat_alt)
qed

lemma in_bounds_app:
  assumes "in_bounds b n" and "0 < unat n" "unat n \<le> 1024" and "b < 0xFFFFFC00"
  shows "in_app b" and "i < unat n \<Longrightarrow> in_app (b + of_nat i)"
proof -
  have "unat b < 4294966272" using assms(4) by (simp add: word_less_nat_alt)
  with assms in_bounds_exact [of n b]
  have b: "0x08002000 \<le> unat b" "unat b + unat n \<le> 0x08020000" by auto
  then show "in_app b" using assms(2) by (simp add: in_app_def word_le_nat_alt word_less_nat_alt)
  show "in_app (b + of_nat i)" if "i < unat n"
    using b that unat_add_u32 [of b i] by (simp add: in_app_def word_le_nat_alt word_less_nat_alt)
qed

text \<open>
  The top kilobyte of the address space belongs to the vendor-specific system region of
  the Cortex-M3 memory map, which the device leaves empty: a load there is a bus fault.
\<close>

definition top_page_faults :: "hw \<Rightarrow> bool" where
  "top_page_faults H \<longleftrightarrow> (\<forall>h w a. 0xFFFFFC00 \<le> a \<longrightarrow> H h (Load w a) = None)"

lemma erase_top_page_faults:
  "top_page_faults H \<Longrightarrow> 0xFFFFFC00 \<le> b \<Longrightarrow> erase_if_needed H b h = Stopped BusFault h"
  by (simp add: erase_if_needed_def flash_page_is_erased_def top_page_faults_def
      flash_scan.simps(2) [where n = 255, simplified] bindc_def load_def)

section \<open>The class code within a write policy\<close>

definition dfu_safe :: "(event \<Rightarrow> bool) \<Rightarrow> dfu \<Rightarrow> bool" where
  "dfu_safe ok s \<longleftrightarrow> dfu_ok s \<and> list_all ok (io s)"

lemma keeps_bus: "keeps (list_all ok) c \<Longrightarrow> keeps (dfu_safe ok) (bus c)"
  unfolding bus_def by (rule keeps_zoom) (simp_all add: dfu_safe_def)

lemma keeps_set_state:
  "q \<in> {STATE_DFU_IDLE, STATE_DFU_DNLOAD_SYNC, STATE_DFU_DNBUSY,
       STATE_DFU_DNLOAD_IDLE, STATE_DFU_MANIFEST_SYNC, STATE_DFU_MANIFEST,
       STATE_DFU_UPLOAD_IDLE, STATE_DFU_ERROR} \<Longrightarrow> keeps (dfu_safe ok) (set_state q)"
  unfolding set_state_def by (rule keeps_modc) (simp add: dfu_safe_def dfu_ok_state)

lemma keeps_put_buffer: "keeps (dfu_safe ok) (put_buffer bs)"
  unfolding put_buffer_def by (rule keeps_modc) (simp add: dfu_safe_def)

lemma keeps_store_block: "len \<noteq> 0 \<Longrightarrow> keeps (dfu_safe ok) (modc (dfu_store_block req len))"
  by (rule keeps_modc) (simp add: dfu_safe_def dfu_ok_store_block,
      simp add: dfu_store_block_def Let_def)

lemma keeps_getstatus: "keeps (dfu_safe ok) usbdfu_getstatus"
proof -
  have "keeps (dfu_safe ok) (case q of
       STATE_DFU_DNLOAD_SYNC \<Rightarrow> bindc (set_state STATE_DFU_DNBUSY) (\<lambda>_. give (status_byte DFU_STATUS_OK, 100))
     | STATE_DFU_MANIFEST_SYNC \<Rightarrow> bindc (set_state STATE_DFU_MANIFEST) (\<lambda>_. give (status_byte DFU_STATUS_OK, 0))
     | STATE_DFU_ERROR \<Rightarrow> give (state_byte STATE_DFU_ERROR, 0)
     | _ \<Rightarrow> give (status_byte DFU_STATUS_OK, 0))" for q
    by (cases q) (auto intro!: keeps_rules keeps_set_state)
  then show ?thesis unfolding usbdfu_getstatus_def by (intro keeps_bindc keeps_getc)
qed

context write_policy
begin

lemma safe_erase_if_needed:
  assumes "top_page_faults H" and "in_bounds b n" "0 < unat n" "unat n \<le> 1024"
  shows "keeps (list_all ok) (erase_if_needed H b)"
proof (cases "b < 0xFFFFFC00")
  case True
  with in_bounds_app(1) assms have "in_app b" by blast
  then show ?thesis unfolding erase_if_needed_def by (rule safe_erase_unless_blank)
next
  case False
  with erase_top_page_faults assms(1) have "erase_if_needed H b = Stopped BusFault"
    by (auto simp: not_less)
  then show ?thesis by (simp add: keeps_def triple_def)
qed

lemma safe_write_block:
  assumes "top_page_faults H" and "in_bounds b n" "0 < unat n" "unat n \<le> 1024"
  shows "keeps (list_all ok) (block [erase_if_needed H b, flash_program_buffer H b data (unat n)])"
proof (cases "b < 0xFFFFFC00")
  case True
  have "ok (Stored W16 (b + 2 * of_nat i) v)" if "i < unat n div 2" for i v
  proof -
    from that have "2 * i < unat n" by simp
    from in_bounds_app(2) [OF assms(2-4) True this] show ?thesis by (simp add: ok_program)
  qed
  then have "keeps (list_all ok) (flash_program_buffer H b data (unat n))"
    by (rule safe_flash_program_buffer)
  with safe_erase_if_needed [OF assms] show ?thesis by (intro safe_block) simp
next
  case False
  with erase_top_page_faults assms(1)
  have "block [erase_if_needed H b, flash_program_buffer H b data (unat n)] = Stopped BusFault"
    by (auto simp: not_less bindc_def)
  then show ?thesis by (simp add: keeps_def triple_def)
qed

lemma safe_safewrite: "keeps (dfu_safe ok) (safewrite C H)"
  unfolding safewrite_def
  by (intro keeps_if keeps_bindc keeps_getc keeps_give keeps_bus safe_check_do_erase keeps_modc)
    (simp add: dfu_safe_def)

lemma safe_dnload_command:
  assumes "top_page_faults H"
  shows "keeps (dfu_safe ok) (dnload_command C H)"
  unfolding dnload_command_def
  by (intro keeps_if keeps_bindc keeps_getc keeps_give keeps_bus safe_safewrite keeps_modc
      safe_erase_if_needed [where n = "of_nat DFU_TRANSFER_SIZE"] assms)
    (simp_all add: dfu_safe_def DFU_TRANSFER_SIZE_def)

lemma safe_dnload_block:
  assumes "top_page_faults H"
  shows "triple (\<lambda>s. dfu_safe ok s \<and> prog_blocknum s \<noteq> 0) (dnload_block C H)
     (\<lambda>_. dfu_safe ok) (\<lambda>_. dfu_safe ok)"
proof -
  let ?I = "\<lambda>s. dfu_safe ok s \<and> prog_len s \<noteq> 0"
  have sw: "keeps ?I (safewrite C H)"
  proof -
    have b: "keeps ?I (bus c)" if "keeps (list_all ok) c" for c :: "(history, 'b) cmd"
      unfolding bus_def by (rule keeps_zoom [OF _ that]) (simp_all add: dfu_safe_def)
    show ?thesis unfolding safewrite_def
      by (intro keeps_if keeps_bindc keeps_getc keeps_give b safe_check_do_erase keeps_modc)
        (simp add: dfu_safe_def)
  qed
  have "keeps ?I (bindc (getc (\<lambda>s. (block_address (prog_addr s) (prog_blocknum s), prog_len s, prog_buf s)))
       (\<lambda>(baseaddr, n, data).
         if in_bounds baseaddr (ucast n)
         then bus (block [erase_if_needed H baseaddr, flash_program_buffer H baseaddr data (unat n)])
         else skip))"
  proof (rule keeps_bind_getc)
    fix s assume "?I s"
    then have n: "0 < unat (ucast (prog_len s) :: u32)" "unat (ucast (prog_len s) :: u32) \<le> 1024"
      by (simp_all add: dfu_safe_def dfu_ok_def DFU_TRANSFER_SIZE_def unat_gt_0)
    have b: "keeps ?I (bus c)" if "keeps (list_all ok) c" for c :: "(history, unit) cmd"
      unfolding bus_def by (rule keeps_zoom [OF _ that]) (simp_all add: dfu_safe_def)
    with safe_write_block [OF assms _ n] show "keeps ?I (case (block_address (prog_addr s) (prog_blocknum s), prog_len s, prog_buf s) of
        (baseaddr, n, data) \<Rightarrow> if in_bounds baseaddr (ucast n)
         then bus (block [erase_if_needed H baseaddr, flash_program_buffer H baseaddr data (unat n)])
         else skip)"
      by (simp only: prod.case) (intro keeps_if keeps_give b, simp)
  qed
  then have "keeps ?I (dnload_block C H)" unfolding dnload_block_def by (rule keeps_bindc [OF sw])
  then show ?thesis unfolding keeps_def
    by (rule triple_weaken) (auto simp: dfu_safe_def dfu_ok_def)
qed

lemma safe_clear_reboot_flags: "keeps (list_all ok) (clear_reboot_flags H)"
  unfolding clear_reboot_flags_def by (rule safe_reg) (simp_all add: reg_defs)

lemma safe_full_system_reset: "keeps (list_all ok) (full_system_reset H)"
  unfolding full_system_reset_def
  by (intro safe_block) (simp add: keeps_halt, rule safe_reg, simp_all add: reg_defs)

lemma safe_complete:
  assumes "top_page_faults H"
  shows "keeps (dfu_safe ok) (usbdfu_getstatus_complete C H req)"
proof -
  have d: "keeps (dfu_safe ok) (bindc (getc prog_blocknum) (\<lambda>b.
      if b = 0 then dnload_command C H else dnload_block C H))"
    unfolding keeps_def
  proof (rule triple_bind_getc)
    fix b :: u16
    show "triple (\<lambda>s. dfu_safe ok s \<and> prog_blocknum s = b)
        (if b = 0 then dnload_command C H else dnload_block C H) (\<lambda>_. dfu_safe ok) (\<lambda>_. dfu_safe ok)"
    proof (cases "b = 0")
      case True
      have "triple (\<lambda>s. dfu_safe ok s \<and> prog_blocknum s = b) (dnload_command C H)
          (\<lambda>_. dfu_safe ok) (\<lambda>_. dfu_safe ok)"
        by (rule triple_weaken [OF safe_dnload_command [OF assms, unfolded keeps_def]]) simp_all
      with True show ?thesis by simp
    next
      case False
      have "triple (\<lambda>s. dfu_safe ok s \<and> prog_blocknum s = b) (dnload_block C H)
          (\<lambda>_. dfu_safe ok) (\<lambda>_. dfu_safe ok)"
        by (rule triple_weaken [OF safe_dnload_block [OF assms]]) (use False in simp_all)
      with False show ?thesis by simp
    qed
  qed
  have b: "keeps (dfu_safe ok) (block
         [bus (flash_unlock H),
          bindc (getc prog_blocknum) (\<lambda>b.
            if b = 0 then dnload_command C H else dnload_block C H),
          bus (flash_lock H), set_state STATE_DFU_DNLOAD_IDLE])"
    by (rule keeps_block) (auto intro: d keeps_bus safe_flash keeps_set_state)
  have m: "keeps (dfu_safe ok) (bus (block [clear_reboot_flags H, full_system_reset H]))"
    by (intro keeps_bus safe_block) (simp add: safe_clear_reboot_flags safe_full_system_reset)
  show ?thesis unfolding usbdfu_getstatus_complete_def
  proof (intro keeps_bindc keeps_getc)
    fix q show "keeps (dfu_safe ok) (case q of
       STATE_DFU_DNBUSY \<Rightarrow> block
         [bus (flash_unlock H),
          bindc (getc prog_blocknum) (\<lambda>b.
            if b = 0 then dnload_command C H else dnload_block C H),
          bus (flash_lock H), set_state STATE_DFU_DNLOAD_IDLE]
     | STATE_DFU_MANIFEST \<Rightarrow> bus (block [clear_reboot_flags H, full_system_reset H])
     | _ \<Rightarrow> skip)"
      by (cases q) (simp_all only: dfu_state.case b m keeps_give)
  qed
qed

lemma safe_load_bytes: "keeps (list_all ok) (load_bytes H a n)"
  by (induction n arbitrary: a) (auto intro!: keeps_rules safe_load8)

lemma safe_upload: "keeps (dfu_safe ok) (dfu_upload C H req)"
  unfolding dfu_upload_def
  by (intro keeps_if keeps_bindc keeps_getc keeps_give keeps_bus safe_load_bytes keeps_put_buffer
      keeps_set_state) simp_all

lemma safe_control_request: "keeps (dfu_safe ok) (usbdfu_control_request C H req len)"
proof (cases "dfu_req_of (bRequest req)")
  case None
  then show ?thesis by (simp add: usbdfu_control_request_def keeps_give)
next
  case (Some r)
  then show ?thesis unfolding usbdfu_control_request_def
    by (cases r)
      (auto intro!: keeps_bindc keeps_if keeps_give keeps_getc keeps_set_state keeps_put_buffer
        keeps_store_block safe_upload keeps_getstatus)
qed

end

end
