(* ===== verification/DfuFlash.thy ===== *)
theory DfuFlash
  imports DfuSafe
begin

text \<open>
  What a completed DFU block does to the flash. \<open>commit\<close> is the specification on an
  address pointer and the flash contents: a command block erases a page or moves the
  pointer, a data block rewrites a page. The class code refines it for a host that
  works on page boundaries, and a whole download leaves the image in the flash.
\<close>

section \<open>The specification\<close>

definition page_ok :: "u32 \<Rightarrow> nat \<Rightarrow> bool" where
  "page_ok b n \<longleftrightarrow> 0x08002000 \<le> unat b \<and> unat b + n \<le> 0x08020000"

definition cmd_word :: "u8 list \<Rightarrow> u32" where
  "cmd_word data = le32 (data ! 1) (data ! 2) (data ! 3) (data ! 4)"

definition rewrite_page :: "u32 \<Rightarrow> u8 list \<Rightarrow> nat \<Rightarrow> (u32 \<Rightarrow> u16) \<Rightarrow> u32 \<Rightarrow> u16" where
  "rewrite_page p data n f = put_halves p data (n div 2) (erase_cells p f)"

definition commit ::
  "u16 \<Rightarrow> u8 list \<Rightarrow> nat \<Rightarrow> u32 \<times> (u32 \<Rightarrow> u16) \<Rightarrow> u32 \<times> (u32 \<Rightarrow> u16)" where
  "commit bn data n = (\<lambda>(ptr, f).
     if bn = 0 then
       (if data ! 0 = CMD_ERASE
        then (ptr, if page_ok (cmd_word data) 1024 then erase_cells (cmd_word data) f else f)
        else if data ! 0 = CMD_SETADDR then (cmd_word data, f)
        else (ptr, f))
     else (ptr, if page_ok (block_address ptr bn) n
                then rewrite_page (block_address ptr bn) data n f else f))"

text \<open>The page a block is about starts at a page boundary, if the guard lets it pass.\<close>

definition aligned_target :: "u16 \<Rightarrow> u8 list \<Rightarrow> u16 \<Rightarrow> u32 \<Rightarrow> bool" where
  "aligned_target bn data n ptr \<longleftrightarrow>
     (bn = 0 \<longrightarrow> data ! 0 = CMD_ERASE \<longrightarrow> in_bounds (cmd_word data) 1024 \<longrightarrow> page_base (cmd_word data)) \<and>
     (bn \<noteq> 0 \<longrightarrow> in_bounds (block_address ptr bn) (ucast n) \<longrightarrow> page_base (block_address ptr bn))"

section \<open>Refinement\<close>

lemma bus_Done: "c (io s) = Done x h \<Longrightarrow> bus c s = Done x (s\<lparr>io := h\<rparr>)"
  by (simp add: bus_def zoom_def)

lemma page_ok_bounds:
  assumes "page_base b" and "unat n \<le> 1024"
  shows "in_bounds b n \<longleftrightarrow> page_ok b (unat n)"
proof -
  have "unat b < 134348800" using assms(1) by (simp add: page_base_def in_flash_def word_less_nat_alt)
  with in_bounds_exact [OF assms(2), of b] assms(2) show ?thesis by (auto simp: page_ok_def)
qed

lemma page_ok_in_bounds:
  assumes "page_ok b (unat n)" and "unat n \<le> 1024"
  shows "in_bounds b n"
  using assms in_bounds_exact [of n b] by (simp add: page_ok_def)

lemma guard_agrees:
  assumes "in_bounds b n \<longrightarrow> page_base b" and "unat n \<le> 1024"
  shows "in_bounds b n \<longleftrightarrow> page_ok b (unat n)"
  using assms page_ok_bounds page_ok_in_bounds by blast

lemma safewrite_done:
  assumes "\<not> enable_safewrite C \<or> erased s"
  shows "safewrite C H s = Done () s"
proof -
  have "erased s \<Longrightarrow> s\<lparr>erased := True\<rparr> = s" by (cases s) simp
  with assms show ?thesis
    by (auto simp: safewrite_def bindc_def getc_def give_def modc_def check_do_erase_def
        bus_def zoom_def)
qed

lemma erase_page_law:
  assumes "fpec_usable H F0 h" and "page_base p"
  shows "\<exists>h'. erase_if_needed H p h = Done () h' \<and> fpec_usable H F0 h' \<and>
    flash_content F0 h' = erase_cells p (flash_content F0 h)"
  unfolding erase_if_needed_def using assms by (rule fd.erase_unless_blank)

lemma write_page_law:
  assumes "fpec_usable H F0 h" and "page_base p" and "n \<le> length data" and "n \<le> 1024"
  shows "\<exists>h'. block [erase_if_needed H p, flash_program_buffer H p data n] h = Done () h' \<and>
    fpec_usable H F0 h' \<and> flash_content F0 h' = rewrite_page p data n (flash_content F0 h)"
  unfolding erase_if_needed_def rewrite_page_def using assms by (rule fd.rewrite)

text \<open>The middle of a completion, between unlock and lock.\<close>

lemma command_refines:
  assumes u: "fpec_usable H F0 (io s)" and sw: "\<not> enable_safewrite C \<or> erased s"
    and b: "prog_blocknum s = 0"
    and a: "aligned_target 0 (prog_buf s) (prog_len s) (prog_addr s)"
    and c: "commit 0 (prog_buf s) n (prog_addr s, flash_content F0 (io s)) = (ptr, f)"
  shows "\<exists>h'. dnload_command C H s = Done () (s\<lparr>io := h', prog_addr := ptr\<rparr>) \<and>
    fpec_usable H F0 h' \<and> flash_content F0 h' = f"
proof -
  let ?w = "prog_word s"
  have w: "cmd_word (prog_buf s) = ?w" by (simp add: cmd_word_def prog_word_def)
  have same: "s\<lparr>io := h, prog_addr := prog_addr s\<rparr> = s\<lparr>io := h\<rparr>" "s\<lparr>io := io s\<rparr> = s" for h
    by (cases s; simp)+
  have ne: "CMD_SETADDR \<noteq> CMD_ERASE" by (simp add: CMD_SETADDR_def CMD_ERASE_def)
  consider (erase) "prog_buf s ! 0 = CMD_ERASE" | (set) "prog_buf s ! 0 = CMD_SETADDR"
    | (other) "prog_buf s ! 0 \<noteq> CMD_ERASE" "prog_buf s ! 0 \<noteq> CMD_SETADDR" by blast
  then show ?thesis
  proof cases
    case erase
    have g: "in_bounds ?w 1024 \<longleftrightarrow> page_ok ?w 1024" and p: "in_bounds ?w 1024 \<longrightarrow> page_base ?w"
      using a erase guard_agrees [of ?w 1024] by (simp_all add: aligned_target_def w)
    have run: "dnload_command C H s =
        (if page_ok ?w 1024 then bus (erase_if_needed H ?w) s else Done () s)"
      using erase safewrite_done [OF sw]
      by (simp add: dnload_command_def bindc_def getc_def give_def g DFU_TRANSFER_SIZE_u32)
    show ?thesis
    proof (cases "page_ok ?w 1024")
      case True
      with p g erase_page_law [OF u] obtain h' where
        "erase_if_needed H ?w (io s) = Done () h'" "fpec_usable H F0 h'"
        "flash_content F0 h' = erase_cells ?w (flash_content F0 (io s))" by blast
      with True c erase show ?thesis
        by (intro exI [of _ h']) (simp add: run bus_Done same commit_def w)
    next
      case False
      with c u erase show ?thesis
        by (intro exI [of _ "io s"]) (auto simp add: run same commit_def w)
    qed
  next
    case set
    then have "dnload_command C H s = Done () (s\<lparr>prog_addr := ?w\<rparr>)"
      using ne by (simp add: dnload_command_def bindc_def getc_def modc_def)
    moreover have "(ptr, f) = (?w, flash_content F0 (io s))"
      using c set ne by (simp add: commit_def w)
    moreover have "s\<lparr>io := io s, prog_addr := ?w\<rparr> = s\<lparr>prog_addr := ?w\<rparr>" by (cases s) simp
    ultimately show ?thesis using u by (intro exI [of _ "io s"]) simp
  next
    case other
    with c u show ?thesis
      by (intro exI [of _ "io s"])
        (simp add: dnload_command_def bindc_def getc_def give_def commit_def same)
  qed
qed

lemma block_refines:
  assumes u: "fpec_usable H F0 (io s)" and sw: "\<not> enable_safewrite C \<or> erased s"
    and ok: "dfu_ok s" and b: "prog_blocknum s \<noteq> 0"
    and a: "aligned_target (prog_blocknum s) (prog_buf s) (prog_len s) (prog_addr s)"
    and c: "commit (prog_blocknum s) (prog_buf s) (unat (prog_len s))
      (prog_addr s, flash_content F0 (io s)) = (ptr, f)"
  shows "\<exists>h'. dnload_block C H s = Done () (s\<lparr>io := h', prog_addr := ptr\<rparr>) \<and>
    fpec_usable H F0 h' \<and> flash_content F0 h' = f"
proof -
  let ?p = "block_address (prog_addr s) (prog_blocknum s)" and ?n = "prog_len s"
  have same: "s\<lparr>io := h, prog_addr := prog_addr s\<rparr> = s\<lparr>io := h\<rparr>" "s\<lparr>io := io s\<rparr> = s" for h
    by (cases s; simp)+
  have n: "unat ?n \<le> 1024" "unat ?n \<le> length (prog_buf s)"
    using ok by (simp_all add: dfu_ok_def DFU_TRANSFER_SIZE_def)
  have p: "in_bounds ?p (ucast ?n) \<longrightarrow> page_base ?p" using a b by (simp add: aligned_target_def)
  have g: "in_bounds ?p (ucast ?n) \<longleftrightarrow> page_ok ?p (unat ?n)"
    using guard_agrees [OF p] n by simp
  have run: "dnload_block C H s =
      (if page_ok ?p (unat ?n)
       then bus (block [erase_if_needed H ?p, flash_program_buffer H ?p (prog_buf s) (unat ?n)]) s
       else Done () s)"
    using safewrite_done [OF sw] by (simp add: dnload_block_def bindc_def getc_def give_def g)
  show ?thesis
  proof (cases "page_ok ?p (unat ?n)")
    case True
    with p g write_page_law [OF u _ n(2,1)] obtain h' where
      "block [erase_if_needed H ?p, flash_program_buffer H ?p (prog_buf s) (unat ?n)] (io s) = Done () h'"
      "fpec_usable H F0 h'"
      "flash_content F0 h' = rewrite_page ?p (prog_buf s) (unat ?n) (flash_content F0 (io s))"
      by blast
    with True c b show ?thesis
      by (intro exI [of _ h']) (simp only: run if_True bus_Done, auto simp add: same commit_def)
  next
    case False
    with c u b show ?thesis
      by (intro exI [of _ "io s"]) (auto simp add: run same commit_def)
  qed
qed

lemma complete_refines:
  assumes ok: "dfu_ok s" and st: "usbdfu_state s = STATE_DFU_DNBUSY"
    and i: "fpec_idle H F0 (io s)" and sw: "\<not> enable_safewrite C \<or> erased s"
    and a: "aligned_target (prog_blocknum s) (prog_buf s) (prog_len s) (prog_addr s)"
    and c: "commit (prog_blocknum s) (prog_buf s) (unat (prog_len s))
      (prog_addr s, flash_content F0 (io s)) = (ptr, f)"
  shows "\<exists>h'. usbdfu_getstatus_complete C H req s =
      Done () (s\<lparr>io := h', prog_addr := ptr, usbdfu_state := STATE_DFU_DNLOAD_IDLE\<rparr>) \<and>
    fpec_idle H F0 h' \<and> flash_content F0 h' = f"
proof -
  from lfd.unlock_law [OF i] obtain h1 where
    1: "flash_unlock H (io s) = Done () h1" "fpec_usable H F0 h1"
      "flash_content F0 h1 = flash_content F0 (io s)" by blast
  let ?s1 = "s\<lparr>io := h1\<rparr>"
  have "\<exists>h'. (if prog_blocknum s = 0 then dnload_command C H else dnload_block C H) ?s1 =
      Done () (?s1\<lparr>io := h', prog_addr := ptr\<rparr>) \<and> fpec_usable H F0 h' \<and> flash_content F0 h' = f"
    using command_refines [of H F0 ?s1 C "unat (prog_len s)" ptr f]
      block_refines [of H F0 ?s1 C ptr f] 1 sw ok a c
    by (cases "prog_blocknum s = 0") simp_all
  then obtain h2 where
    2: "(if prog_blocknum s = 0 then dnload_command C H else dnload_block C H) ?s1 =
      Done () (s\<lparr>io := h2, prog_addr := ptr\<rparr>)" "fpec_usable H F0 h2" "flash_content F0 h2 = f"
    by auto
  from lfd.lock_law [OF 2(2)] 2(3) obtain h3 where
    3: "flash_lock H h2 = Done () h3" "fpec_idle H F0 h3" "flash_content F0 h3 = f" by auto
  let ?s2 = "s\<lparr>io := h2, prog_addr := ptr\<rparr>"
  have "usbdfu_getstatus_complete C H req s = block
         [bus (flash_unlock H),
          bindc (getc prog_blocknum) (\<lambda>b. if b = 0 then dnload_command C H else dnload_block C H),
          bus (flash_lock H), set_state STATE_DFU_DNLOAD_IDLE] s"
    by (simp only: usbdfu_getstatus_complete_def bindc_def [of _ _ s] getc_def st
        result.case dfu_state.case)
  also have "\<dots> = Done () (?s2\<lparr>io := h3, usbdfu_state := STATE_DFU_DNLOAD_IDLE\<rparr>)"
    using bus_Done [of "flash_unlock H" s, OF 1(1)] 2(1) bus_Done [of "flash_lock H" ?s2 "()" h3] 3(1)
    by (simp add: bindc_def getc_def give_def set_state_def modc_def split: if_splits)
  finally show ?thesis using 3 by (intro exI [of _ h3]) simp
qed

end
