(* ===== verification/DfuSession.thy ===== *)
theory DfuSession
  imports DfuFlash
begin

text \<open>
  A whole download. The host (a DfuSe client) cuts the image into blocks of the transfer
  size, moves the address pointer, and for each block sends DNLOAD and polls GETSTATUS
  once. The flash then holds the image, the rest of its last page is blank and nothing
  else has changed.
\<close>

section \<open>The requests of the host\<close>

definition dnload_request :: "u16 \<Rightarrow> u16 \<Rightarrow> usb_setup_data" where
  "dnload_request bn n =
     \<lparr>bmRequestType = 0x21, bRequest = 1, wValue = bn, wIndex = 0, wLength = n\<rparr>"

lemma wLength_dnload [simp]: "wLength (dnload_request bn n) = n"
  by (simp add: dnload_request_def)

definition getstatus_request :: usb_setup_data where
  "getstatus_request = \<lparr>bmRequestType = 0xA1, bRequest = 3, wValue = 0, wIndex = 0, wLength = 6\<rparr>"

text \<open>
  One block: the data stage fills the control buffer, the handler stores the block, the
  status request makes it busy, and the completion of the status request commits it.
\<close>

definition dfu_exchange :: "config \<Rightarrow> hw \<Rightarrow> u16 \<Rightarrow> u8 list \<Rightarrow> (dfu, unit) cmd" where
  "dfu_exchange C H bn data = block
     [put_buffer data,
      bindc (usbdfu_control_request C H (dnload_request bn (of_nat (length data)))
        (of_nat (length data))) (\<lambda>_. skip),
      bindc (usbdfu_control_request C H getstatus_request 6) (\<lambda>_. skip),
      usbdfu_getstatus_complete C H getstatus_request]"

primrec dfu_blocks :: "config \<Rightarrow> hw \<Rightarrow> u16 \<Rightarrow> u8 list list \<Rightarrow> (dfu, unit) cmd" where
  "dfu_blocks C H bn [] = skip"
| "dfu_blocks C H bn (d # ds) = bindc (dfu_exchange C H bn d) (\<lambda>_. dfu_blocks C H (bn + 1) ds)"

function host_blocks :: "u8 list \<Rightarrow> u8 list list" where
  "host_blocks xs = (if xs = [] then [] else take 1024 xs # host_blocks (drop 1024 xs))"
  by pat_completeness auto
termination
  by (relation "measure length") auto

declare host_blocks.simps [simp del]

definition dfu_download :: "config \<Rightarrow> hw \<Rightarrow> u32 \<Rightarrow> u8 list \<Rightarrow> (dfu, unit) cmd" where
  "dfu_download C H a img = block
     [dfu_exchange C H 0 (CMD_SETADDR # bytes32 a), dfu_blocks C H 2 (host_blocks img)]"

section \<open>One block\<close>

lemma half_at_overwrite:
  assumes "length data \<le> length pb" and "i < length data div 2"
  shows "half_at (overwrite 0 data pb) i = half_at data i"
proof -
  have "2 * i < length data" "2 * i + 1 < length data" using assms(2) by linarith+
  then show ?thesis using assms(1) by (simp add: half_at_def overwrite_0 nth_append)
qed

lemma rewrite_overwrite:
  assumes "length data \<le> length pb"
  shows "rewrite_page p (overwrite 0 data pb) (length data) f = rewrite_page p data (length data) f"
  by (rule ext) (simp add: rewrite_page_def put_halves_def Let_def half_at_overwrite [OF assms])

text \<open>The state in which the status completion runs.\<close>

definition busy_state :: "u16 \<Rightarrow> u8 list \<Rightarrow> dfu \<Rightarrow> dfu" where
  "busy_state bn data s =
     s\<lparr>usbd_control_buffer := overwrite 0 (getstatus_reply (status_byte DFU_STATUS_OK) 100 STATE_DFU_DNBUSY)
          (overwrite 0 data (usbd_control_buffer s)),
        usbdfu_state := STATE_DFU_DNBUSY,
        prog_buf := overwrite 0 data (prog_buf s), prog_len := of_nat (length data),
        prog_blocknum := bn\<rparr>"

text \<open>The state after the DNLOAD request.\<close>

definition loaded :: "u16 \<Rightarrow> u8 list \<Rightarrow> dfu \<Rightarrow> dfu" where
  "loaded bn data s =
     s\<lparr>usbd_control_buffer := overwrite 0 data (usbd_control_buffer s),
        usbdfu_state := STATE_DFU_DNLOAD_SYNC,
        prog_buf := overwrite 0 data (prog_buf s), prog_len := of_nat (length data),
        prog_blocknum := bn\<rparr>"

lemma request_loads:
  assumes ok: "dfu_ok s" and l: "0 < length data" "length data \<le> 1024"
  shows "usbdfu_control_request C H (dnload_request bn (of_nat (length data))) (of_nat (length data))
      (s\<lparr>usbd_control_buffer := overwrite 0 data (usbd_control_buffer s)\<rparr>) =
    Done (USBD_REQ_HANDLED, of_nat (length data), False) (loaded bn data s)"
    and "dfu_ok (loaded bn data s)"
proof -
  let ?n = "of_nat (length data) :: u16"
  have n: "unat ?n = length data" "?n \<noteq> 0"
    using l by (auto simp: simp flip: unat_eq_zero)
  let ?s1 = "s\<lparr>usbd_control_buffer := overwrite 0 data (usbd_control_buffer s)\<rparr>"
  have lens: "length (prog_buf s) = 1024" "length (usbd_control_buffer s) = 1024"
    using ok by (simp_all add: dfu_ok_def DFU_TRANSFER_SIZE_def)
  have "dfu_store_block (dnload_request bn ?n) ?n ?s1 = ?s1\<lparr>prog_blocknum := bn, prog_len := ?n,
      prog_buf := overwrite 0 data (prog_buf s)\<rparr>"
    using n l lens take_overwrite_0 [of data "usbd_control_buffer s"]
    by (simp add: dfu_store_block_def dnload_request_def)
  then show "usbdfu_control_request C H (dnload_request bn ?n) ?n ?s1 =
      Done (USBD_REQ_HANDLED, ?n, False) (loaded bn data s)"
    using n(2)
    by (simp add: usbdfu_control_request_def dnload_request_def dfu_req_of_def bindc_def modc_def
        set_state_def give_def loaded_def)
  show "dfu_ok (loaded bn data s)"
    using ok n l lens by (simp add: dfu_ok_def loaded_def DFU_TRANSFER_SIZE_def)
qed

lemma request_loads_at:
  assumes "dfu_ok s" and "0 < length data" "length data \<le> 1024"
  shows "usbdfu_control_request C H (dnload_request bn (of_nat (length data))) (of_nat (length data))
      (s\<lparr>usbd_control_buffer := overwrite 0 data (usbd_control_buffer s), io := h\<rparr>) =
    Done (USBD_REQ_HANDLED, of_nat (length data), False) ((loaded bn data s)\<lparr>io := h\<rparr>)"
proof -
  have e: "s\<lparr>usbd_control_buffer := overwrite 0 data (usbd_control_buffer s), io := h\<rparr> =
      s\<lparr>io := h, usbd_control_buffer := overwrite 0 data (usbd_control_buffer s)\<rparr>"
    "(loaded bn data s)\<lparr>io := h\<rparr> = loaded bn data (s\<lparr>io := h\<rparr>)"
    by (cases s; simp add: loaded_def)+
  show ?thesis
    unfolding e using request_loads(1) [of "s\<lparr>io := h\<rparr>" data C H bn] assms by simp
qed

lemma request_busy:
  "usbdfu_control_request C H getstatus_request 6 (loaded bn data s) =
    Done (USBD_REQ_HANDLED, 6, True) (busy_state bn data s)"
  by (cases s) (simp add: usbdfu_control_request_def getstatus_request_def dfu_req_of_def bindc_def
      usbdfu_getstatus_def getc_def modc_def set_state_def give_def put_buffer_def busy_state_def loaded_def)

lemma exchange_unfold:
  assumes ok: "dfu_ok s" and l: "0 < length data" "length data \<le> 1024"
  shows "dfu_exchange C H bn data s =
    usbdfu_getstatus_complete C H getstatus_request (busy_state bn data s)"
    and "dfu_ok (busy_state bn data s)"
proof -
  show "dfu_exchange C H bn data s =
      usbdfu_getstatus_complete C H getstatus_request (busy_state bn data s)"
    by (simp add: dfu_exchange_def bindc_def request_loads(1) [OF assms] request_busy put_buffer_def
        modc_def give_def split: result.splits)
  show "dfu_ok (busy_state bn data s)"
    using request_loads(2) [OF assms] by (simp add: dfu_ok_def busy_state_def loaded_def)
qed

text \<open>The state between two blocks.\<close>

definition dfu_ready :: "config \<Rightarrow> hw \<Rightarrow> fpec \<Rightarrow> dfu \<Rightarrow> bool" where
  "dfu_ready C H F0 s \<longleftrightarrow>
     dfu_ok s \<and> fpec_idle H F0 (io s) \<and> (\<not> enable_safewrite C \<or> erased s)"

lemma exchange_commits:
  assumes r: "dfu_ready C H F0 s" and l: "0 < length data" "length data \<le> 1024"
    and a: "aligned_target bn (overwrite 0 data (prog_buf s)) (of_nat (length data)) (prog_addr s)"
    and c: "commit bn (overwrite 0 data (prog_buf s)) (length data)
      (prog_addr s, flash_content F0 (io s)) = (ptr, f)"
  shows "\<exists>s'. dfu_exchange C H bn data s = Done () s' \<and> dfu_ready C H F0 s' \<and>
    usbdfu_state s' = STATE_DFU_DNLOAD_IDLE \<and>
    prog_addr s' = ptr \<and> flash_content F0 (io s') = f"
proof -
  let ?b = "busy_state bn data s"
  have ok: "dfu_ok s" using r by (simp add: dfu_ready_def)
  note e = exchange_unfold(1) [OF ok l, of C H bn] exchange_unfold(2) [OF ok l, of bn]
  have n: "unat (of_nat (length data) :: u16) = length data" using l by simp
  have "\<exists>h'. usbdfu_getstatus_complete C H getstatus_request ?b =
      Done () (?b\<lparr>io := h', prog_addr := ptr, usbdfu_state := STATE_DFU_DNLOAD_IDLE\<rparr>) \<and>
    fpec_idle H F0 h' \<and> flash_content F0 h' = f"
    by (rule complete_refines [OF e(2)])
      (use r a c n in \<open>simp_all add: busy_state_def dfu_ready_def\<close>)
  then obtain h' where "usbdfu_getstatus_complete C H getstatus_request ?b =
      Done () (?b\<lparr>io := h', prog_addr := ptr, usbdfu_state := STATE_DFU_DNLOAD_IDLE\<rparr>)"
    "fpec_idle H F0 h'" "flash_content F0 h' = f" by blast
  moreover have "dfu_ok (?b\<lparr>io := h', prog_addr := ptr, usbdfu_state := STATE_DFU_DNLOAD_IDLE\<rparr>)"
    using e(2) by (simp add: dfu_ok_def)
  moreover have "erased ?b = erased s" by (simp add: busy_state_def)
  ultimately show ?thesis using e(1) r by (auto simp: dfu_ready_def)
qed

lemma set_address:
  assumes r: "dfu_ready C H F0 s"
  shows "\<exists>s'. dfu_exchange C H 0 (CMD_SETADDR # bytes32 a) s = Done () s' \<and>
    dfu_ready C H F0 s' \<and> usbdfu_state s' = STATE_DFU_DNLOAD_IDLE \<and>
    prog_addr s' = a \<and> flash_content F0 (io s') = flash_content F0 (io s)"
proof (rule exchange_commits [OF r])
  have ne: "CMD_SETADDR \<noteq> CMD_ERASE" by (simp add: CMD_SETADDR_def CMD_ERASE_def)
  have "length (prog_buf s) = 1024"
    using r by (simp add: dfu_ready_def dfu_ok_def DFU_TRANSFER_SIZE_def)
  then have o: "overwrite 0 (CMD_SETADDR # bytes32 a) (prog_buf s) =
      CMD_SETADDR # bytes32 a @ drop 5 (prog_buf s)"
    by (simp add: overwrite_0)
  have "cmd_word (CMD_SETADDR # bytes32 a @ drop 5 (prog_buf s)) = a"
    by (simp add: cmd_word_def bytes32_def)
  then show "commit 0 (overwrite 0 (CMD_SETADDR # bytes32 a) (prog_buf s))
      (length (CMD_SETADDR # bytes32 a)) (prog_addr s, flash_content F0 (io s)) =
    (a, flash_content F0 (io s))"
    using ne unfolding o by (simp add: commit_def)
  show "aligned_target 0 (overwrite 0 (CMD_SETADDR # bytes32 a) (prog_buf s))
      (of_nat (length (CMD_SETADDR # bytes32 a))) (prog_addr s)"
    using ne unfolding o by (simp add: aligned_target_def)
qed simp_all

lemma write_block:
  assumes r: "dfu_ready C H F0 s" and l: "0 < length data" "length data \<le> 1024"
    and bn: "bn \<noteq> 0" and p: "block_address (prog_addr s) bn = p" "page_base p"
      "page_ok p (length data)"
  shows "\<exists>s'. dfu_exchange C H bn data s = Done () s' \<and> dfu_ready C H F0 s' \<and>
    usbdfu_state s' = STATE_DFU_DNLOAD_IDLE \<and> prog_addr s' = prog_addr s \<and>
    flash_content F0 (io s') = rewrite_page p data (length data) (flash_content F0 (io s))"
proof (rule exchange_commits [OF r l])
  have "length data \<le> length (prog_buf s)"
    using r l by (simp add: dfu_ready_def dfu_ok_def DFU_TRANSFER_SIZE_def)
  then show "commit bn (overwrite 0 data (prog_buf s)) (length data)
      (prog_addr s, flash_content F0 (io s)) =
    (prog_addr s, rewrite_page p data (length data) (flash_content F0 (io s)))"
    using bn p by (simp add: commit_def rewrite_overwrite)
  show "aligned_target bn (overwrite 0 data (prog_buf s)) (of_nat (length data)) (prog_addr s)"
    using bn p by (simp add: aligned_target_def)
qed

section \<open>The whole image\<close>

definition image_cells :: "u32 \<Rightarrow> u8 list \<Rightarrow> (u32 \<Rightarrow> u16) \<Rightarrow> u32 \<Rightarrow> u16" where
  "image_cells p xs f a =
     (if even (unat a) \<and> unat p \<le> unat a \<and>
         unat a < unat p + 1024 * ((length xs + 1023) div 1024)
      then (if unat a - unat p < length xs then half_at xs ((unat a - unat p) div 2) else 0xFFFF)
      else f a)"

lemma page_base_even: "page_base p \<Longrightarrow> even (unat p)"
  using dvd_trans [of 2 1024 "unat p"] by (simp add: page_base_def dvd_eq_mod_eq_0)

lemma rewrite_page_at:
  assumes p: "page_base p" and n: "n \<le> 1024" "even n"
  shows "rewrite_page p data n f a =
    (if even (unat a) \<and> unat p \<le> unat a \<and> unat a < unat p + 1024
     then (if unat a - unat p < n then half_at data ((unat a - unat p) div 2) else 0xFFFF)
     else f a)"
proof (cases "unat p \<le> unat a")
  case True
  then have d: "unat (a - p) = unat a - unat p" by (simp add: unat_sub word_le_nat_alt)
  have "even (unat a - unat p) \<longleftrightarrow> even (unat a)"
    using True page_base_even [OF p] by simp
  moreover have "x div 2 < n div 2 \<longleftrightarrow> x < n" if "even x" for x
    using that n(2) by (auto elim!: evenE)
  moreover have "unat a - unat p < n \<Longrightarrow> unat a < unat p + 1024" using True n(1) by linarith
  ultimately show ?thesis
    using True
    unfolding rewrite_page_def put_halves_def Let_def d erase_cells_def in_page_base [OF p]
    by (cases "even (unat a)"; cases "unat a - unat p < n") simp_all
next
  case False
  have "unat p < 134348800"
    using p by (simp add: page_base_def in_flash_def word_less_nat_alt)
  moreover have "unat (a - p) = unat a + 4294967296 - unat p"
    using False unat_u32_less [of p] unat_u32_less [of a] by (simp add: unat_sub_if_size word_size)
  ultimately have "\<not> unat (a - p) div 2 < n div 2" using n(1) by linarith
  with False show ?thesis
    by (auto simp: rewrite_page_def put_halves_def Let_def erase_cells_def in_page_base [OF p])
qed

lemma image_cells_Nil [simp]: "image_cells p [] f = f"
  by (rule ext) (auto simp: image_cells_def)

lemma pages_Suc:
  assumes "0 < n"
  shows "(n + 1023) div 1024 = Suc ((n - 1024 + 1023) div 1024)"
proof (cases "n \<le> 1024")
  case True
  have "(n + 1023) div 1024 = 1" using True assms by (intro div_nat_eqI) auto
  then show ?thesis using True by simp
next
  case False
  then have "n + 1023 = (n - 1024 + 1023) + 1024" by simp
  then have "(n + 1023) div 1024 = ((n - 1024 + 1023) + 1024) div 1024" by (rule arg_cong)
  also have "\<dots> = Suc ((n - 1024 + 1023) div 1024)" by (subst div_add_self2) simp_all
  finally show ?thesis .
qed

lemma page_base_end:
  assumes "page_base p"
  shows "unat p + 1024 \<le> 0x08020000"
proof -
  obtain q where "unat p = 1024 * q"
    using assms by (auto simp: page_base_def simp flip: dvd_eq_mod_eq_0)
  moreover have "unat p < 134348800"
    using assms by (simp add: page_base_def in_flash_def word_less_nat_alt)
  ultimately show ?thesis by simp
qed

lemma half_at_take: "2 * i + 1 < n \<Longrightarrow> half_at (take n xs) i = half_at xs i"
  by (simp add: half_at_def)

lemma half_at_drop: "n \<le> length xs \<Longrightarrow> even n \<Longrightarrow> half_at (drop n xs) i = half_at xs (n div 2 + i)"
  by (auto simp: half_at_def algebra_simps elim!: evenE)

lemma image_cells_step:
  assumes p: "page_base p" and xs: "xs \<noteq> []" "even (length xs)"
  shows "image_cells (p + 1024) (drop 1024 xs)
      (rewrite_page p (take 1024 xs) (length (take 1024 xs)) f) = image_cells p xs f"
proof
  fix a :: u32
  let ?d = "unat a - unat p"
  let ?n = "length xs"
  define g where "g = rewrite_page p (take 1024 xs) (length (take 1024 xs)) f"
  have r: "g a =
    (if even (unat a) \<and> unat p \<le> unat a \<and> unat a < unat p + 1024
     then (if ?d < min 1024 ?n then half_at (take 1024 xs) (?d div 2) else 0xFFFF) else f a)"
    using xs(2) unfolding g_def by (subst rewrite_page_at [OF p]) (auto simp: min_def)
  have ev: "even ?d" if "even (unat a)" "unat p \<le> unat a"
    using that page_base_even [OF p] by simp
  have pages: "(?n + 1023) div 1024 = Suc ((?n - 1024 + 1023) div 1024)"
    using xs(1) by (intro pages_Suc) simp
  consider (below) "\<not> (even (unat a) \<and> unat p \<le> unat a)"
    | (page) "even (unat a)" "unat p \<le> unat a" "?d < 1024"
    | (beyond) "even (unat a)" "unat p \<le> unat a" "1024 \<le> ?d" by linarith
  then have "image_cells (p + 1024) (drop 1024 xs) g a = image_cells p xs f a"
  proof cases
    case below
    then have "\<not> (even (unat a) \<and> unat (p + 1024) \<le> unat a \<and> P)"
      and "\<not> (even (unat a) \<and> unat p \<le> unat a \<and> P)" for P
      unfolding page_step [OF p] by linarith+
    then show ?thesis by (simp only: image_cells_def r if_False)
  next
    case page
    from page(3) have "?d div 2 < 512" by (intro less_mult_imp_div_less) simp
    then have "2 * (?d div 2) + 1 < 1024" by linarith
    then have "half_at (take 1024 xs) (?d div 2) = half_at xs (?d div 2)" by (rule half_at_take)
    moreover have "unat a < unat p + 1024 * ((?n + 1023) div 1024)" using page pages by simp
    moreover have "\<not> unat (p + 1024) \<le> unat a" using page by (simp add: page_step [OF p])
    ultimately show ?thesis using page by (auto simp: image_cells_def r)
  next
    case beyond
    let ?e = "unat a - unat (p + 1024)"
    have e: "?e = ?d - 1024" "unat (p + 1024) \<le> unat a"
      using beyond by (simp_all add: page_step [OF p])
    have "half_at (drop 1024 xs) (?e div 2) = half_at xs (?d div 2)" if "?e < length (drop 1024 xs)"
    proof -
      have "1024 \<le> ?n" using that by simp
      then have "half_at (drop 1024 xs) (?e div 2) = half_at xs (512 + ?e div 2)"
        by (simp add: half_at_drop)
      also have "512 + ?e div 2 = ?d div 2" using e beyond by linarith
      finally show ?thesis .
    qed
    moreover have "unat a < unat (p + 1024) + 1024 * ((length (drop 1024 xs) + 1023) div 1024) \<longleftrightarrow>
        unat a < unat p + 1024 * ((?n + 1023) div 1024)"
      unfolding pages by (simp add: page_step [OF p] add.assoc)
    moreover have "?e < length (drop 1024 xs) \<longleftrightarrow> ?d < ?n" using e beyond by auto
    moreover have "g a = f a"
      using beyond unfolding r by auto
    ultimately show ?thesis using beyond e by (simp add: image_cells_def)
  qed
  then show "image_cells (p + 1024) (drop 1024 xs)
      (rewrite_page p (take 1024 xs) (length (take 1024 xs)) f) a = image_cells p xs f a"
    by (simp only: g_def)
qed

lemma block_address_next:
  "block_address a (bn + 1) = block_address a bn + 1024" if "unat bn + 1 < 65536"
proof -
  have "unat (bn + 1) = unat bn + 1" using that by (simp add: unat_word_ariths)
  then have "unat (ucast (bn + 1) :: u32) = unat (ucast bn + 1 :: u32)"
    using that by (simp add: unat_word_ariths)
  then have "(ucast (bn + 1) :: u32) = ucast bn + 1" by (simp only: word_unat_eq_iff)
  then show ?thesis by (simp add: block_address_def DFU_TRANSFER_SIZE_def algebra_simps)
qed

text \<open>
  The contract of a session that writes blocks: what one exchange does to the address
  pointer and the flash. \<open>does bn d s Q\<close> says that the exchange of block \<open>d\<close> from state \<open>s\<close>
  ends in a state with \<open>Q\<close>. The class code by itself keeps the contract, and so does the
  device on the wire.
\<close>

locale block_session =
  fixes ready :: "'s \<Rightarrow> bool" and ptr :: "'s \<Rightarrow> u32" and content :: "'s \<Rightarrow> u32 \<Rightarrow> u16"
    and does :: "u16 \<Rightarrow> u8 list \<Rightarrow> 's \<Rightarrow> ('s \<Rightarrow> bool) \<Rightarrow> bool"
    and does_all :: "u16 \<Rightarrow> u8 list list \<Rightarrow> 's \<Rightarrow> ('s \<Rightarrow> bool) \<Rightarrow> bool"
  assumes block_law: "ready s \<Longrightarrow> 0 < length data \<Longrightarrow> length data \<le> 1024 \<Longrightarrow> bn \<noteq> 0 \<Longrightarrow>
      block_address (ptr s) bn = p \<Longrightarrow> page_base p \<Longrightarrow> page_ok p (length data) \<Longrightarrow>
      does bn data s (\<lambda>s'. ready s' \<and> ptr s' = ptr s \<and>
        content s' = rewrite_page p data (length data) (content s))"
    and all_Nil: "ready s \<Longrightarrow> Q s \<Longrightarrow> does_all bn [] s Q"
    and all_Cons: "does bn d s R \<Longrightarrow> (\<And>s'. R s' \<Longrightarrow> does_all (bn + 1) ds s' Q) \<Longrightarrow>
      does_all bn (d # ds) s Q"
begin

lemma blocks_image:
  assumes "ready s" and "block_address (ptr s) bn = p"
    and "xs \<noteq> [] \<Longrightarrow> page_base p" and "0x08002000 \<le> unat p" and "unat p + length xs \<le> 0x08020000"
    and "even (length xs)" and "bn \<noteq> 0" and "unat bn + (length xs + 1023) div 1024 < 65000"
  shows "does_all bn (host_blocks xs) s (\<lambda>s'. ready s' \<and> ptr s' = ptr s \<and>
    content s' = image_cells p xs (content s))"
  using assms
proof (induction xs arbitrary: s bn p rule: host_blocks.induct)
  case (1 xs)
  show ?case
  proof (cases "xs = []")
    case True
    with "1.prems"(1) show ?thesis by (auto simp: host_blocks.simps intro: all_Nil)
  next
    case False
    let ?d = "take 1024 xs" and ?r = "drop 1024 xs"
    have p: "page_base p" using "1.prems"(3) False by simp
    have ok: "page_ok p (length ?d)" using "1.prems"(4,5) by (simp add: page_ok_def)
    have l: "0 < length ?d" "length ?d \<le> 1024" using False by simp_all
    have bn: "unat bn + 1 < 65536" using "1.prems"(8) by simp
    then have bn1: "unat (bn + 1) = unat bn + 1" by (simp add: unat_word_ariths)
    have blocks: "host_blocks xs = ?d # host_blocks ?r" using False by (simp add: host_blocks.simps [of xs])
    show ?thesis
      unfolding blocks
    proof (rule all_Cons [OF block_law [OF "1.prems"(1) l "1.prems"(7,2) p ok]])
      fix s1 assume s1: "ready s1 \<and> ptr s1 = ptr s \<and> content s1 = rewrite_page p ?d (length ?d) (content s)"
      have "does_all (bn + 1) (host_blocks ?r) s1 (\<lambda>s'. ready s' \<and> ptr s' = ptr s1 \<and>
          content s' = image_cells (p + 1024) ?r (content s1))"
      proof (rule "1.IH" [OF False])
        show "ready s1" using s1 by simp
        show "block_address (ptr s1) (bn + 1) = p + 1024"
          using block_address_next [OF bn] "1.prems"(2) s1 by simp
        show "page_base (p + 1024)" if "?r \<noteq> []"
        proof -
          from that have "1024 < length xs" by simp
          then show ?thesis
            using p "1.prems"(4,5) page_step [OF p]
            by (simp add: page_base_def in_flash_def word_le_nat_alt word_less_nat_alt)
        qed
        show "0x08002000 \<le> unat (p + 1024)" using "1.prems"(4) page_step [OF p] by simp
        show "unat (p + 1024) + length ?r \<le> 0x08020000"
          using "1.prems"(5) page_step [OF p] page_base_end [OF p] by simp
        show "even (length ?r)" using "1.prems"(6) by (simp add: min_def)
        show "bn + 1 \<noteq> 0" using bn1 by auto
        show "unat (bn + 1) + (length ?r + 1023) div 1024 < 65000"
          using "1.prems"(8) pages_Suc [of "length xs"] False by (simp add: bn1)
      qed
      then show "does_all (bn + 1) (host_blocks ?r) s1 (\<lambda>s'. ready s' \<and> ptr s' = ptr s \<and>
          content s' = image_cells p xs (content s))"
        using s1 image_cells_step [OF p False "1.prems"(6)] by simp
    qed
  qed
qed

text \<open>From the address the host has set: an image of up to 120 KB.\<close>

lemma image_blocks:
  assumes "ready s" and "page_base (ptr s)" and "0x08002000 \<le> unat (ptr s)"
    and "unat (ptr s) + length xs \<le> 0x08020000" and "even (length xs)"
  shows "does_all 2 (host_blocks xs) s (\<lambda>s'. ready s' \<and> ptr s' = ptr s \<and>
    content s' = image_cells (ptr s) xs (content s))"
proof (rule blocks_image [OF assms(1)])
  have "length xs \<le> 122880" using assms(3,4) by simp
  then have "(length xs + 1023) div 1024 < 64000" by (intro less_mult_imp_div_less) simp
  then show "unat (2 :: u16) + (length xs + 1023) div 1024 < 65000" by simp
qed (use assms in \<open>simp_all add: block_address_def\<close>)

end

interpretation cs: block_session "dfu_ready C H F0" prog_addr "\<lambda>s. flash_content F0 (io s)"
  "\<lambda>bn d s Q. \<exists>s'. dfu_exchange C H bn d s = Done () s' \<and> Q s'"
  "\<lambda>bn ds s Q. \<exists>s'. dfu_blocks C H bn ds s = Done () s' \<and> Q s'" for C H F0
proof
  show "\<exists>s'. dfu_exchange C H bn data s = Done () s' \<and> dfu_ready C H F0 s' \<and> prog_addr s' = prog_addr s \<and>
      flash_content F0 (io s') = rewrite_page p data (length data) (flash_content F0 (io s))"
    if "dfu_ready C H F0 s" "0 < length data" "length data \<le> 1024" "bn \<noteq> 0"
      "block_address (prog_addr s) bn = p" "page_base p" "page_ok p (length data)" for s data bn p
    using write_block [OF that] by blast
qed (auto simp: give_def bindc_Done)

lemma download_leaves:
  assumes "dfu_ready C H F0 s" and "page_base a" and "0x08002000 \<le> unat a"
    and "unat a + length img \<le> 0x08020000" and "even (length img)"
  shows "\<exists>s'. dfu_download C H a img s = Done () s' \<and> dfu_ready C H F0 s' \<and>
    prog_addr s' = a \<and> flash_content F0 (io s') = image_cells a img (flash_content F0 (io s))"
proof -
  from set_address [OF assms(1), of a] obtain s1 where
    1: "dfu_exchange C H 0 (CMD_SETADDR # bytes32 a) s = Done () s1" "dfu_ready C H F0 s1"
      "prog_addr s1 = a" "flash_content F0 (io s1) = flash_content F0 (io s)" by blast
  have "page_base (prog_addr s1)" "0x08002000 \<le> unat (prog_addr s1)"
    "unat (prog_addr s1) + length img \<le> 0x08020000" using assms(2-4) 1(3) by simp_all
  from cs.image_blocks [OF 1(2) this assms(5)] obtain s2 where
    2: "dfu_blocks C H 2 (host_blocks img) s1 = Done () s2" "dfu_ready C H F0 s2" "prog_addr s2 = a"
      "flash_content F0 (io s2) = image_cells a img (flash_content F0 (io s1))"
    unfolding 1(3) by blast
  from 1(1) 2 1(4) show ?thesis
    by (intro exI [of _ s2]) (simp add: dfu_download_def bindc_Done give_def)
qed

lemma download_writes:
  assumes "dfu_ready C H F0 s" and "page_base a" and "0x08002000 \<le> unat a"
    and "unat a + length img \<le> 0x08020000" and "even (length img)"
  shows "\<exists>s'. dfu_download C H a img s = Done () s' \<and> dfu_ready C H F0 s' \<and>
    flash_content F0 (io s') = image_cells a img (flash_content F0 (io s))"
  using download_leaves [OF assms] by blast

text \<open>The half words and bytes a program reads back.\<close>

lemma half_of_image:
  assumes "page_base a" and "2 * i < length img" and "unat q = unat a + 2 * i"
  shows "image_cells a img f q = half_at img i"
proof -
  have "length img \<le> 1024 * ((length img + 1023) div 1024)"
    using div_mult_mod_eq [of "length img + 1023" 1024] mod_less_divisor [of 1024 "length img + 1023"]
    by linarith
  with assms(2) have "2 * i < 1024 * ((length img + 1023) div 1024)" by linarith
  then show ?thesis using assms page_base_even [OF assms(1)] by (simp add: image_cells_def)
qed

lemma byte_of_image:
  assumes "page_base a" and "k < length img" and "even (length img)"
    and "unat a + length img \<le> 0x08020000"
  shows "cell_byte (image_cells a img f) (a + of_nat k) = img ! k"
proof -
  have u: "unat (a + of_nat k) = unat a + k" using assms by (intro unat_add_u32) simp
  have ev: "even (unat a)" by (rule page_base_even [OF assms(1)])
  show ?thesis
  proof (cases "even k")
    case True
    then obtain i where i: "k = 2 * i" by blast
    have "image_cells a img f (a + of_nat k) = half_at img i"
      by (rule half_of_image [OF assms(1)]) (use assms i u in auto)
    moreover have "even (unat (a + of_nat k))" using True ev u by simp
    ultimately show ?thesis using i by (simp add: cell_byte_def half_at_def del: of_nat_mult)
  next
    case False
    then obtain i where i: "k = 2 * i + 1" by (auto elim: oddE)
    have "a + of_nat k - 1 = a + of_nat (2 * i)" by (simp add: i)
    moreover have "unat (a + of_nat (2 * i)) = unat a + 2 * i"
      using assms i by (intro unat_add_u32) simp
    ultimately have "image_cells a img f (a + of_nat k - 1) = half_at img i"
      using assms i by (intro half_of_image [OF assms(1)]) simp_all
    moreover have "odd (unat (a + of_nat k))" using False ev u by simp
    ultimately have "cell_byte (image_cells a img f) (a + of_nat k) = hi8 (half_at img i)"
      by (simp only: cell_byte_def if_False)
    then show ?thesis using i by (simp add: half_at_def)
  qed
qed

end
