(* ===== verification/Install.thy ===== *)
theory Install
  imports Boot Views DfuSession
begin

text \<open>
  The installation of a staged image: the flash ends with the image, its last page is
  blank after it and the rest of the flash is unchanged; the header of the staged image
  is wiped; the device is reset.
\<close>

section \<open>Programming in pieces\<close>

lemma put_halves_add:
  assumes "\<And>i. i < m \<Longrightarrow> half_at ys i = half_at xs (k + i)" and "2 * (k + m) < 4294967296"
  shows "put_halves (base + 2 * of_nat k) ys m (put_halves base xs k f) = put_halves base xs (k + m) f"
  using assms
proof (induction m)
  case (Suc m)
  have l: "2 * m < 4294967296" "2 * (k + m) < 4294967296" using Suc.prems(2) by simp_all
  have IH: "put_halves (base + 2 * of_nat k) ys m (put_halves base xs k f) = put_halves base xs (k + m) f"
    using Suc.prems by (intro Suc.IH) simp_all
  have a: "base + 2 * of_nat k + 2 * of_nat m = base + 2 * of_nat (k + m)" by simp
  show ?case
    using Suc.prems(1) [of m] put_halves_Suc [OF l(2), of base xs f]
    by (simp only: put_halves_Suc [OF l(1)] IH a add_Suc_right lessI)
qed simp

lemma put_halves_cong:
  assumes "\<And>i. i < n \<Longrightarrow> half_at xs i = half_at ys i"
  shows "put_halves base xs n f = put_halves base ys n f"
  by (rule ext) (simp add: put_halves_def Let_def assms)

lemma half_at_nth_eq:
  "xs ! (2 * i) = ys ! (2 * j) \<Longrightarrow> xs ! (2 * i + 1) = ys ! (2 * j + 1) \<Longrightarrow> half_at xs i = half_at ys j"
  by (simp add: half_at_def)

section \<open>The copy loop\<close>

text \<open>The state of both devices while the image is copied.\<close>

definition installing :: "hw \<Rightarrow> fpec \<Rightarrow> sram \<Rightarrow> history \<Rightarrow> bool" where
  "installing H F0 S0 h \<longleftrightarrow> fpec_usable H F0 h \<and> sram_idle H S0 h"

lemma installing_read:
  assumes "installing H F0 S0 h" and "0 < len" "unat len \<le> length buf" "unat a + unat len \<le> 131072"
  shows "\<exists>h'. spi_sram_read H a (Some buf) len h =
      Done (0, overwrite 0 (bytes_at (sram_mem S0 h) a (unat len)) buf) h' \<and>
    installing H F0 S0 h' \<and> sram_mem S0 h' = sram_mem S0 h \<and> flash_content F0 h' = flash_content F0 h"
proof -
  from sr.read_law [of H S0 h len buf a] assms obtain h' where
    h': "spi_sram_read H a (Some buf) len h =
      Done (0, overwrite 0 (bytes_at (sram_mem S0 h) a (unat len)) buf) h'" "sram_idle H S0 h'"
      "sram_mem S0 h' = sram_mem S0 h" by (auto simp: installing_def)
  have "fpec_run F0 h' = fpec_run F0 h"
    by (rule fv.unchanged [OF fv.leaves_read h'(1)]) simp_all
  with h' assms(1) show ?thesis by (auto simp: installing_def fpec_usable_def flash_content_def)
qed

lemma installing_program:
  assumes "installing H F0 S0 h" and "len \<le> length data" "len < 4294967296"
    and tgt: "\<forall>i < len div 2. in_flash (base + 2 * of_nat i) \<and>
      even (unat (base + 2 * of_nat i)) \<and> flash_content F0 h (base + 2 * of_nat i) = 0xFFFF"
  shows "\<exists>h'. flash_program_buffer H base data len h = Done () h' \<and> installing H F0 S0 h' \<and>
    sram_mem S0 h' = sram_mem S0 h \<and>
    flash_content F0 h' = put_halves base data (len div 2) (flash_content F0 h)"
proof -
  from fd.program_law [OF _ assms(2-4)] assms(1) obtain h' where
    h': "flash_program_buffer H base data len h = Done () h'" "fpec_usable H F0 h'"
      "flash_content F0 h' = put_halves base data (len div 2) (flash_content F0 h)"
    by (auto simp: installing_def)
  have "sram_run S0 h' = sram_run S0 h"
    by (rule sv.unchanged [OF sv.leaves_program h'(1)]) (use tgt in_flash_separate in auto)
  with h' assms(1) show ?thesis by (auto simp: installing_def sram_idle_def sram_mem_def)
qed

lemma app_offset:
  assumes "k \<le> 122880"
  shows "unat (0x08002000 + of_nat k :: u32) = 0x08002000 + k"
  using assms unat_add_u32 [of "0x08002000" k] by simp

lemma install_loop_writes:
  assumes "installing H F0 S0 h" and "bytes_at (sram_mem S0 h) off (unat sz) = data"
    and "unat sz mod 4 = 0" "unat sz \<le> 122880" "unat off + unat sz \<le> 131072"
    and "unat w \<le> unat sz" "unat w mod 4 = 0" "length buf = 256"
    and "\<forall>i < unat sz div 2. E (0x08002000 + 2 * of_nat i) = 0xFFFF"
    and "flash_content F0 h = put_halves 0x08002000 data (unat w div 2) E"
  shows "\<exists>h'. install_loop H off sz buf w h = Done () h' \<and> installing H F0 S0 h' \<and>
    sram_mem S0 h' = sram_mem S0 h \<and>
    flash_content F0 h' = put_halves 0x08002000 data (unat sz div 2) E"
  using assms
proof (induction "unat sz - unat w" arbitrary: w h buf rule: less_induct)
  case less
  note p = less.prems
  show ?case
  proof (cases "w < sz")
    case False
    then have "unat w = unat sz" using p(6) by (simp add: word_less_nat_alt)
    with p(1,10) False show ?thesis
      by (intro exI [of _ h]) (simp add: install_loop.simps give_def)
  next
    case True
    define c where "c = chunk_len (sz - w)"
    have lt: "unat w < unat sz" using True by (simp add: word_less_nat_alt)
    have d: "unat (sz - w) = unat sz - unat w"
      using lt by (intro unat_diff_u32) (simp add: word_le_nat_alt)
    have "sz - w \<noteq> 0" using True by auto
    then have c: "0 < c" "unat c \<le> unat sz - unat w" "unat c \<le> 256"
      using chunk_len_bounds [of "sz - w"] d by (simp_all add: c_def)
    have c0: "0 < unat c" using c(1) by (simp add: word_less_nat_alt)
    have "(unat sz - unat w) mod 4 = 0" using p(3,7) by (simp add: dvd_diff_nat flip: dvd_eq_mod_eq_0)
    then have c4: "unat c mod 4 = 0"
      using d by (simp add: c_def chunk_len_def SRAM_IMAGE_CHUNK_BYTES_def)
    obtain j where j: "unat w = 2 * j" using p(7) by (metis dvd_def dvd_eq_mod_eq_0 dvd_trans dvd_triv_left mult.commute num_double numeral_times_numeral)
    obtain n where n: "unat c = 2 * n" using c4 by (metis dvd_def dvd_eq_mod_eq_0 dvd_trans dvd_triv_left mult.commute num_double numeral_times_numeral)
    have nw: "unat (of_nat (unat w) :: u32) = unat w" by simp
    have ow: "unat (off + w) = unat off + unat w"
      using unat_add_u32 [of off "unat w"] p(5,6) by simp
    have fit: "unat c \<le> length buf" "unat (off + w) + unat c \<le> 131072"
      using p(5,8) c lt ow by simp_all
    from installing_read [OF p(1) c(1) fit] obtain h1 where
      1: "spi_sram_read H (off + w) (Some buf) c h =
          Done (0, overwrite 0 (bytes_at (sram_mem S0 h) (off + w) (unat c)) buf) h1"
        "installing H F0 S0 h1" "sram_mem S0 h1 = sram_mem S0 h"
        "flash_content F0 h1 = flash_content F0 h" by blast
    define bs where "bs = bytes_at (sram_mem S0 h) (off + w) (unat c)"
    define buf1 where "buf1 = overwrite 0 bs buf"
    have aw: "APP_ADDRESS + w = 0x08002000 + 2 * of_nat j"
    proof -
      have "w = of_nat (unat w)" by simp
      also have "\<dots> = 2 * of_nat j" by (simp only: j of_nat_mult of_nat_numeral)
      finally show ?thesis by simp
    qed
    have half: "half_at buf1 i = half_at data (j + i)" if "i < n" for i
    proof -
      have nth: "buf1 ! k = data ! (unat w + k)" if "k < unat c" for k
      proof -
        have "buf1 ! k = bs ! k"
          using that p(8) c by (simp add: buf1_def overwrite_0 bs_def nth_append)
        also have "\<dots> = sram_mem S0 h (off + (w + of_nat k))"
          using that by (simp add: bs_def bytes_at_def add.assoc)
        also have "w + of_nat k = of_nat (unat w + k)" by simp
        also have "sram_mem S0 h (off + of_nat (unat w + k)) = data ! (unat w + k)"
          using that c p(2) by (simp add: bytes_at_def flip: p(2))
        finally show ?thesis .
      qed
      have "2 * i < unat c" "2 * i + 1 < unat c" using that n by simp_all
      from nth [OF this(1)] nth [OF this(2)] show ?thesis
        by (intro half_at_nth_eq) (simp_all add: j algebra_simps)
    qed
    have tgt: "\<forall>i < unat c div 2. in_flash (APP_ADDRESS + w + 2 * of_nat i) \<and>
        even (unat (APP_ADDRESS + w + 2 * of_nat i)) \<and>
        flash_content F0 h1 (APP_ADDRESS + w + 2 * of_nat i) = 0xFFFF"
    proof (intro allI impI)
      fix i assume "i < unat c div 2"
      then have i: "2 * (j + i) < unat sz" using n j c by simp
      have a: "APP_ADDRESS + w + 2 * of_nat i = 0x08002000 + 2 * of_nat (j + i)"
        unfolding aw by simp
      have a': "(0x08002000 :: u32) + 2 * of_nat (j + i) = 0x08002000 + of_nat (2 * (j + i))" by simp
      have u: "unat (0x08002000 + 2 * of_nat (j + i) :: u32) = 0x08002000 + 2 * (j + i)"
        unfolding a' by (rule app_offset) (use i p(4) in simp)
      have "even (unat sz)" using p(3) dvd_trans [of 2 4 "unat sz"] by (simp add: dvd_eq_mod_eq_0)
      then have "2 * (unat sz div 2) = unat sz" by simp
      with i have "2 * (j + i) < 2 * (unat sz div 2)" by (simp only:)
      then have "j + i < unat sz div 2" by (simp only: mult_less_cancel1)
      with p(9) have e: "E (0x08002000 + 2 * of_nat (j + i)) = 0xFFFF" by blast
      have "2 * (j + i) < 4294967296" using i p(4) by linarith
      from put_halves_at [OF this, of "0x08002000" data "unat w div 2" E] e j
      have "flash_content F0 h1 (0x08002000 + 2 * of_nat (j + i)) = 0xFFFF"
        unfolding 1(4) p(10) by (simp del: of_nat_add)
      moreover have "in_flash (0x08002000 + 2 * of_nat (j + i))"
        unfolding in_flash_def word_le_nat_alt word_less_nat_alt u using i p(4) by simp
      ultimately show "in_flash (APP_ADDRESS + w + 2 * of_nat i) \<and>
        even (unat (APP_ADDRESS + w + 2 * of_nat i)) \<and>
        flash_content F0 h1 (APP_ADDRESS + w + 2 * of_nat i) = 0xFFFF"
        unfolding a u by simp
    qed
    have lb: "length buf1 = 256" using p(8) by (simp add: buf1_def)
    from installing_program [OF 1(2) _ _ tgt, of buf1] c lb obtain h2 where
      2: "flash_program_buffer H (APP_ADDRESS + w) buf1 (unat c) h1 = Done () h2"
        "installing H F0 S0 h2" "sram_mem S0 h2 = sram_mem S0 h1"
        "flash_content F0 h2 = put_halves (APP_ADDRESS + w) buf1 (unat c div 2) (flash_content F0 h1)"
      by auto
    have wc: "unat (w + c) = unat w + unat c"
      using unat_add_u32 [of w "unat c"] c p(4) lt by simp
    have f2: "flash_content F0 h2 = put_halves 0x08002000 data (unat (w + c) div 2) E"
    proof -
      have "flash_content F0 h2 =
          put_halves (0x08002000 + 2 * of_nat j) buf1 n (put_halves 0x08002000 data j E)"
        using 2(4) 1(4) p(10) unfolding aw by (simp add: j n)
      also have "\<dots> = put_halves 0x08002000 data (j + n) E"
        by (rule put_halves_add) (use half n j c lt p(4) in auto)
      finally show ?thesis using wc j n by simp
    qed
    have "\<exists>h'. install_loop H off sz buf1 (w + c) h2 = Done () h' \<and> installing H F0 S0 h' \<and>
        sram_mem S0 h' = sram_mem S0 h2 \<and>
        flash_content F0 h' = put_halves 0x08002000 data (unat sz div 2) E"
    proof (rule less.hyps)
      show "unat sz - unat (w + c) < unat sz - unat w" using wc c0 lt by simp
      show "bytes_at (sram_mem S0 h2) off (unat sz) = data" using p(2) 2(3) 1(3) by simp
      show "unat (w + c) \<le> unat sz" using wc c lt by simp
      show "unat (w + c) mod 4 = 0" using wc p(7) c4 by (simp add: mod_add_eq [symmetric])
    qed (use 2 p lb f2 in simp_all)
    then obtain h3 where 3: "install_loop H off sz buf1 (w + c) h2 = Done () h3" "installing H F0 S0 h3"
      "sram_mem S0 h3 = sram_mem S0 h2"
      "flash_content F0 h3 = put_halves 0x08002000 data (unat sz div 2) E" by blast
    have "install_loop H off sz buf w h = install_loop H off sz buf1 (w + c) h2"
      using True 1(1) 2(1)
      by (subst install_loop.simps) (simp add: bindc_def c_def [symmetric] buf1_def bs_def)
    with 3 2(3) 1(3) show ?thesis by (intro exI [of _ h3]) simp
  qed
qed

section \<open>The installation\<close>

text \<open>The controller as a reset leaves it: no operation selected.\<close>

definition fpec_rest :: "hw \<Rightarrow> fpec \<Rightarrow> history \<Rightarrow> bool" where
  "fpec_rest H F0 h \<longleftrightarrow> fpec_hw H F0 \<and> cr (fpec_run F0 h) = 0 \<and> \<not> key1 (fpec_run F0 h)"

lemma unlock_rest:
  assumes "fpec_rest H F0 h"
  shows "\<exists>h'. flash_unlock H h = Done () h' \<and> fpec_usable H F0 h' \<and>
    flash_content F0 h' = flash_content F0 h"
proof -
  from assms have H: "fpec_hw H F0" and F: "cr (fpec_run F0 h) = 0" "\<not> key1 (fpec_run F0 h)"
    by (simp_all add: fpec_rest_def)
  from effectD [OF effect_unlock [OF H F] refl] H F show ?thesis
    by (auto simp: fpec_usable_def flash_content_def ready_def)
qed

text \<open>The stores of the reset itself are answered.\<close>

definition reset_hw :: "hw \<Rightarrow> bool" where
  "reset_hw H \<longleftrightarrow> (\<forall>h. H h (Store W32 stack_word 0) \<noteq> None \<and>
     H h (Store W32 0xE000ED0C 0x05FA0004) \<noteq> None)"

lemma reset_block:
  assumes "reset_hw H"
  shows "block [clear_reboot_flags H, full_system_reset H] h =
    Stopped Reset (Stored W32 0xE000ED0C 0x05FA0004 # Stored W32 stack_word 0 # h)"
proof -
  from assms have "H h (Store W32 stack_word 0) \<noteq> None"
    "H (Stored W32 stack_word 0 # h) (Store W32 0xE000ED0C 0x05FA0004) \<noteq> None"
    unfolding reset_hw_def by blast+
  then show ?thesis
    by (auto simp: clear_reboot_flags_def full_system_reset_def bindc_def store_def halt_def)
qed

lemma put_halves_span:
  assumes "length xs \<le> 122880" and "even (length xs)"
  shows "put_halves 0x08002000 xs (length xs div 2)
      (erase_span 0x08002000 ((length xs + 1023) div 1024) f) = image_cells 0x08002000 xs f"
proof
  fix a :: u32
  let ?p = "0x08002000 :: u32" and ?n = "length xs"
  show "put_halves ?p xs (?n div 2) (erase_span ?p ((?n + 1023) div 1024) f) a = image_cells ?p xs f a"
  proof (cases "unat ?p \<le> unat a")
    case True
    then have d: "unat (a - ?p) = unat a - unat ?p" by (simp add: unat_sub word_le_nat_alt)
    have e: "even (unat a - unat ?p) \<longleftrightarrow> even (unat a)" using True by simp
    have h: "even k \<Longrightarrow> k div 2 < ?n div 2 \<longleftrightarrow> k < ?n" for k
      using assms(2) by (auto elim!: evenE)
    have "?n \<le> 1024 * ((?n + 1023) div 1024)"
      using div_mult_mod_eq [of "?n + 1023" 1024] mod_less_divisor [of 1024 "?n + 1023"] by linarith
    then have in_span: "unat a - unat ?p < ?n \<Longrightarrow> unat a < unat ?p + 1024 * ((?n + 1023) div 1024)"
      using True by linarith
    show ?thesis
    proof (cases "even (unat a) \<and> unat a - unat ?p < ?n")
      case c: True
      with True in_span h [of "unat a - unat ?p"] e show ?thesis
        unfolding put_halves_def image_cells_def Let_def d by simp
    next
      case False
      with True h [of "unat a - unat ?p"] e show ?thesis
        unfolding put_halves_def image_cells_def erase_span_def Let_def d by auto
    qed
  next
    case False
    then have "unat (a - ?p) = unat a + 4294967296 - unat ?p"
      using unat_u32_less [of a] by (simp add: unat_sub_if_size word_size)
    then have "\<not> unat (a - ?p) div 2 < ?n div 2" using assms(1) by simp
    with False show ?thesis
      unfolding put_halves_def image_cells_def erase_span_def Let_def by simp
  qed
qed

lemma erase_for_image:
  assumes "fpec_usable H F0 h" and "0 < n" "n \<le> 122880"
  shows "\<exists>h'. for_step APP_ADDRESS (APP_ADDRESS + of_nat n) 1024 (\<lambda>a.
        bindc (flash_page_is_erased H a) (\<lambda>e. if \<not> e then flash_erase_page H a else skip)) h = Done () h' \<and>
    fpec_usable H F0 h' \<and>
    flash_content F0 h' = erase_span 0x08002000 ((n + 1023) div 1024) (flash_content F0 h)"
proof -
  let ?k = "(n + 1023) div 1024"
  have k: "n \<le> 1024 * ?k" "1024 * ?k < n + 1024"
    using div_mult_mod_eq [of "n + 1023" 1024] mod_less_divisor [of 1024 "n + 1023"] by linarith+
  have u: "unat (APP_ADDRESS + of_nat n) = 0x08002000 + n" using app_offset [OF assms(3)] by simp
  show ?thesis unfolding layout(1)
    by (rule fd.erase_loop [OF assms(1)]) (use k u assms(2,3) in simp_all)
qed

lemma wipe_header:
  assumes "sram_idle H S0 h"
  shows "\<exists>h'. bindc (spi_sram_write H SRAM_IMAGE_HEADER_OFFSET
      (Some (bytes_of_header \<lparr>magic = 0, offset = 0, hdr_size = 0\<rparr>)) sizeof_header) (\<lambda>_. skip) h = Done () h' \<and>
    sram_idle H S0 h' \<and> sram_mem S0 h' = put_bytes 0 (replicate 12 0) (sram_mem S0 h) \<and>
    fpec_run F0 h' = fpec_run F0 h"
proof -
  have z: "bytes_of_header \<lparr>magic = 0, offset = 0, hdr_size = 0\<rparr> = replicate 12 0"
    by (simp add: bytes_of_header_def bytes32_def numeral_eq_Suc)
  from sw.write_law [OF assms, of 12 "replicate 12 0" 0] obtain h' where
    h': "spi_sram_write H 0 (Some (replicate 12 0)) 12 h = Done 0 h'" "sram_idle H S0 h'"
      "sram_mem S0 h' = put_bytes 0 (replicate 12 0) (sram_mem S0 h)" by auto
  have "fpec_run F0 h' = fpec_run F0 h"
    by (rule fv.unchanged [OF fv.leaves_write h'(1)]) simp_all
  with h' show ?thesis
    unfolding z SRAM_IMAGE_HEADER_OFFSET_def sizeof_header_def by (auto simp: bindc_Done give_def)
qed

lemma install_writes:
  assumes "fpec_rest H F0 h" and "sram_idle H S0 h" and "reset_hw H"
    and b: "bounds_spec (unat off) (unat sz)"
  defines "data \<equiv> bytes_at (sram_mem S0 h) off (unat sz)"
  shows "\<exists>h'. install_image H off sz h =
      Stopped Reset (Stored W32 0xE000ED0C 0x05FA0004 # Stored W32 stack_word 0 # h') \<and>
    installing H F0 S0 h' \<and> sram_mem S0 h' = put_bytes 0 (replicate 12 0) (sram_mem S0 h) \<and>
    flash_content F0 h' = image_cells 0x08002000 data (flash_content F0 h)"
proof -
  have bb: "0 < unat sz" "unat sz mod 4 = 0" "12 \<le> unat off" "unat sz \<le> 122880"
    "unat off + unat sz \<le> 131072"
    using b by (simp_all add: bounds_spec_def)
  from unlock_rest [OF assms(1)] obtain h1 where
    1: "flash_unlock H h = Done () h1" "fpec_usable H F0 h1" "flash_content F0 h1 = flash_content F0 h"
    by blast
  have s1: "sram_run S0 h1 = sram_run S0 h"
    by (rule sv.unchanged [OF sv.leaves_unlock 1(1)]) simp
  let ?n = "(unat sz + 1023) div 1024"
  let ?E = "erase_span 0x08002000 ?n (flash_content F0 h)"
  let ?erase = "for_step APP_ADDRESS (APP_ADDRESS + sz) 1024 (\<lambda>a.
      bindc (flash_page_is_erased H a) (\<lambda>e. if \<not> e then flash_erase_page H a else skip))"
  from erase_for_image [OF 1(2) bb(1,4)] 1(3) obtain h2 where
    2: "?erase h1 = Done () h2" "fpec_usable H F0 h2" "flash_content F0 h2 = ?E" by auto
  have s2: "sram_run S0 h2 = sram_run S0 h1"
    by (rule sv.unchanged [OF sv.leaves_erase_loop 2(1)]) simp_all
  let ?wipe = "bindc (spi_sram_write H SRAM_IMAGE_HEADER_OFFSET
      (Some (bytes_of_header \<lparr>magic = 0, offset = 0, hdr_size = 0\<rparr>)) sizeof_header) (\<lambda>_. skip)"
  have i2: "sram_idle H S0 h2" using assms(2) s1 s2 by (simp add: sram_idle_def)
  from wipe_header [OF i2, of F0] obtain h3 where
    3: "?wipe h2 = Done () h3" "sram_idle H S0 h3"
      "sram_mem S0 h3 = put_bytes 0 (replicate 12 0) (sram_mem S0 h2)" "fpec_run F0 h3 = fpec_run F0 h2"
    by blast
  have m2: "sram_mem S0 h2 = sram_mem S0 h" using s1 s2 by (simp add: sram_mem_def)
  have ins: "installing H F0 S0 h3"
    using 2(2) 3 by (simp add: installing_def fpec_usable_def)
  have data: "bytes_at (sram_mem S0 h3) off (unat sz) = data"
    unfolding 3(3) m2 data_def using bb by (intro bytes_at_put_other) simp_all
  have l: "length data = unat sz" by (simp add: data_def)
  have ev: "even (unat sz)" using bb(2) dvd_trans [of 2 4 "unat sz"] by (simp add: dvd_eq_mod_eq_0)
  have blank: "\<forall>i < unat sz div 2. ?E (0x08002000 + 2 * of_nat i) = 0xFFFF"
  proof (intro allI impI)
    fix i assume i: "i < unat sz div 2"
    have "(0x08002000 :: u32) + 2 * of_nat i = 0x08002000 + of_nat (2 * i)" by simp
    moreover have "unat (0x08002000 + of_nat (2 * i) :: u32) = 0x08002000 + 2 * i"
      by (rule app_offset) (use i bb(4) in simp)
    moreover have "2 * i < 1024 * ?n"
      using i div_mult_mod_eq [of "unat sz + 1023" 1024] mod_less_divisor [of 1024 "unat sz + 1023"]
      by linarith
    ultimately show "?E (0x08002000 + 2 * of_nat i) = 0xFFFF"
      by (simp add: erase_span_def)
  qed
  have c3: "flash_content F0 h3 = put_halves 0x08002000 data (unat (0 :: u32) div 2) ?E"
    using 2(3) 3(4) by (simp add: flash_content_def)
  let ?buf = "replicate (unat SRAM_IMAGE_CHUNK_BYTES) 0 :: u8 list"
  from install_loop_writes [OF ins data bb(2,4,5), of 0 ?buf ?E] blank c3 obtain h4 where
    4: "install_loop H off sz ?buf 0 h3 = Done () h4" "installing H F0 S0 h4"
      "sram_mem S0 h4 = sram_mem S0 h3"
      "flash_content F0 h4 = put_halves 0x08002000 data (unat sz div 2) ?E"
    by (auto simp: SRAM_IMAGE_CHUNK_BYTES_def)
  have "install_image H off sz h = block [clear_reboot_flags H, full_system_reset H] h4"
    unfolding install_image_def
    by (simp only: block.simps(2) [of "flash_unlock H"] block.simps(2) [of "?erase"]
        block.simps(2) [of "?wipe"] block.simps(2) [of "install_loop H off sz ?buf 0"]
        bindc_def [of "flash_unlock H" _ h] bindc_def [of "?erase" _ h1] bindc_def [of "?wipe" _ h2]
        bindc_def [of "install_loop H off sz ?buf 0" _ h3] 1(1) 2(1) 3(1) 4(1) result.case)
  then show ?thesis
    using reset_block [OF assms(3), of h4] 4(2,3,4) 3(3) m2 put_halves_span [of data "flash_content F0 h"]
      l bb(4) ev
    by (intro exI [of _ h4]) simp
qed

end
