(* ===== verification/ChecksumPy.thy ===== *)
theory ChecksumPy
  imports Checksum
begin

text \<open>
  \<open>Releas-PRG/checksum.py\<close>: the tool that patches a firmware binary. It pads the file to
  whole words, stores the length in words at offset \<open>0x20\<close>, zero at \<open>0x1C\<close>, XORs the
  words, and stores the result at \<open>0x1C\<close>. The lemmas show that the patched file passes
  the check the bootloader makes, and which bytes the tool touches.
\<close>

datatype py_error = AssertionError | StructError

text \<open>\<open>while len(fwbin) % 4 != 0: fwbin += b"\x00"\<close>\<close>

function pad_word :: "u8 list \<Rightarrow> u8 list" where
  "pad_word fw = (if length fw mod 4 \<noteq> 0 then pad_word (fw @ [0]) else fw)"
  by pat_completeness auto
termination
  by (relation "measure (\<lambda>fw. (4 - length fw mod 4) mod 4)") (auto simp: mod_Suc)

declare pad_word.simps [simp del]

text \<open>\<open>struct.pack("<I", n)\<close>\<close>

definition pack_le32 :: "int \<Rightarrow> py_error + u8 list" where
  "pack_le32 n = (if 0 \<le> n \<and> n < 2 ^ 32 then Inr (bytes32 (word_of_int n)) else Inl StructError)"

text \<open>\<open>for i in range(0, fwlen, 4): xorv ^= struct.unpack("<I", fwbin[i:i+4])[0]\<close>\<close>

primrec py_xor :: "u8 list \<Rightarrow> nat \<Rightarrow> u32 \<Rightarrow> py_error + u32" where
  "py_xor bs 0 x = Inr x"
| "py_xor bs (Suc k) x =
     (case take 4 bs of
        [a, b, c, d] \<Rightarrow> py_xor (drop 4 bs) k (x XOR le32 a b c d)
      | _ \<Rightarrow> Inl StructError)"

text \<open>The script on a file and its optional length argument.\<close>

definition checksum_py :: "u8 list \<Rightarrow> int option \<Rightarrow> py_error + u8 list" where
  "checksum_py fw arg =
     (let fw1 = pad_word fw in
      case (case arg of
              Some n \<Rightarrow> if n mod 4 = 0 then Inr n else Inl AssertionError
            | None \<Rightarrow> Inr (int (length fw1))) of
        Inl e \<Rightarrow> Inl e
      | Inr fwlen \<Rightarrow>
          (case pack_le32 (fwlen div 4) of
             Inl e \<Rightarrow> Inl e
           | Inr sizestr \<Rightarrow>
               (let fw2 = take 0x1C fw1 @ [0, 0, 0, 0] @ sizestr @ drop 0x24 fw1 in
                case py_xor fw2 (nat (fwlen div 4)) 0xB4DC0FEE of
                  Inl e \<Rightarrow> Inl e
                | Inr xorv \<Rightarrow> Inr (take 0x1C fw2 @ bytes32 xorv @ drop 0x20 fw2))))"

section \<open>Lemmas\<close>

lemma length_pad_word: "length (pad_word fw) mod 4 = 0"
proof (induction fw rule: pad_word.induct)
  case (1 fw)
  then show ?case by (cases "length fw mod 4 = 0") (simp_all add: pad_word.simps [of fw])
qed

lemma pad_word_append: "\<exists>zs. pad_word fw = fw @ zs \<and> set zs \<subseteq> {0} \<and> length zs < 4"
proof -
  have "pad_word fw = fw @ replicate ((4 - length fw mod 4) mod 4) 0"
  proof (induction fw rule: pad_word.induct)
    case (1 fw)
    show ?case
    proof (cases "length fw mod 4 = 0")
      case False
      have "length fw mod 4 < 4" by simp
      then have "(4 - length fw mod 4) mod 4 = Suc ((4 - Suc (length fw) mod 4) mod 4)"
        using False by (auto simp: mod_Suc)
      with "1" False show ?thesis by (simp add: pad_word.simps [of fw])
    qed (simp add: pad_word.simps)
  qed
  then show ?thesis by (intro exI [of _ "replicate ((4 - length fw mod 4) mod 4) 0"]) auto
qed

lemma py_xor_words: "4 * k \<le> length bs \<Longrightarrow> py_xor bs k x = Inr (xor_list x (words_of (take (4 * k) bs)))"
proof (induction k arbitrary: bs x)
  case 0
  then show ?case by (simp add: xor_list_def)
next
  case (Suc k)
  then obtain a b c d r where bs: "bs = a # b # c # d # r"
    by (cases bs rule: words_of.cases) auto
  have "take (4 * Suc k) bs = a # b # c # d # take (4 * k) r"
    by (simp add: bs numeral_eq_Suc)
  with Suc bs show ?case by (simp add: xor_list_def)
qed

lemma word_list_split:
  assumes "length fw mod 4 = 0" and "36 \<le> length fw"
  shows "words_of (take 0x1C fw @ bytes32 x @ bytes32 y @ drop 0x24 fw) =
    words_of (take 0x1C fw) @ [x, y] @ words_of (drop 0x24 fw)"
  using assms by (simp add: words_of_append)

lemma xor_list_middle:
  "xor_list s (A @ [u, v] @ D) = s XOR xor_list 0 A XOR u XOR v XOR xor_list 0 D"
proof -
  have "xor_list s (A @ [u, v] @ D) = xor_list (xor_list s A XOR u XOR v) D"
    by (simp add: xor_list_def xor.assoc)
  also have "\<dots> = (xor_list s A XOR u XOR v) XOR xor_list 0 D" by (rule xor_list_factor)
  also have "xor_list s A = s XOR xor_list 0 A" by (rule xor_list_factor)
  finally show ?thesis by (simp only: xor.assoc)
qed

lemma checksum_py_default:
  assumes len: "33 \<le> length fw" "length fw < 2 ^ 34 - 4"
  defines "fw1 \<equiv> pad_word fw"
  defines "n \<equiv> (of_nat (length fw1 div 4) :: u32)"
  shows "\<exists>x. checksum_py fw None =
      Inr (take 0x1C fw1 @ bytes32 x @ bytes32 n @ drop 0x24 fw1) \<and>
    xor_sum (take 0x1C fw1 @ bytes32 x @ bytes32 n @ drop 0x24 fw1) = 0"
proof -
  from pad_word_append [of fw] obtain zs where "fw1 = fw @ zs" "length zs < 4"
    by (auto simp: fw1_def)
  moreover have m: "length fw1 mod 4 = 0" by (simp add: fw1_def length_pad_word)
  ultimately have l: "36 \<le> length fw1" "length fw1 < 2 ^ 34" using len by auto
  let ?fw2 = "take 0x1C fw1 @ bytes32 0 @ bytes32 n @ drop 0x24 fw1"
  define x where "x = xor_list 0xB4DC0FEE (words_of ?fw2)"
  have z: "bytes32 0 = [0, 0, 0, 0]" by (simp add: bytes32_def)
  have d: "int (length fw1) div 4 = int (length fw1 div 4)" by simp
  have p: "pack_le32 (int (length fw1) div 4) = Inr (bytes32 n)"
    using l unfolding d pack_le32_def n_def by simp
  have "length ?fw2 = length fw1" using l by simp
  moreover have "4 * (length fw1 div 4) = length fw1" using m by auto
  ultimately have "py_xor ?fw2 (nat (int (length fw1) div 4)) 0xB4DC0FEE = Inr x"
    unfolding d by (simp add: py_xor_words x_def del: of_nat_div)
  then have "checksum_py fw None = Inr (take 0x1C ?fw2 @ bytes32 x @ drop 0x20 ?fw2)"
    using p unfolding checksum_py_def fw1_def [symmetric] Let_def by (simp add: z)
  also have "take 0x1C ?fw2 @ bytes32 x @ drop 0x20 ?fw2 =
      take 0x1C fw1 @ bytes32 x @ bytes32 n @ drop 0x24 fw1"
    using l by (simp add: z)
  finally have out: "checksum_py fw None =
      Inr (take 0x1C fw1 @ bytes32 x @ bytes32 n @ drop 0x24 fw1)" .
  let ?A = "words_of (take 0x1C fw1)" and ?D = "words_of (drop 0x24 fw1)"
  have "x = xor_list CHECKSUM_XOR_START (?A @ [0, n] @ ?D)"
    unfolding x_def word_list_split [OF m l(1)] by (simp add: CHECKSUM_XOR_START_def)
  also have "\<dots> = CHECKSUM_XOR_START XOR xor_list 0 ?A XOR n XOR xor_list 0 ?D"
    by (simp only: xor_list_middle) (simp add: ac_simps)
  finally have x: "x = CHECKSUM_XOR_START XOR xor_list 0 ?A XOR n XOR xor_list 0 ?D" .
  have "xor_sum (take 0x1C fw1 @ bytes32 x @ bytes32 n @ drop 0x24 fw1) =
      xor_list CHECKSUM_XOR_START (?A @ [x, n] @ ?D)"
    unfolding xor_sum_def word_list_split [OF m l(1)] ..
  also have "\<dots> = CHECKSUM_XOR_START XOR xor_list 0 ?A XOR x XOR n XOR xor_list 0 ?D"
    by (rule xor_list_middle)
  also have "\<dots> = 0" unfolding x by (simp add: ac_simps)
  finally show ?thesis using out by blast
qed

end
