(* ===== verification/BootSpec.thy ===== *)
theory BootSpec
  imports Install ChecksumPy
begin

text \<open>
  What a reset does. The boot code of the configured build is a function of three things:
  the staged image in the RAM chip, the word kept across resets, and the application in
  the flash. It installs and resets, enters DFU mode, or jumps into the application.
\<close>

section \<open>The hardware at boot\<close>

text \<open>The peripheral registers the boot code uses besides those of the flash and SPI2 data.\<close>

definition boot_regs :: "u32 list" where
  "boot_regs =
     [RCC_APB2ENR, RCC_APB1ENR, GPIO_CRH SPI_SRAM_PORT, GPIO_BSRR SPI_SRAM_PORT, SPI2_CR1,
      RCC_CSR, 0xE000ED08]"

definition boot_hw :: "hw \<Rightarrow> fpec \<Rightarrow> sram \<Rightarrow> u32 \<Rightarrow> bool" where
  "boot_hw H F0 S0 w0 \<longleftrightarrow> fpec_hw H F0 \<and> sram_hw H S0 \<and> reset_hw H \<and>
     (\<forall>h. H h (Load W32 stack_word) = Some (stack_run w0 h)) \<and>
     (\<forall>h. \<forall>a \<in> set boot_regs. H h (Load W32 a) \<noteq> None \<and> (\<forall>v. H h (Store W32 a v) \<noteq> None))"

text \<open>A moment at which the core comes out of reset.\<close>

definition at_reset :: "hw \<Rightarrow> fpec \<Rightarrow> sram \<Rightarrow> u32 \<Rightarrow> history \<Rightarrow> bool" where
  "at_reset H F0 S0 w0 h \<longleftrightarrow> boot_hw H F0 S0 w0 \<and> fpec_rest H F0 h \<and> sram_idle H S0 h"

lemma finishes_load: "boot_hw H F0 S0 w0 \<Longrightarrow> a \<in> set boot_regs \<Longrightarrow> finishes (load32 H a)"
  by (fastforce simp: boot_hw_def finishes_def load_def split: option.splits)

lemma finishes_store: "boot_hw H F0 S0 w0 \<Longrightarrow> a \<in> set boot_regs \<Longrightarrow> finishes (store32 H a v)"
  by (fastforce simp: boot_hw_def finishes_def store_def split: option.splits)

lemma finishes_or32: "boot_hw H F0 S0 w0 \<Longrightarrow> a \<in> set boot_regs \<Longrightarrow> finishes (or32 H a m)"
  unfolding or32_def by (intro finishes_rules finishes_load finishes_store)

section \<open>The three views\<close>

interpretation tv: bystander "\<lambda>h. (fpec_run F0 h, sram_run S0 h, stack_run w0 h)"
    "\<lambda>w a. touches_fpec w a \<or> touches_sram w a \<or> a = stack_word" for F0 S0 w0
  by unfold_locales (simp_all only: fv.view_load sv.view_load kv.view_load
      fv.view_store sv.view_store kv.view_store de_Morgan_disj not_False_eq_True)

definition still :: "fpec \<Rightarrow> sram \<Rightarrow> u32 \<Rightarrow> history \<Rightarrow> history \<Rightarrow> bool" where
  "still F0 S0 w0 h h' \<longleftrightarrow>
     (fpec_run F0 h', sram_run S0 h', stack_run w0 h') = (fpec_run F0 h, sram_run S0 h, stack_run w0 h)"

lemma still_trans: "still F0 S0 w0 h h1 \<Longrightarrow> still F0 S0 w0 h1 h2 \<Longrightarrow> still F0 S0 w0 h h2"
  by (simp add: still_def)

lemma still_load [simp]: "still F0 S0 w0 h (Loaded w a v # h)"
  by (simp add: still_def fv.view_load)

lemma still_views:
  assumes "still F0 S0 w0 h h'"
  shows "flash_content F0 h' = flash_content F0 h" "sram_mem S0 h' = sram_mem S0 h"
    "stack_run w0 h' = stack_run w0 h" "at_reset H F0 S0 w0 h' = at_reset H F0 S0 w0 h"
    "fpec_run F0 h' = fpec_run F0 h" "sram_run S0 h' = sram_run S0 h"
  using assms by (simp_all add: still_def flash_content_def sram_mem_def at_reset_def fpec_rest_def
      sram_idle_def)

text \<open>Setting the chip select or another pin of the port leaves an idle chip idle.\<close>

lemma leaves_gpio_set:
  assumes S: "\<not> sel S" "got S = []" and n: "n < 16"
  shows "keeps (\<lambda>h. (fpec_run F0 h, sram_run S0 h, stack_run w0 h) = (F, S, k))
    (gpio_set H SPI_SRAM_PORT n)"
proof -
  have "\<not> bit (push_bit (unat n) 1 :: u32) 28"
    using n by (auto simp: bit_exp_iff word_less_nat_alt)
  moreover have "S\<lparr>sel := False, got := []\<rparr> = S" using S by (cases S) simp
  ultimately have "sram_cs (push_bit (unat n) 1) S = S"
    unfolding sram_cs_def by (simp only: simp_thms if_False) simp
  then show ?thesis
    unfolding gpio_set_def by (intro keeps_store) (auto simp: fpec_reg_def kv.view_store)
qed

lemma spi_pins:
  "\<not> SPI_SRAM_CS_PIN < 8" "\<not> SPI_SRAM_SCK_PIN < 8" "\<not> SPI_SRAM_MOSI_PIN < 8"
  "\<not> SPI_SRAM_MISO_PIN < 8" "SPI_SRAM_CS_PIN < 16" "SPI_SRAM_MISO_PIN < 16"
  by (simp_all add: SPI_SRAM_CS_PIN_def SPI_SRAM_SCK_PIN_def SPI_SRAM_MOSI_PIN_def SPI_SRAM_MISO_PIN_def)

lemma spi_init_leaves:
  assumes S: "\<not> sel S" "got S = []"
  shows "keeps (\<lambda>h. (fpec_run F0 h, sram_run S0 h, stack_run w0 h) = (F, S, k)) (spi_sram_hw_init H)"
proof -
  let ?K = "\<lambda>h. (fpec_run F0 h, sram_run S0 h, stack_run w0 h) = (F, S, k)"
  have nt: "\<not> (touches_fpec W32 a \<or> touches_sram W32 a \<or> a = stack_word)"
    if "a \<in> {RCC_APB2ENR, RCC_APB1ENR, GPIO_CRH SPI_SRAM_PORT, SPI2_CR1}" for a
    using that by (auto simp: reg_defs SPI_SRAM_PORT_def)
  have km: "keeps ?K (gpio_set_mode H SPI_SRAM_PORT n m)" if "\<not> n < 8" for n m
    unfolding gpio_set_mode_def if_not_P [OF that]
    by (intro keeps_bindc tv.leaves_load tv.leaves_store nt) simp
  have ks: "keeps ?K (gpio_set H SPI_SRAM_PORT n)" if "n < 16" for n
    by (rule leaves_gpio_set [OF S that])
  have or: "keeps ?K (or32 H a m)" "keeps ?K (store32 H a m)"
    if "a \<in> {RCC_APB2ENR, RCC_APB1ENR, GPIO_CRH SPI_SRAM_PORT, SPI2_CR1}" for a m
    by (rule tv.leaves_or32 tv.leaves_store nt that)+
  show ?thesis
    unfolding spi_sram_hw_init_def rcc_gpio_enable_def gpio_set_output_def
    by (rule tv.leaves_list)
      (simp only: list.pred_inject km [OF spi_pins(1)] km [OF spi_pins(2)] km [OF spi_pins(3)]
        km [OF spi_pins(4)] ks [OF spi_pins(5)] ks [OF spi_pins(6)] or insert_iff simp_thms
        tv.leaves_load keeps_bindc keeps_give)
qed

lemma spi_init_still:
  assumes B: "boot_hw H F0 S0 w0" and i: "sram_idle H S0 h"
  shows "\<exists>h'. spi_sram_hw_init H h = Done () h' \<and> still F0 S0 w0 h h'"
proof -
  note fin = finishes_load [OF B] finishes_store [OF B] finishes_or32 [OF B]
  have mem: "RCC_APB2ENR \<in> set boot_regs" "RCC_APB1ENR \<in> set boot_regs"
    "GPIO_CRH SPI_SRAM_PORT \<in> set boot_regs" "GPIO_BSRR SPI_SRAM_PORT \<in> set boot_regs"
    "SPI2_CR1 \<in> set boot_regs"
    by (simp_all add: boot_regs_def)
  have fm: "finishes (gpio_set_mode H SPI_SRAM_PORT n m)" if "\<not> n < 8" for n m
    using that unfolding gpio_set_mode_def by (simp add: finishes_bindc fin mem)
  have fs: "finishes (gpio_set H SPI_SRAM_PORT n)" for n
    unfolding gpio_set_def by (rule fin mem)+
  have "finishes (spi_sram_hw_init H)"
    unfolding spi_sram_hw_init_def rcc_gpio_enable_def gpio_set_output_def
    by (rule finishes_list) (simp add: fin mem fm spi_pins fs finishes_bindc finishes_give)
  then obtain h' where 1: "spi_sram_hw_init H h = Done () h'" by (auto simp: finishes_def)
  from i have "\<not> sel (sram_run S0 h)" "got (sram_run S0 h) = []" by (simp_all add: sram_idle_def)
  from keeps_Done [OF spi_init_leaves [OF this] refl 1] 1 show ?thesis by (auto simp: still_def)
qed

section \<open>The application in the flash\<close>

definition app_word :: "(u32 \<Rightarrow> u16) \<Rightarrow> u32 \<Rightarrow> u32" where
  "app_word f k = cell_word f (0x08002000 + k)"

definition app_words :: "(u32 \<Rightarrow> u16) \<Rightarrow> nat \<Rightarrow> u32 list" where
  "app_words f n = map (\<lambda>i. cell_word f (0x08002000 + 4 * of_nat i)) [0..<n]"

text \<open>
  The application is started if the size it declares fits, its initial stack pointer lies
  in the RAM and the XOR of its words with the start value is zero.
\<close>

definition app_valid :: "(u32 \<Rightarrow> u16) \<Rightarrow> bool" where
  "app_valid f \<longleftrightarrow>
     unat (app_word f 0x20) \<le> 30720 \<and> app_word f 0 AND 0x2FFE0000 = 0x20000000 \<and>
     xor_list CHECKSUM_XOR_START (app_words f (unat (app_word f 0x20))) = 0"

lemma app_load:
  assumes "at_reset H F0 S0 w0 h" and "k < 122880" "k mod 4 = 0"
  shows "\<exists>h'. load32 H (APP_ADDRESS + of_nat k) h = Done (app_word (flash_content F0 h) (of_nat k)) h' \<and>
    still F0 S0 w0 h h'"
proof -
  have u: "unat (APP_ADDRESS + of_nat k) = 0x08002000 + k" using app_offset [of k] assms(2) by simp
  have "(0x08002000 + k) mod 4 = 0" using assms(3) by (simp add: dvd_add flip: dvd_eq_mod_eq_0)
  then have "in_flash (APP_ADDRESS + of_nat k)" "unat (APP_ADDRESS + of_nat k) mod 4 = 0"
    using u assms(2) by (simp_all add: in_flash_def word_le_nat_alt word_less_nat_alt)
  with assms(1) have "H h (Load W32 (APP_ADDRESS + of_nat k)) =
      Some (cell_word (flash_content F0 h) (APP_ADDRESS + of_nat k))"
    by (auto simp: at_reset_def boot_hw_def fpec_hw_def flash_content_def)
  then show ?thesis by (simp add: load_def app_word_def)
qed

lemma app_checksum:
  assumes "at_reset H F0 S0 w0 h" and "unat n \<le> 30720"
  shows "\<exists>h'. validate_checksum H APP_ADDRESS n h =
      Done (xor_list CHECKSUM_XOR_START (app_words (flash_content F0 h) (unat n)) = 0) h' \<and>
    still F0 S0 w0 h h'"
proof -
  have r: "\<forall>i < unat n. in_flash (APP_ADDRESS + 4 * of_nat i) \<and> unat (APP_ADDRESS + 4 * of_nat i) mod 4 = 0"
  proof (intro allI impI)
    fix i assume "i < unat n"
    then have i: "4 * i < 122880" using assms(2) by linarith
    then have u: "unat (0x08002000 + of_nat (4 * i) :: u32) = 0x08002000 + 4 * i"
      by (intro app_offset) simp
    have a: "APP_ADDRESS + 4 * of_nat i = 0x08002000 + of_nat (4 * i)" by simp
    have "(0x08002000 + 4 * i) mod 4 = 0" by simp
    then show "in_flash (APP_ADDRESS + 4 * of_nat i) \<and> unat (APP_ADDRESS + 4 * of_nat i) mod 4 = 0"
      unfolding a u in_flash_def word_le_nat_alt word_less_nat_alt using i by simp
  qed
  have "fpec_hw H F0" using assms(1) by (simp add: at_reset_def boot_hw_def)
  from effectD [OF effect_validate_checksum [OF this r] refl] obtain h' where
    1: "validate_checksum H APP_ADDRESS n h =
      Done (xor_list CHECKSUM_XOR_START (flash_words (fpec_run F0 h) APP_ADDRESS (unat n)) = 0) h'" by blast
  from tv.unchanged [OF tv.leaves_validate_checksum 1] 1 show ?thesis
    by (auto simp: still_def app_words_def flash_words_def flash_content_def)
qed

section \<open>The boot decision\<close>

lemma rebooted_still:
  assumes "at_reset H F0 S0 w0 h"
  shows "\<exists>h'. rebooted_into_dfu H h = Done (stack_run w0 h = 0xCC00FFEE) h' \<and> still F0 S0 w0 h h'"
proof -
  have "H h (Load W32 stack_word) = Some (stack_run w0 h)"
    using assms by (simp add: at_reset_def boot_hw_def)
  then show ?thesis by (simp add: rebooted_into_dfu_def bindc_def load_def give_def)
qed

lemma go_dfu_still:
  assumes "at_reset H F0 S0 w0 h"
  shows "\<exists>h'. go_dfu flash_config H n h = Done (stack_run w0 h = 0xCC00FFEE \<or> 30720 < unat n) h' \<and>
    still F0 S0 w0 h h'"
proof -
  have c: "go_dfu flash_config H n = bindc (rebooted_into_dfu H) (\<lambda>b.
      give (b \<or> 30720 < unat n))"
    by (rule ext) (auto simp: go_dfu_def flash_config_def force_dfu_gpio_def bindc_def give_def
        FLASH_BOOTLDR_PAYLOAD_SIZE_KB_def word_less_nat_alt split: result.splits)
  from rebooted_still [OF assms] obtain h' where
    1: "rebooted_into_dfu H h = Done (stack_run w0 h = 0xCC00FFEE) h'" "still F0 S0 w0 h h'" by blast
  then show ?thesis unfolding c by (intro exI [of _ h']) (simp add: bindc_def give_def)
qed

lemma remove_flags_still:
  assumes "at_reset H F0 S0 w0 h"
  shows "\<exists>h'. or32 H RCC_CSR RCC_CSR_RMVF h = Done () h' \<and> still F0 S0 w0 h h'"
proof -
  have "boot_hw H F0 S0 w0" using assms by (simp add: at_reset_def)
  then have "finishes (or32 H RCC_CSR RCC_CSR_RMVF)"
    by (rule finishes_or32) (simp add: boot_regs_def)
  then obtain u h' where 1: "or32 H RCC_CSR RCC_CSR_RMVF h = Done u h'"
    unfolding finishes_def by blast
  have "(fpec_run F0 h', sram_run S0 h', stack_run w0 h') = (fpec_run F0 h, sram_run S0 h, stack_run w0 h)"
    by (rule tv.unchanged [OF tv.leaves_or32 1]) (simp add: reg_defs SPI_SRAM_PORT_def)
  with 1 show ?thesis by (simp add: still_def)
qed

text \<open>The jump: the word kept across resets is cleared, everything else is as before.\<close>

lemma start_app_jumps:
  assumes r: "at_reset H F0 S0 w0 h"
  shows "\<exists>h'. start_app flash_config H h =
      Stopped (JumpApp (app_word (flash_content F0 h) 0) (app_word (flash_content F0 h) 4)) h' \<and>
    fpec_run F0 h' = fpec_run F0 h \<and> sram_run S0 h' = sram_run S0 h \<and> stack_run w0 h' = 0"
proof -
  let ?h1 = "Stored W32 stack_word 0 # h"
  let ?h2 = "Stored W32 0xE000ED08 0x2000 # ?h1"
  have B: "boot_hw H F0 S0 w0" using r by (simp add: at_reset_def)
  then have "H h (Store W32 stack_word 0) \<noteq> None" by (simp add: boot_hw_def reset_hw_def)
  then have 1: "clear_reboot_flags H h = Done () ?h1"
    by (auto simp: clear_reboot_flags_def store_def)
  have "H ?h1 (Store W32 0xE000ED08 0x2000) \<noteq> None"
    using B by (simp add: boot_hw_def boot_regs_def)
  then have 2: "store32 H 0xE000ED08 (APP_ADDRESS AND 0xFFFF) ?h1 = Done () ?h2"
    by (auto simp: store_def)
  have v: "fpec_run F0 ?h2 = fpec_run F0 h" "sram_run S0 ?h2 = sram_run S0 h" "stack_run w0 ?h2 = 0"
    by (simp_all add: fpec_reg_def reg_defs SPI_SRAM_PORT_def)
  have r2: "at_reset H F0 S0 w0 ?h2" "flash_content F0 ?h2 = flash_content F0 h"
    using r v by (simp_all add: at_reset_def fpec_rest_def sram_idle_def flash_content_def
        del: fpec_run.simps sram_run.simps stack_run.simps)
  from app_load [OF r2(1), of 0] r2(2) obtain h3 where
    3: "load32 H APP_ADDRESS ?h2 = Done (app_word (flash_content F0 h) 0) h3" "still F0 S0 w0 ?h2 h3" by auto
  have "at_reset H F0 S0 w0 h3" "flash_content F0 h3 = flash_content F0 h"
    using still_views [OF 3(2)] r2 by simp_all
  with app_load [of H F0 S0 w0 h3 4] obtain h4 where
    4: "load32 H (APP_ADDRESS + 4) h3 = Done (app_word (flash_content F0 h) 4) h4" "still F0 S0 w0 h3 h4" by auto
  have "start_app flash_config H h =
      Stopped (JumpApp (app_word (flash_content F0 h) 0) (app_word (flash_content F0 h) 4)) h4"
    by (simp only: start_app_def block.simps flash_config_def config.simps option.case bindc_give
        bindc_def [of "clear_reboot_flags H"] bindc_def [of "store32 H 0xE000ED08 (APP_ADDRESS AND 0xFFFF)"]
        bindc_def [of "load32 H APP_ADDRESS"] bindc_def [of "load32 H (APP_ADDRESS + 4)"]
        bindc_def [of "bindc _ _"] 1 2 3(1) 4(1) result.case halt_def)
  with still_views [OF 3(2)] still_views [OF 4(2)] v show ?thesis
    by (intro exI [of _ h4]) (simp del: fpec_run.simps sram_run.simps stack_run.simps)
qed

lemma boot_app_decides:
  assumes r: "at_reset H F0 S0 w0 h" and n: "n = app_word (flash_content F0 h) 0x20"
  defines "f \<equiv> flash_content F0 h"
  shows "\<exists>h'. boot_app flash_config H n h =
      (if stack_run w0 h = 0xCC00FFEE \<or> \<not> app_valid f then Done () h'
       else Stopped (JumpApp (app_word f 0) (app_word f 4)) h') \<and>
    fpec_run F0 h' = fpec_run F0 h \<and> sram_run S0 h' = sram_run S0 h \<and>
    stack_run w0 h' = (if stack_run w0 h = 0xCC00FFEE \<or> \<not> app_valid f then stack_run w0 h else 0)"
proof -
  have C: "enable_checksum flash_config" by (simp add: flash_config_def)
  let ?dfu = "stack_run w0 h = 0xCC00FFEE \<or> 30720 < unat n"
  from go_dfu_still [OF r, of n] obtain h1 where
    1: "go_dfu flash_config H n h = Done ?dfu h1" "still F0 S0 w0 h h1" by blast
  have r1: "at_reset H F0 S0 w0 h1" using r still_views(4) [OF 1(2)] by simp
  from remove_flags_still [OF r1] obtain h2 where
    2: "or32 H RCC_CSR RCC_CSR_RMVF h1 = Done () h2" "still F0 S0 w0 h1 h2" by blast
  have s2: "still F0 S0 w0 h h2" using still_trans 1(2) 2(2) by blast
  have r2: "at_reset H F0 S0 w0 h2" using r still_views(4) [OF s2] by simp
  let ?rest = "bindc (load32 H APP_ADDRESS) (\<lambda>sp.
         if sp AND 0x2FFE0000 = 0x20000000
         then bindc (if enable_checksum flash_config then validate_checksum H APP_ADDRESS n else give True)
           (\<lambda>ok. if ok then start_app flash_config H else skip)
         else skip)"
  have run: "boot_app flash_config H n h = (if ?dfu then skip else ?rest) h2"
    by (simp only: boot_app_def bindc_def [of "go_dfu flash_config H n"]
        bindc_def [of "or32 H RCC_CSR RCC_CSR_RMVF"] 1(1) 2(1) result.case)
  show ?thesis
  proof (cases ?dfu)
    case True
    then have "stack_run w0 h = 0xCC00FFEE \<or> \<not> app_valid f"
      using n by (auto simp: app_valid_def f_def)
    with True run still_views [OF s2] show ?thesis
      by (intro exI [of _ h2]) (simp add: give_def)
  next
    case nd0: False
    have f2: "flash_content F0 h2 = f" using still_views(1) [OF s2] by (simp add: f_def)
    from app_load [OF r2, of 0] f2 obtain h3 where
      3: "load32 H APP_ADDRESS h2 = Done (app_word f 0) h3" "still F0 S0 w0 h2 h3" by auto
    have s3: "still F0 S0 w0 h h3" using still_trans s2 3(2) by blast
    have r3: "at_reset H F0 S0 w0 h3" "flash_content F0 h3 = f"
      using r still_views [OF s3] by (simp_all add: f_def)
    have n': "unat n \<le> 30720" using nd0 by simp
    show ?thesis
    proof (cases "app_word f 0 AND 0x2FFE0000 = 0x20000000")
      case False
      then have "boot_app flash_config H n h = Done () h3"
        by (simp only: run if_not_P [OF nd0] bindc_def [of "load32 H APP_ADDRESS"] 3(1) result.case
            if_False give_def)
      moreover have "\<not> app_valid f" using False by (simp add: app_valid_def)
      ultimately show ?thesis using still_views [OF s3] by (intro exI [of _ h3]) simp
    next
      case True
      let ?ok = "xor_list CHECKSUM_XOR_START (app_words f (unat n)) = 0"
      from app_checksum [OF r3(1) n'] r3(2) obtain h4 where
        4: "validate_checksum H APP_ADDRESS n h3 = Done ?ok h4" "still F0 S0 w0 h3 h4" by auto
      have s4: "still F0 S0 w0 h h4" using still_trans s3 4(2) by blast
      have v: "app_valid f \<longleftrightarrow> ?ok" using n n' True by (simp add: app_valid_def f_def)
      have run4: "boot_app flash_config H n h = (if ?ok then start_app flash_config H else skip) h4"
        using nd0 True C
        by (simp only: run if_False simp_thms if_True bindc_def [of "load32 H APP_ADDRESS"]
            bindc_def [of "validate_checksum H APP_ADDRESS n"] 3(1) 4(1) result.case)
      show ?thesis
      proof (cases ?ok)
        case True
        have r4: "at_reset H F0 S0 w0 h4" "flash_content F0 h4 = f"
          using r still_views [OF s4] by (simp_all add: f_def)
        from start_app_jumps [OF r4(1)] r4(2) obtain h5 where
          5: "start_app flash_config H h4 = Stopped (JumpApp (app_word f 0) (app_word f 4)) h5"
            "fpec_run F0 h5 = fpec_run F0 h4" "sram_run S0 h5 = sram_run S0 h4" "stack_run w0 h5 = 0" by auto
        have nd: "stack_run w0 h \<noteq> 0xCC00FFEE" using nd0 by blast
        have "boot_app flash_config H n h = Stopped (JumpApp (app_word f 0) (app_word f 4)) h5"
          unfolding run4 if_P [OF True] by (rule 5(1))
        then show ?thesis using 5(2-4) True v nd still_views [OF s4] by (intro exI [of _ h5]) simp
      next
        case False
        have "boot_app flash_config H n h = Done () h4" unfolding run4 if_not_P [OF False] by (simp add: give_def)
        then show ?thesis using False v still_views [OF s4] by (intro exI [of _ h4]) simp
      qed
    qed
  qed
qed

section \<open>The staged image at boot\<close>

lemma valid_image_still:
  assumes r: "at_reset H F0 S0 w0 h"
  shows "\<exists>h'. sram_has_valid_image H h = Done (image_spec (sram_mem S0 h)) h' \<and> still F0 S0 w0 h h'"
proof -
  have i: "sram_idle H S0 h" using r by (simp add: at_reset_def)
  from sram_has_valid_image_spec [OF i] obtain h' where
    1: "sram_has_valid_image H h = Done (image_spec (sram_mem S0 h)) h'" "sram_idle H S0 h'"
      "sram_mem S0 h' = sram_mem S0 h" by blast
  have s: "sram_run S0 h' = sram_run S0 h"
    using 1(2,3) i by (cases "sram_run S0 h"; cases "sram_run S0 h'") (simp add: sram_idle_def sram_mem_def)
  have fk: "keeps (\<lambda>h. fpec_run F0 h = G) (sram_has_valid_image H)" for G
    unfolding sram_has_valid_image_def Let_def split_beta
    by (intro keeps_rules fv.leaves_read fv.leaves_stream) simp_all
  have kk: "keeps (\<lambda>h. stack_run w0 h = G) (sram_has_valid_image H)" for G
    unfolding sram_has_valid_image_def Let_def split_beta
    by (intro keeps_rules kv.leaves_read kv.leaves_stream) simp_all
  from fv.unchanged [OF fk 1(1)] kv.unchanged [OF kk 1(1)] s 1(1) show ?thesis
    by (auto simp: still_def)
qed

lemma header_still:
  assumes r: "at_reset H F0 S0 w0 h"
  shows "\<exists>h'. spi_sram_read H SRAM_IMAGE_HEADER_OFFSET (Some (replicate (unat sizeof_header) 0))
      sizeof_header h = Done (0, bytes_at (sram_mem S0 h) 0 12) h' \<and> still F0 S0 w0 h h'"
proof -
  have i: "sram_idle H S0 h" using r by (simp add: at_reset_def)
  from sr.header_read [OF i] obtain h' where
    1: "spi_sram_read H 0 (Some (replicate 12 0)) 12 h = Done (0, bytes_at (sram_mem S0 h) 0 12) h'"
      "sram_idle H S0 h'" "sram_mem S0 h' = sram_mem S0 h" by blast
  have s: "sram_run S0 h' = sram_run S0 h"
    using 1(2,3) i by (cases "sram_run S0 h"; cases "sram_run S0 h'") (simp add: sram_idle_def sram_mem_def)
  have "fpec_run F0 h' = fpec_run F0 h" by (rule fv.unchanged [OF fv.leaves_read 1(1)]) simp_all
  moreover have "stack_run w0 h' = stack_run w0 h" by (rule kv.unchanged [OF kv.leaves_read 1(1)]) simp_all
  ultimately show ?thesis
    using 1(1) s by (simp add: still_def SRAM_IMAGE_HEADER_OFFSET_def sizeof_header_def)
qed

text \<open>What an installation leaves in the flash and in the RAM chip.\<close>

definition installed :: "(u32 \<Rightarrow> u8) \<Rightarrow> (u32 \<Rightarrow> u16) \<Rightarrow> u32 \<Rightarrow> u16" where
  "installed m f = image_cells 0x08002000
     (bytes_at m (offset (staged_header m)) (unat (hdr_size (staged_header m)))) f"

lemma boot_from_sram_decides:
  assumes r: "at_reset H F0 S0 w0 h"
  defines "m \<equiv> sram_mem S0 h" and "f \<equiv> flash_content F0 h"
  shows "\<exists>h'. boot_from_sram H h = (if image_spec m then Stopped Reset h' else Done () h') \<and>
    at_reset H F0 S0 w0 h' \<and>
    flash_content F0 h' = (if image_spec m then installed m f else f) \<and>
    sram_mem S0 h' = (if image_spec m then put_bytes 0 (replicate 12 0) m else m) \<and>
    stack_run w0 h' = (if image_spec m then 0 else stack_run w0 h) \<and>
    (\<not> image_spec m \<longrightarrow> fpec_run F0 h' = fpec_run F0 h)"
proof -
  have B: "boot_hw H F0 S0 w0" and i: "sram_idle H S0 h" using r by (simp_all add: at_reset_def)
  from spi_init_still [OF B i] obtain h1 where
    1: "spi_sram_hw_init H h = Done () h1" "still F0 S0 w0 h h1" by blast
  have r1: "at_reset H F0 S0 w0 h1" "sram_mem S0 h1 = m"
    using r still_views [OF 1(2)] by (simp_all add: m_def)
  from valid_image_still [OF r1(1)] r1(2) obtain h2 where
    2: "sram_has_valid_image H h1 = Done (image_spec m) h2" "still F0 S0 w0 h1 h2" by auto
  have s2: "still F0 S0 w0 h h2" using still_trans 1(2) 2(2) by blast
  have r2: "at_reset H F0 S0 w0 h2" "sram_mem S0 h2 = m" "flash_content F0 h2 = f"
      "stack_run w0 h2 = stack_run w0 h" "fpec_run F0 h2 = fpec_run F0 h"
    using r still_views [OF s2] by (simp_all add: m_def f_def)
  let ?off = "offset (staged_header m)" and ?sz = "hdr_size (staged_header m)"
  let ?cont = "bindc (spi_sram_read H SRAM_IMAGE_HEADER_OFFSET
      (Some (replicate (unat sizeof_header) 0)) sizeof_header) (\<lambda>(r, bs).
        if r = 0
        then install_image H (sram_le32 (offset (header_of_bytes bs)))
               (sram_le32 (hdr_size (header_of_bytes bs)))
        else skip)"
  have run: "boot_from_sram H h = (if image_spec m then ?cont else skip) h2"
    by (simp only: boot_from_sram_def bindc_def [of "spi_sram_hw_init H"]
        bindc_def [of "sram_has_valid_image H"] 1(1) 2(1) result.case)
  show ?thesis
  proof (cases "image_spec m")
    case False
    with run r2 show ?thesis by (intro exI [of _ h2]) (simp add: give_def)
  next
    case True
    from header_still [OF r2(1)] r2(2) obtain h3 where
      3: "spi_sram_read H SRAM_IMAGE_HEADER_OFFSET (Some (replicate (unat sizeof_header) 0))
          sizeof_header h2 = Done (0, bytes_at m 0 12) h3" "still F0 S0 w0 h2 h3" by auto
    have r3: "at_reset H F0 S0 w0 h3" "sram_mem S0 h3 = m" "flash_content F0 h3 = f"
      using r2 still_views [OF 3(2)] by simp_all
    have b: "bounds_spec (unat ?off) (unat ?sz)" using True by (simp add: image_spec_def)
    have i3: "fpec_rest H F0 h3" "sram_idle H S0 h3" "reset_hw H"
      using r3(1) by (simp_all add: at_reset_def boot_hw_def)
    from install_writes [OF i3 b] obtain h4 where
      4: "install_image H ?off ?sz h3 =
          Stopped Reset (Stored W32 0xE000ED0C 0x05FA0004 # Stored W32 stack_word 0 # h4)"
        "installing H F0 S0 h4" "sram_mem S0 h4 = put_bytes 0 (replicate 12 0) m"
        "flash_content F0 h4 = installed m f"
      unfolding r3(2,3) installed_def by blast
    let ?h5 = "Stored W32 0xE000ED0C 0x05FA0004 # Stored W32 stack_word 0 # h4"
    have v: "fpec_run F0 ?h5 = fpec_run F0 h4" "sram_run S0 ?h5 = sram_run S0 h4" "stack_run w0 ?h5 = 0"
      by (simp_all add: fpec_reg_def reg_defs SPI_SRAM_PORT_def)
    have "at_reset H F0 S0 w0 ?h5"
      unfolding at_reset_def fpec_rest_def sram_idle_def v(1,2)
      using B 4(2) by (simp add: installing_def fpec_usable_def ready_def sram_idle_def)
    moreover have "flash_content F0 ?h5 = installed m f" "sram_mem S0 ?h5 = put_bytes 0 (replicate 12 0) m"
      using 4(3,4) v(1,2) by (simp_all only: flash_content_def sram_mem_def)
    moreover have "boot_from_sram H h = Stopped Reset ?h5"
      using 3(1) 4(1) True
      by (simp only: run if_True bindc_def 3(1) result.case prod.case simp_thms sram_le32_id
          staged_header_def [symmetric])
    ultimately show ?thesis using True v(3) by (intro exI [of _ ?h5]) (simp only: if_True simp_thms)
  qed
qed

section \<open>The boot code\<close>

lemma boot_decides:
  assumes r: "at_reset H F0 S0 w0 h"
  defines "m \<equiv> sram_mem S0 h" and "f \<equiv> flash_content F0 h"
  shows "\<exists>h'. boot flash_config H h =
      (if image_spec m then Stopped Reset h'
       else if stack_run w0 h = 0xCC00FFEE \<or> \<not> app_valid f then Done () h'
       else Stopped (JumpApp (app_word f 0) (app_word f 4)) h') \<and>
    at_reset H F0 S0 w0 h' \<and>
    flash_content F0 h' = (if image_spec m then installed m f else f) \<and>
    sram_mem S0 h' = (if image_spec m then put_bytes 0 (replicate 12 0) m else m) \<and>
    stack_run w0 h' = (if \<not> image_spec m \<and> (stack_run w0 h = 0xCC00FFEE \<or> \<not> app_valid f)
      then stack_run w0 h else 0) \<and>
    (\<not> image_spec m \<longrightarrow> fpec_run F0 h' = fpec_run F0 h)"
proof -
  from app_load [OF r, of "0x20"] obtain h1 where
    1: "load32 H (APP_ADDRESS + 0x20) h = Done (app_word f 0x20) h1" "still F0 S0 w0 h h1"
    by (auto simp: f_def)
  have r1: "at_reset H F0 S0 w0 h1" "sram_mem S0 h1 = m" "flash_content F0 h1 = f"
      "stack_run w0 h1 = stack_run w0 h" "fpec_run F0 h1 = fpec_run F0 h"
    using r still_views [OF 1(2)] by (simp_all add: m_def f_def)
  have run: "boot flash_config H h = bindc (boot_from_sram H) (\<lambda>_.
      boot_app flash_config H (app_word f 0x20)) h1"
    using 1(1) by (simp add: boot_def flash_config_def bindc_def)
  from boot_from_sram_decides [OF r1(1)] obtain h2 where
    2: "boot_from_sram H h1 = (if image_spec m then Stopped Reset h2 else Done () h2)"
      "at_reset H F0 S0 w0 h2"
      "flash_content F0 h2 = (if image_spec m then installed m f else f)"
      "sram_mem S0 h2 = (if image_spec m then put_bytes 0 (replicate 12 0) m else m)"
      "stack_run w0 h2 = (if image_spec m then 0 else stack_run w0 h1)"
      "\<not> image_spec m \<longrightarrow> fpec_run F0 h2 = fpec_run F0 h1"
    unfolding r1(2,3) by blast
  show ?thesis
  proof (cases "image_spec m")
    case True
    with run 2 show ?thesis by (intro exI [of _ h2]) (simp add: bindc_def)
  next
    case False
    have s: "flash_content F0 h2 = f" "sram_mem S0 h2 = m" "stack_run w0 h2 = stack_run w0 h"
      using False 2 r1 by simp_all
    from boot_app_decides [OF 2(2), of "app_word f 0x20"] obtain h3 where
      3: "boot_app flash_config H (app_word f 0x20) h2 =
          (if stack_run w0 h = 0xCC00FFEE \<or> \<not> app_valid f then Done () h3
           else Stopped (JumpApp (app_word f 0) (app_word f 4)) h3)"
        "fpec_run F0 h3 = fpec_run F0 h2" "sram_run S0 h3 = sram_run S0 h2"
        "stack_run w0 h3 = (if stack_run w0 h = 0xCC00FFEE \<or> \<not> app_valid f then stack_run w0 h else 0)"
      unfolding s by blast
    have "at_reset H F0 S0 w0 h3"
      using 2(2) 3(2,3) by (simp add: at_reset_def fpec_rest_def sram_idle_def)
    moreover have "flash_content F0 h3 = f" "sram_mem S0 h3 = m"
      using s 3(2,3) by (simp_all add: flash_content_def sram_mem_def)
    moreover have "boot flash_config H h = boot_app flash_config H (app_word f 0x20) h2"
      using run 2(1) False by (simp add: bindc_def)
    moreover have "fpec_run F0 h3 = fpec_run F0 h" using 2(6) 3(2) r1(5) False by simp
    ultimately show ?thesis using 3(1,4) False by (intro exI [of _ h3]) simp
  qed
qed

text \<open>After an installation the next reset finds no staged image.\<close>

lemma wiped_no_image: "\<not> image_spec (put_bytes 0 (replicate 12 0) m)"
proof -
  have "bytes_at (put_bytes 0 (replicate 12 0) m) 0 12 = replicate 12 0"
    using bytes_at_put_same [of "replicate 12 0" 0 m] by simp
  then have "magic (staged_header (put_bytes 0 (replicate 12 0) m)) = 0"
    by (simp add: staged_header_def header_of_bytes_def le32_def)
  then show ?thesis by (simp add: image_spec_def SRAM_IMAGE_MAGIC_def)
qed

lemma install_then_boot:
  assumes r: "at_reset H F0 S0 w0 h" and i: "image_spec (sram_mem S0 h)"
  defines "f \<equiv> installed (sram_mem S0 h) (flash_content F0 h)"
  shows "\<exists>h1 h2. boot flash_config H h = Stopped Reset h1 \<and>
    boot flash_config H h1 =
      (if app_valid f then Stopped (JumpApp (app_word f 0) (app_word f 4)) h2 else Done () h2) \<and>
    flash_content F0 h2 = f"
proof -
  from boot_decides [OF r] i obtain h1 where
    1: "boot flash_config H h = Stopped Reset h1" "at_reset H F0 S0 w0 h1"
      "flash_content F0 h1 = f" "sram_mem S0 h1 = put_bytes 0 (replicate 12 0) (sram_mem S0 h)"
      "stack_run w0 h1 = 0"
    by (auto simp: f_def)
  from boot_decides [OF 1(2)] wiped_no_image 1(3-5) obtain h2 where
    "boot flash_config H h1 =
      (if app_valid f then Stopped (JumpApp (app_word f 0) (app_word f 4)) h2 else Done () h2)"
    "flash_content F0 h2 = f"
    by auto
  with 1(1) show ?thesis by blast
qed

section \<open>Images of the checksum tool\<close>

lemma le32_halves: "le32 a b c d = ucast (le16 a b) OR push_bit 16 (ucast (le16 c d))"
  unfolding le32_def le16_def
  by (rule bit_word_eqI)
    (auto simp: bit_or_iff bit_push_bit_iff bit_ucast_iff dest: bit_imp_le_length)

lemma app_page_base: "page_base 0x08002000"
  by (simp add: page_base_def in_flash_def)

lemma image_word:
  assumes "4 * i + 3 < length img" and "length img \<le> 122880"
  shows "cell_word (image_cells 0x08002000 img f) (0x08002000 + 4 * of_nat i) = words_of img ! i"
proof -
  let ?g = "image_cells 0x08002000 img f"
  have a: "(0x08002000 :: u32) + 4 * of_nat i = 0x08002000 + of_nat (4 * i)"
    "(0x08002000 :: u32) + 4 * of_nat i + 2 = 0x08002000 + of_nat (4 * i + 2)" by simp_all
  have u: "unat (0x08002000 + of_nat (4 * i) :: u32) = 0x08002000 + 4 * i"
    "unat (0x08002000 + of_nat (4 * i + 2) :: u32) = 0x08002000 + (4 * i + 2)"
    by (rule app_offset; use assms in simp)+
  have "?g (0x08002000 + 4 * of_nat i) = half_at img (2 * i)"
    unfolding a(1) by (rule half_of_image [OF app_page_base]) (use assms u in simp_all)
  moreover have "?g (0x08002000 + 4 * of_nat i + 2) = half_at img (2 * i + 1)"
    unfolding a(2) by (rule half_of_image [OF app_page_base]) (use assms u in simp_all)
  ultimately show ?thesis
    using words_of_nth [OF assms(1)]
    by (simp add: cell_word_def half_at_def le32_halves algebra_simps numeral_3_eq_3)
qed

lemma app_words_image:
  assumes "length img = 4 * n" and "length img \<le> 122880"
  shows "app_words (image_cells 0x08002000 img f) n = words_of img"
proof (rule nth_equalityI)
  show "length (app_words (image_cells 0x08002000 img f) n) = length (words_of img)"
    using assms(1) by (simp add: app_words_def length_words_of)
  fix i assume "i < length (app_words (image_cells 0x08002000 img f) n)"
  then have "i < n" by (simp add: app_words_def)
  then show "app_words (image_cells 0x08002000 img f) n ! i = words_of img ! i"
    using image_word [of i img f] assms by (simp add: app_words_def)
qed

lemma patched_image_valid:
  fixes f :: "u32 \<Rightarrow> u16"
  assumes len: "36 \<le> length fw" "length fw \<le> 122880" and out: "checksum_py fw None = Inr img"
    and sp: "le32 (fw ! 0) (fw ! 1) (fw ! 2) (fw ! 3) AND 0x2FFE0000 = 0x20000000"
  defines "f' \<equiv> image_cells 0x08002000 img f"
  shows "app_valid f' \<and> app_word f' 0 = le32 (fw ! 0) (fw ! 1) (fw ! 2) (fw ! 3) \<and>
    app_word f' 4 = le32 (fw ! 4) (fw ! 5) (fw ! 6) (fw ! 7)"
proof -
  let ?fw1 = "pad_word fw" and ?n = "of_nat (length (pad_word fw) div 4) :: u32"
  from pad_word_append [of fw] obtain zs where p: "?fw1 = fw @ zs" "length zs < 4" by auto
  note m = length_pad_word [of fw]
  have l1: "length ?fw1 \<le> 122880" "36 \<le> length ?fw1"
  proof -
    from m obtain q where "length ?fw1 = 4 * q" by auto
    with p len show "length ?fw1 \<le> 122880" by simp
  qed (use p len in simp)
  from checksum_py_default [of fw] len out obtain x where
    img: "img = take 0x1C ?fw1 @ bytes32 x @ bytes32 ?n @ drop 0x24 ?fw1" and x: "xor_sum img = 0"
    by auto
  have l: "length img = length ?fw1" using l1(2) by (simp add: img)
  obtain q where q: "length img = 4 * q" using l m by auto
  have w: "words_of img = words_of (take 0x1C ?fw1) @ [x, ?n] @ words_of (drop 0x24 ?fw1)"
    unfolding img by (rule word_list_split [OF m l1(2)])
  have l7: "length (words_of (take 0x1C ?fw1)) = 7" using l1(2) by (simp add: length_words_of)
  have "length ?fw1 div 4 = q" using l q by simp
  then have w8: "words_of img ! 8 = of_nat q" by (simp add: w nth_append l7)
  have nth: "img ! k = fw ! k" if "k < 8" for k
    using that l1(2) len p(1) by (simp add: img nth_append)
  have w0: "words_of img ! 0 = le32 (fw ! 0) (fw ! 1) (fw ! 2) (fw ! 3)"
    "words_of img ! 1 = le32 (fw ! 4) (fw ! 5) (fw ! 6) (fw ! 7)"
    using words_of_nth [of 0 img] words_of_nth [of 1 img] l l1(2) by (simp_all add: nth numeral_2_eq_2)
  have a: "app_word f' 0 = words_of img ! 0" "app_word f' 4 = words_of img ! 1"
    "app_word f' 0x20 = words_of img ! 8"
    using image_word [of 0 img f] image_word [of 1 img f] image_word [of 8 img f] l l1
    by (simp_all add: app_word_def f'_def)
  have "unat (app_word f' 0x20) = q" using a(3) w8 q l l1(1) by simp
  moreover have "app_words f' q = words_of img"
    unfolding f'_def by (rule app_words_image) (use q l l1(1) in simp_all)
  ultimately show ?thesis
    using a w0 sp x q l l1(1) by (simp add: app_valid_def xor_sum_def)
qed

end
