(* ===== verification/UsbPm.thy ===== *)
theory UsbPm
  imports UsbRegs
begin

text \<open>
  The unrolled packet memory copies of \<open>Core/Src/usb.c\<close> against a reference that handles
  one word at a time, and the round trip of a packet through the packet memory.
\<close>

section \<open>The reference\<close>

fun pm_words :: "u8 list \<Rightarrow> u16 list" where
  "pm_words (a # b # xs) = le16 a b # pm_words xs"
| "pm_words [a] = [ucast a]"
| "pm_words [] = []"

primrec store_words :: "hw \<Rightarrow> u32 \<Rightarrow> nat \<Rightarrow> u16 list \<Rightarrow> (history, unit) cmd" where
  "store_words H base idx [] = skip"
| "store_words H base idx (w # ws) =
     bindc (store16 H (PMA_WORD base idx) w) (\<lambda>_. store_words H base (Suc idx) ws)"

text \<open>Full words as half words, a last odd byte as a byte.\<close>

primrec load_pm :: "hw \<Rightarrow> u32 \<Rightarrow> nat \<Rightarrow> nat \<Rightarrow> bool \<Rightarrow> (history, u8 list) cmd" where
  "load_pm H base idx 0 trail =
     (if trail then bindc (load8 H (PMA_WORD base idx)) (\<lambda>b. give [b]) else give [])"
| "load_pm H base idx (Suc n) trail =
     bindc (load16 H (PMA_WORD base idx)) (\<lambda>w.
     bindc (load_pm H base (Suc idx) n trail) (\<lambda>bs. give (bytes16 w @ bs)))"

section \<open>Copying to the packet memory\<close>

lemma pm_words_append: "even (length xs) \<Longrightarrow> pm_words (xs @ ys) = pm_words xs @ pm_words ys"
  by (induction xs rule: pm_words.induct) simp_all

lemma store_words_append:
  "store_words H base idx (ws @ vs) =
   bindc (store_words H base idx ws) (\<lambda>_. store_words H base (idx + length ws) vs)"
  by (induction ws arbitrary: idx) (simp_all add: bindc_assoc)

lemma length_pm_words: "length (pm_words xs) = (length xs + 1) div 2"
  by (induction xs rule: pm_words.induct) simp_all

lemma copy_words_reference:
  "2 * words \<le> length src \<Longrightarrow>
   copy_words_to_pm H base idx src words = store_words H base idx (pm_words (take (2 * words) src))"
proof (induction H base idx src words rule: copy_words_to_pm.induct)
  case (1 H base idx src words)
  then obtain a b c d r where src: "src = a # b # c # d # r"
    by (cases src; cases "tl src"; cases "tl (tl src)"; cases "tl (tl (tl src))") auto
  have "take (2 * Suc (Suc words)) src = a # b # c # d # take (2 * words) r"
    by (simp add: src)
  moreover have "copy_words_to_pm H base (idx + 2) r words =
      store_words H base (idx + 2) (pm_words (take (2 * words) r))"
    using "1.IH" "1.prems" by (simp add: src)
  ultimately show ?case by (simp add: src bindc_assoc)
next
  case (2 H base idx src)
  then obtain a b r where src: "src = a # b # r" by (cases src; cases "tl src") auto
  then show ?case by simp
qed simp

lemma copy_to_reference:
  assumes "unat len \<le> length buf"
  shows "st_usbfs_copy_to_pm H base buf len = store_words H base 0 (pm_words (take (unat len) buf))"
proof (cases "len = 0")
  case True
  then show ?thesis by (simp add: st_usbfs_copy_to_pm_def)
next
  case False
  let ?n = "unat len" and ?w = "unat len div 2"
  have w: "copy_words_to_pm H base 0 buf ?w = store_words H base 0 (pm_words (take (2 * ?w) buf))"
    using assms by (intro copy_words_reference) simp
  show ?thesis
  proof (cases "even ?n")
    case True
    with False w show ?thesis by (simp add: st_usbfs_copy_to_pm_def Let_def)
  next
    case odd: False
    then obtain k where k: "?n = Suc (2 * k)" by (auto elim: oddE)
    then have "2 * k < length buf" using assms by simp
    then have "take ?n buf = take (2 * k) buf @ [buf ! (2 * k)]"
      unfolding k by (rule take_Suc_conv_app_nth)
    moreover have "even (length (take (2 * k) buf))" "length (pm_words (take (2 * k) buf)) = k"
      using assms k by (simp_all add: length_pm_words min_def)
    ultimately have "store_words H base 0 (pm_words (take ?n buf)) =
        bindc (store_words H base 0 (pm_words (take (2 * k) buf)))
          (\<lambda>_. store16 H (PMA_WORD base k) (ucast (buf ! (2 * k))))"
      by (simp add: pm_words_append store_words_append)
    with False w \<open>2 * k < length buf\<close> show ?thesis
      by (simp add: st_usbfs_copy_to_pm_def Let_def k)
  qed
qed

section \<open>Copying from the packet memory\<close>

lemma copy_words_from_reference:
  "bindc (copy_words_from_pm H base idx words) (\<lambda>bs.
     if trail then bindc (load8 H (PMA_WORD base (idx + words))) (\<lambda>b. give (bs @ [b])) else give bs) =
   load_pm H base idx words trail"
proof (induction H base idx words rule: copy_words_from_pm.induct)
  case (1 H base idx words)
  have e: "load_pm H base (Suc (Suc idx)) words trail =
      bindc (copy_words_from_pm H base (Suc (Suc idx)) words) (\<lambda>bs.
        if trail then bindc (load8 H (PMA_WORD base (Suc (Suc idx) + words))) (\<lambda>b. give (bs @ [b]))
        else give bs)"
    using "1" [symmetric] unfolding add_2_eq_Suc' .
  show ?case
  proof (cases trail)
    case True
    with e show ?thesis by (simp add: bindc_assoc)
  next
    case False
    with e show ?thesis by (simp add: bindc_assoc)
  qed
next
  case (2 H base idx)
  show ?case by (simp add: bindc_assoc)
qed simp

lemma copy_from_reference:
  "st_usbfs_copy_from_pm H base len = load_pm H base 0 (unat len div 2) (odd (unat len))"
  using copy_words_from_reference [of H base 0 "unat len div 2" "odd (unat len)"]
  unfolding st_usbfs_copy_from_pm_def Let_def add_0 .

section \<open>The round trip\<close>

text \<open>
  \<open>holds_packet H base ws\<close>: the packet memory at \<open>base\<close> answers with the words \<open>ws\<close>, read
  as half words or, for the low byte, as bytes.
\<close>

definition holds_packet :: "hw \<Rightarrow> u32 \<Rightarrow> u16 list \<Rightarrow> bool" where
  "holds_packet H base ws \<longleftrightarrow> (\<forall>h i. i < length ws \<longrightarrow>
     H h (Load W16 (PMA_WORD base i)) = Some (ucast (ws ! i)) \<and>
     H h (Load W8 (PMA_WORD base i)) = Some (ucast (lo8 (ws ! i))))"

lemma load_pm_packet:
  assumes "\<forall>h. \<forall>i < length (pm_words xs).
     H h (Load W16 (PMA_WORD base (idx + i))) = Some (ucast (pm_words xs ! i)) \<and>
     H h (Load W8 (PMA_WORD base (idx + i))) = Some (ucast (lo8 (pm_words xs ! i)))"
  shows "\<exists>h'. load_pm H base idx (length xs div 2) (odd (length xs)) h = Done xs h'"
  using assms
proof (induction xs arbitrary: idx h rule: pm_words.induct)
  case (1 a b xs)
  have l: "load16 H (PMA_WORD base idx) h =
      Done (le16 a b) (Loaded W16 (PMA_WORD base idx) (ucast (le16 a b)) # h)"
    using "1.prems" [rule_format, of 0 h] by (simp add: load16_def load_def bindc_def give_def)
  have "\<forall>h. \<forall>i < length (pm_words xs).
     H h (Load W16 (PMA_WORD base (Suc idx + i))) = Some (ucast (pm_words xs ! i)) \<and>
     H h (Load W8 (PMA_WORD base (Suc idx + i))) = Some (ucast (lo8 (pm_words xs ! i)))"
    using "1.prems" by (auto dest!: spec [of _ "Suc _"])
  from "1.IH" [OF this] obtain h' where
    "load_pm H base (Suc idx) (length xs div 2) (odd (length xs))
      (Loaded W16 (PMA_WORD base idx) (ucast (le16 a b)) # h) = Done xs h'" by blast
  with l show ?case by (simp add: bindc_def give_def bytes16_le16)
next
  case (2 a)
  then show ?case
    using "2.prems" [rule_format, of 0 h] by (simp add: load8_def load_def bindc_def give_def lo8_def)
qed (simp add: give_def)

lemma copy_from_packet:
  assumes "holds_packet H base (pm_words xs)" and "length xs < 65536"
  shows "\<exists>h'. st_usbfs_copy_from_pm H base (of_nat (length xs)) h = Done xs h'"
  using load_pm_packet [of xs H base 0 h] assms
  by (simp add: copy_from_reference holds_packet_def)

end
