(* ===== verification/UsbSafe.thy ===== *)
theory UsbSafe
  imports Usb DfuSafe UsbPm
begin

text \<open>
  The control endpoint within a write policy: whatever the host sends, a poll keeps the
  invariant on the buffers and stores only where the policy allows. The USB peripheral is
  used through a buffer description table at the start of the packet memory.
\<close>

section \<open>The packet memory as documented\<close>

text \<open>
  The buffer description table starts at 0 (as \<open>usb_init\<close> sets it) and its address
  entries of endpoint 0 lie inside the 512 bytes of packet memory.
\<close>

definition pma_hw :: "hw \<Rightarrow> bool" where
  "pma_hw H \<longleftrightarrow> (\<forall>h v.
     (H h (Load W32 USB_BTABLE_REG) = Some v \<longrightarrow> (ucast v :: u16) = 0) \<and>
     (\<forall>k. k = 0 \<or> k = 4 \<longrightarrow> H h (Load W32 (btable_entry 0 0 k)) = Some v \<longrightarrow>
        (ucast v :: u16) < 512))"

definition usb_range :: "u32 \<Rightarrow> bool" where
  "usb_range a \<longleftrightarrow> 0x40005C00 \<le> unat a \<and> unat a < 0x40007800"

lemma usb_range_reg: "usb_range a \<Longrightarrow> 0x08020000 \<le> a" "usb_range a \<Longrightarrow> a \<noteq> FLASH_AR"
  by (auto simp: usb_range_def word_le_nat_alt reg_defs)

lemma usb_range_regs [simp]:
  "usb_range USB_CNTR_REG" "usb_range USB_ISTR_REG" "usb_range USB_DADDR_REG"
  "usb_range USB_BTABLE_REG"
  by (simp_all add: usb_range_def reg_defs)

lemma usb_range_ep [simp]: "usb_range (USB_EP_REG ep)"
proof -
  have "(4 * ucast ep :: u32) = of_nat (4 * unat ep)" by simp
  then have "USB_EP_REG ep = 0x40005C00 + of_nat (4 * unat ep)" by (simp add: reg_defs)
  moreover have "unat (0x40005C00 + of_nat (4 * unat ep) :: u32) = 0x40005C00 + 4 * unat ep"
    using unat_u8_less [of ep] unat_add_u32 [of "0x40005C00" "4 * unat ep"] by simp
  ultimately show ?thesis using unat_u8_less [of ep] by (simp add: usb_range_def)
qed

lemma usb_range_btable:
  assumes "unat k \<le> 6"
  shows "usb_range (btable_entry 0 ep k)"
proof -
  have "btable_entry 0 ep k = 0x40006000 + of_nat (2 * (8 * unat ep + unat k))"
    by (simp add: btable_entry_def reg_defs algebra_simps)
  moreover have "unat (0x40006000 + of_nat (2 * (8 * unat ep + unat k)) :: u32) =
      0x40006000 + 2 * (8 * unat ep + unat k)"
    using unat_u8_less [of ep] assms unat_add_u32 [of "0x40006000" "2 * (8 * unat ep + unat k)"]
    by simp
  ultimately show ?thesis using unat_u8_less [of ep] assms by (simp add: usb_range_def)
qed

lemma usb_range_word:
  assumes "(a :: u16) < 512" and "i \<le> 64"
  shows "usb_range (PMA_WORD (USB_PMA_BASE + ucast a * 2) i)"
proof -
  have "unat a < 512" using assms(1) by (simp add: word_less_nat_alt)
  moreover have "PMA_WORD (USB_PMA_BASE + ucast a * 2) i = 0x40006000 + of_nat (2 * unat a + 4 * i)"
    by (simp add: PMA_WORD_def reg_defs algebra_simps)
  moreover have "unat (0x40006000 + of_nat (2 * unat a + 4 * i) :: u32) = 0x40006000 + (2 * unat a + 4 * i)"
    using calculation(1) assms(2) unat_add_u32 [of "0x40006000" "2 * unat a + 4 * i"] by simp
  ultimately show ?thesis using assms(2) by (simp add: usb_range_def)
qed

section \<open>The invariant\<close>

definition usb_base :: "usb \<Rightarrow> bool" where
  "usb_base s \<longleftrightarrow>
     dfu_ok (dfu_part s) \<and> length (usb_force_nak s) = 8 \<and> 0 \<in> set (serial_no s)"

definition usb_safe :: "(event \<Rightarrow> bool) \<Rightarrow> usb \<Rightarrow> bool" where
  "usb_safe ok s \<longleftrightarrow> usb_base s \<and> list_all ok (io (dfu_part s))"

lemma usb_base_boot: "usb_base (usb_boot h)"
  by (simp add: usb_base_def usb_boot_def dfu_ok_init)

lemma usb_safe_fields [simp]:
  "usb_safe ok (s\<lparr>usb_fsm_state := q\<rparr>) = usb_safe ok s"
  "usb_safe ok (s\<lparr>datasize := n\<rparr>) = usb_safe ok s"
  "usb_safe ok (s\<lparr>dataoff := n\<rparr>) = usb_safe ok s"
  "usb_safe ok (s\<lparr>usb_pm_top := n\<rparr>) = usb_safe ok s"
  "usb_safe ok (s\<lparr>usb_needs_zlp := z\<rparr>) = usb_safe ok s"
  "usb_safe ok (s\<lparr>usb_req := r\<rparr>) = usb_safe ok s"
  "usb_safe ok (s\<lparr>usb_complete_cb := c\<rparr>) = usb_safe ok s"
  by (simp_all add: usb_safe_def usb_base_def)

lemma keeps_on_dfu: "keeps (dfu_safe ok) c \<Longrightarrow> keeps (usb_safe ok) (on_dfu c)"
  unfolding on_dfu_def
  by (rule keeps_zoom [where J = "dfu_safe ok"]) (simp_all add: usb_safe_def usb_base_def dfu_safe_def)

lemma keeps_ubus: "keeps (list_all ok) c \<Longrightarrow> keeps (usb_safe ok) (ubus c)"
  unfolding ubus_def by (intro keeps_on_dfu keeps_bus)

lemma keeps_put_ctl: "keeps (usb_safe ok) (put_ctl off bs)"
  unfolding put_ctl_def
  by (intro keeps_rules keeps_on_dfu keeps_modc) (simp add: dfu_safe_def)

lemma keeps_set_fsm: "keeps (usb_safe ok) (set_fsm q)"
  unfolding set_fsm_def by (rule keeps_modc) simp

lemma keeps_set_datasize: "keeps (usb_safe ok) (set_datasize n)"
  unfolding set_datasize_def by (rule keeps_modc) simp

lemmas keeps_usb = keeps_put_ctl keeps_set_fsm keeps_set_datasize

section \<open>Registers and packets within a write policy\<close>

lemma btable_value:
  assumes "pma_hw H" and "GET_REG H USB_BTABLE_REG h = Done bt h'"
  shows "bt = 0"
  using assms by (auto simp: pma_hw_def GET_REG_def bindc_def load_def give_def split: option.splits)

lemma btable_addr:
  assumes "pma_hw H" and "k = 0 \<or> k = 4" and "btable_get H 0 k h = Done a h'"
  shows "a < 512"
proof -
  from assms(3) obtain bt h1 where 1: "GET_REG H USB_BTABLE_REG h = Done bt h1"
    "GET_REG H (btable_entry bt 0 k) h1 = Done a h'"
    by (auto simp: btable_get_def bindc_eq_Done)
  with btable_value [OF assms(1)] have "bt = 0" by blast
  with 1(2) assms(1,2) show ?thesis
    by (auto simp: pma_hw_def GET_REG_def bindc_def load_def give_def split: option.splits)
qed

context write_policy
begin

lemma safe_GET_REG: "keeps (list_all ok) (GET_REG H a)"
  unfolding GET_REG_def by (intro keeps_bindc safe_load keeps_give)

lemma safe_SET_REG: "usb_range a \<Longrightarrow> keeps (list_all ok) (SET_REG H a v)"
  unfolding SET_REG_def by (intro safe_reg usb_range_reg)

lemma safe_toggles:
  "keeps (list_all ok) (USB_SET_EP_RX_STAT H ep st)"
  "keeps (list_all ok) (USB_SET_EP_TX_STAT H ep st)"
  "keeps (list_all ok) (USB_CLR_EP_TX_DTOG H ep)"
  "keeps (list_all ok) (USB_CLR_EP_RX_DTOG H ep)"
  "keeps (list_all ok) (USB_CLR_EP_RX_CTR H ep)"
  "keeps (list_all ok) (USB_CLR_EP_TX_CTR H ep)"
  "keeps (list_all ok) (USB_SET_EP_TYPE H ep ty)"
  "keeps (list_all ok) (USB_SET_EP_ADDR H ep ad)"
  "usb_range a \<Longrightarrow> keeps (list_all ok) (CLR_REG_BIT H a b)"
  unfolding USB_SET_EP_RX_STAT_def USB_SET_EP_TX_STAT_def USB_CLR_EP_TX_DTOG_def
    USB_CLR_EP_RX_DTOG_def USB_CLR_EP_RX_CTR_def USB_CLR_EP_TX_CTR_def USB_SET_EP_TYPE_def
    USB_SET_EP_ADDR_def TOG_SET_REG_BIT_MSK_AND_SET_def CLR_REG_BIT_MSK_AND_SET_def CLR_REG_BIT_def
  by (intro keeps_bindc safe_GET_REG safe_SET_REG usb_range_ep; assumption)+

lemma safe_btable_get: "keeps (list_all ok) (btable_get H ep k)"
  unfolding btable_get_def by (intro keeps_bindc safe_GET_REG)

lemma safe_btable_set:
  assumes "pma_hw H" and "unat k \<le> 6"
  shows "keeps (list_all ok) (btable_set H ep k v)"
  unfolding btable_set_def
  by (rule keeps_bind_val [where P = "\<lambda>bt. bt = 0", OF safe_GET_REG])
    (use assms btable_value usb_range_btable in \<open>auto intro!: safe_SET_REG\<close>)

lemma safe_store_words:
  "(\<And>i. i < length ws \<Longrightarrow> usb_range (PMA_WORD base (idx + i))) \<Longrightarrow>
   keeps (list_all ok) (store_words H base idx ws)"
proof (induction ws arbitrary: idx)
  case (Cons w ws)
  have "keeps (list_all ok) (store16 H (PMA_WORD base idx) w)"
    using Cons.prems [of 0] unfolding store16_def by (intro safe_reg usb_range_reg) simp_all
  moreover have "keeps (list_all ok) (store_words H base (Suc idx) ws)"
    using Cons.prems [of "Suc _"] by (intro Cons.IH) simp
  ultimately show ?case by (simp add: keeps_bindc)
qed (simp add: keeps_give)

text \<open>A copy stores the words it has before it runs off the source buffer.\<close>

lemma safe_copy_words:
  assumes "\<And>i. i < words \<Longrightarrow> usb_range (PMA_WORD base (idx + i))"
  shows "keeps (list_all ok) (copy_words_to_pm H base idx src words)"
  using assms
proof (induction H base idx src words rule: copy_words_to_pm.induct)
  case (1 H base idx src words)
  have s: "keeps (list_all ok) (store16 H (PMA_WORD base (idx + i)) v)" if "i < 2" for i v
    using "1.prems" [of i] that unfolding store16_def by (intro safe_reg usb_range_reg) simp_all
  have "keeps (list_all ok) (copy_words_to_pm H base (idx + 2) (drop 4 src) words)"
    if "\<not> length src < 4"
    using that "1.prems" [of "Suc (Suc _)"] by (intro "1.IH") simp_all
  then show ?case
    using s [of 0] s [of 1] by (auto intro!: keeps_rules keeps_halt)
next
  case (2 H base idx src)
  then show ?case
    using "2.prems" [of 0] by (auto intro!: keeps_if keeps_halt safe_reg usb_range_reg simp: store16_def)
qed (simp add: keeps_give)

lemma safe_copy_to_pm:
  assumes "(a :: u16) < 512" and "unat len \<le> 64"
  shows "keeps (list_all ok) (st_usbfs_copy_to_pm H (USB_PMA_BASE + ucast a * 2) buf len)"
proof -
  have "unat len div 2 \<le> 32" using assms(2) by linarith
  then have r: "usb_range (PMA_WORD (USB_PMA_BASE + ucast a * 2) i)" if "i \<le> unat len div 2" for i
    using that usb_range_word [OF assms(1), of i] by simp
  then have w: "keeps (list_all ok)
      (copy_words_to_pm H (USB_PMA_BASE + ucast a * 2) 0 buf (unat len div 2))"
    by (intro safe_copy_words) simp
  have s: "keeps (list_all ok) (store16 H (PMA_WORD (USB_PMA_BASE + ucast a * 2) (unat len div 2)) v)" for v
    using r unfolding store16_def by (intro safe_reg usb_range_reg) simp_all
  show ?thesis unfolding st_usbfs_copy_to_pm_def Let_def
    by (intro keeps_if keeps_give safe_block) (simp add: w s keeps_if keeps_halt keeps_give)
qed

lemma safe_write_packet:
  assumes "pma_hw H" and "unat len \<le> 64"
  shows "keeps (list_all ok) (usbd_ep_write_packet H 0 buf len)"
proof -
  let ?a = "0 AND 0x7F :: u8"
  have "keeps (list_all ok) (bindc (USB_GET_EP_TX_BUFF H ?a) (\<lambda>vPM. bindc (block
      [st_usbfs_copy_to_pm H vPM buf len, USB_SET_EP_TX_COUNT H ?a len,
       USB_SET_EP_TX_STAT H ?a USB_EP_TX_STAT_VALID]) (\<lambda>_. give len)))"
  proof (rule keeps_bind_val [where P = "\<lambda>p. \<exists>a :: u16. a < 512 \<and> p = USB_PMA_BASE + ucast a * 2"])
    show "keeps (list_all ok) (USB_GET_EP_TX_BUFF H ?a)"
      unfolding USB_GET_EP_TX_BUFF_def by (intro keeps_bindc safe_btable_get keeps_give)
    fix h p h' assume "USB_GET_EP_TX_BUFF H ?a h = Done p h'"
    then show "\<exists>a :: u16. a < 512 \<and> p = USB_PMA_BASE + ucast a * 2"
      using btable_addr [OF assms(1), of 0]
      by (fastforce simp: USB_GET_EP_TX_BUFF_def bindc_eq_Done give_def)
  next
    fix p assume "\<exists>a :: u16. a < 512 \<and> p = USB_PMA_BASE + ucast a * 2"
    then have "keeps (list_all ok) (st_usbfs_copy_to_pm H p buf len)"
      using safe_copy_to_pm assms(2) by blast
    then show "keeps (list_all ok) (bindc (block
        [st_usbfs_copy_to_pm H p buf len, USB_SET_EP_TX_COUNT H ?a len,
         USB_SET_EP_TX_STAT H ?a USB_EP_TX_STAT_VALID]) (\<lambda>_. give len))"
      unfolding USB_SET_EP_TX_COUNT_def
      by (intro keeps_bindc keeps_give safe_block)
        (simp add: safe_btable_set [OF assms(1)] safe_toggles)
  qed
  then show ?thesis unfolding usbd_ep_write_packet_def Let_def
    by (intro keeps_bindc [OF safe_load] keeps_if [OF keeps_give])
qed

lemma safe_copy_from_pm: "keeps (list_all ok) (st_usbfs_copy_from_pm H base len)"
proof -
  have "keeps (list_all ok) (load_pm H base idx n trail)" for idx n trail
    by (induction n arbitrary: idx) (auto intro!: keeps_rules safe_load8 safe_load16)
  then show ?thesis by (simp add: copy_from_reference)
qed

lemma safe_read_packet: "keeps (usb_safe ok) (usbd_ep_read_packet H ep len)"
proof -
  have r: "keeps (list_all ok) (rx_length H ep len)"
    unfolding rx_length_def USB_GET_EP_RX_COUNT_def
    by (intro keeps_bindc keeps_if keeps_give safe_btable_get)
  have b: "keeps (list_all ok) (USB_GET_EP_RX_BUFF H ep)"
    unfolding USB_GET_EP_RX_BUFF_def by (intro keeps_bindc safe_btable_get keeps_give)
  show ?thesis unfolding usbd_ep_read_packet_def ep_fetch_def ep_rearm_def
    by (auto intro!: keeps_bindc keeps_if keeps_give keeps_getc keeps_halt keeps_ubus safe_load
        safe_copy_from_pm safe_toggles r b)
qed

lemma safe_nak_set: "keeps (usb_safe ok) (usbd_ep_nak_set H ep nak)"
  unfolding usbd_ep_nak_set_def
  by (auto intro!: keeps_bindc keeps_if keeps_give keeps_getc keeps_halt keeps_ubus keeps_modc
      safe_toggles simp: usb_safe_def usb_base_def)

lemma safe_stall_set: "keeps (list_all ok) (ep_stall_set H ep stall)"
  unfolding ep_stall_set_def Let_def
  by (intro safe_block) (simp add: safe_toggles keeps_give keeps_if safe_block keeps_bindc)

lemma safe_stall_get: "keeps (list_all ok) (ep_stall_get H ep)"
  unfolding ep_stall_get_def by (intro keeps_if keeps_bindc safe_load keeps_give)

lemma safe_stall_transaction: "keeps (usb_safe ok) (stall_transaction H)"
  unfolding stall_transaction_def
  by (rule keeps_block) (auto intro: keeps_ubus safe_stall_set keeps_set_fsm)

end

section \<open>The control endpoint within a write policy\<close>

lemma max_packet_64 [simp]: "max_packet = 64"
  by (simp add: max_packet_def dev_desc_def)

lemma keeps_usb_modc:
  "keeps (usb_safe ok) (modc (\<lambda>s. s\<lparr>dataoff := f s\<rparr>))"
  "keeps (usb_safe ok) (modc (\<lambda>s. s\<lparr>datasize := g s\<rparr>))"
  "keeps (usb_safe ok) (modc (\<lambda>s. s\<lparr>usb_needs_zlp := z s\<rparr>))"
  "keeps (usb_safe ok) (modc (\<lambda>s. s\<lparr>usb_pm_top := t s\<rparr>))"
  "keeps (usb_safe ok) (modc (\<lambda>s. s\<lparr>usb_complete_cb := c s\<rparr>))"
  "keeps (usb_safe ok) (modc (\<lambda>s. s\<lparr>usb_req := r s\<rparr>))"
  "keeps (usb_safe ok) (modc (\<lambda>s. s\<lparr>datasize := g s, usb_complete_cb := c s\<rparr>))"
  "keeps (usb_safe ok) (modc (\<lambda>s. if b s then s\<lparr>datasize := m\<rparr> else s))"
  by (rule keeps_modc; simp)+

lemmas keeps_ctl = keeps_bindc keeps_if keeps_give keeps_getc keeps_halt keeps_ubus keeps_usb
  keeps_usb_modc

context write_policy
begin

lemma safe_send_chunk:
  assumes "pma_hw H"
  shows "keeps (usb_safe ok) (usb_control_send_chunk H)"
proof -
  have "keeps (list_all ok) (usbd_ep_write_packet H 0 data n)" if "unat n \<le> 64" for data n
    by (rule safe_write_packet [OF assms that])
  then show ?thesis unfolding usb_control_send_chunk_def
    by (auto intro!: keeps_ctl)
qed

lemma safe_recv_chunk: "keeps (usb_safe ok) (usb_control_recv_chunk H)"
  unfolding usb_control_recv_chunk_def
  by (auto intro!: keeps_ctl safe_read_packet safe_stall_transaction)

lemma safe_set_blength: "keeps (usb_safe ok) (set_blength n)"
  unfolding set_blength_def by (intro keeps_ctl)

lemma safe_string_descriptor: "keeps (usb_safe ok) (get_string_descriptor C i)"
  unfolding get_string_descriptor_def Let_def
  by (auto intro!: keeps_ctl safe_set_blength split: option.splits)

lemma safe_get_descriptor: "keeps (usb_safe ok) (usb_standard_get_descriptor C)"
  unfolding usb_standard_get_descriptor_def
  by (auto intro!: keeps_ctl safe_string_descriptor)

lemma safe_request_device: "keeps (usb_safe ok) (usbd_standard_request_device C H)"
proof -
  have "keeps (list_all ok) (block (concat (map (\<lambda>i.
      [USB_SET_EP_TX_STAT H (of_nat i) USB_EP_TX_STAT_DISABLED,
       USB_SET_EP_RX_STAT H (of_nat i) USB_EP_RX_STAT_DISABLED]) [1..<8])))"
    by (rule keeps_block) (auto simp: safe_toggles)
  then show ?thesis unfolding usbd_standard_request_device_def
    by (intro keeps_ctl safe_get_descriptor)
qed

lemma safe_standard_request: "keeps (usb_safe ok) (usbd_standard_request C H)"
proof -
  have "keeps (usb_safe ok) usbd_standard_request_interface"
    unfolding usbd_standard_request_interface_def by (intro keeps_ctl)
  moreover have "keeps (usb_safe ok) (usbd_standard_request_endpoint H)"
    unfolding usbd_standard_request_endpoint_def by (intro keeps_ctl safe_stall_set safe_stall_get)
  ultimately show ?thesis unfolding usbd_standard_request_def
    by (intro keeps_ctl safe_request_device)
qed

lemma safe_dispatch: "keeps (usb_safe ok) (usb_control_request_dispatch C H)"
proof -
  have "keeps (usb_safe ok) (class_request C H)"
    unfolding class_request_def
    by (auto intro!: keeps_ctl keeps_on_dfu safe_control_request)
  then show ?thesis unfolding usb_control_request_dispatch_def
    by (intro keeps_ctl safe_standard_request)
qed

lemma safe_setup_read:
  assumes "pma_hw H"
  shows "keeps (usb_safe ok) (usb_control_setup_read C H)"
proof -
  have z: "keeps (list_all ok) (usbd_ep_write_packet H 0 [] 0)"
    by (rule safe_write_packet [OF assms]) simp
  show ?thesis unfolding usb_control_setup_read_def
    by (auto intro!: keeps_ctl keeps_block safe_dispatch safe_send_chunk [OF assms]
        safe_stall_transaction z)
qed

lemma safe_setup_write: "keeps (usb_safe ok) (usb_control_setup_write H)"
  unfolding usb_control_setup_write_def
  by (auto intro!: keeps_ctl safe_stall_transaction safe_nak_set)

lemma safe_control_setup:
  assumes "pma_hw H"
  shows "keeps (usb_safe ok) (usbd_control_setup C H)"
  unfolding usbd_control_setup_def
  by (auto intro!: keeps_ctl safe_nak_set safe_read_packet safe_stall_transaction
      safe_setup_read [OF assms] safe_setup_write)

lemma safe_complete_cb:
  assumes "top_page_faults H"
  shows "keeps (usb_safe ok) (run_complete_cb C H)"
  unfolding run_complete_cb_def
  by (auto intro!: keeps_ctl keeps_on_dfu safe_complete [OF assms])

lemma safe_control_out:
  assumes "pma_hw H" and "top_page_faults H"
  shows "keeps (usb_safe ok) (usbd_control_out C H)"
proof -
  have z: "keeps (list_all ok) (usbd_ep_write_packet H 0 [] 0)"
    by (rule safe_write_packet [OF assms(1)]) simp
  have "keeps (usb_safe ok) (bindc (usb_control_recv_chunk H) (\<lambda>r. case r of
           None \<Rightarrow> skip
         | Some _ \<Rightarrow> bindc (getc (\<lambda>s. uint (wLength (usb_req s)) - uint (datasize s))) (\<lambda>left.
             if left \<le> int max_packet then set_fsm LAST_DATA_OUT else skip)))"
    by (auto intro!: keeps_ctl safe_recv_chunk split: option.splits)
  moreover have "keeps (usb_safe ok) (bindc (usb_control_recv_chunk H) (\<lambda>r. case r of
           None \<Rightarrow> skip
         | Some _ \<Rightarrow> bindc (usb_control_request_dispatch C H) (\<lambda>result.
             if result \<noteq> USBD_REQ_NOTSUPP
             then block
               [bindc (ubus (usbd_ep_write_packet H 0 [] 0)) (\<lambda>_. skip),
                set_fsm STATUS_IN]
             else stall_transaction H)))"
    by (auto intro!: keeps_ctl safe_recv_chunk safe_dispatch safe_stall_transaction z
        split: option.splits)
  moreover have "keeps (usb_safe ok) (block
         [bindc (usbd_ep_read_packet H 0 0) (\<lambda>_. skip), set_fsm IDLE, run_complete_cb C H,
          modc (\<lambda>s. s\<lparr>usb_complete_cb := False\<rparr>)])"
    by (auto intro!: keeps_ctl safe_read_packet safe_complete_cb [OF assms(2)])
  ultimately show ?thesis unfolding usbd_control_out_def
    by (auto intro!: keeps_bindc [OF keeps_getc] safe_stall_transaction split: usb_fsm.split)
qed

lemma safe_control_in:
  assumes "pma_hw H" and "top_page_faults H"
  shows "keeps (usb_safe ok) (usbd_control_in C H)"
proof -
  have "keeps (usb_safe ok) (block [set_fsm STATUS_OUT, usbd_ep_nak_set H 0 0])"
    by (auto intro!: keeps_ctl safe_nak_set)
  moreover have "keeps (usb_safe ok) (block
         [run_complete_cb C H,
          bindc (getc usb_req) (\<lambda>req.
            if bmRequestType req = 0 \<and> bRequest req = 5
            then ubus (SET_REG H USB_DADDR_REG ((wValue req AND USB_DADDR_ADDR) OR USB_DADDR_EF))
            else skip),
          set_fsm IDLE])"
    by (auto intro!: keeps_ctl safe_complete_cb [OF assms(2)] safe_SET_REG)
  ultimately show ?thesis unfolding usbd_control_in_def
    by (auto intro!: keeps_bindc [OF keeps_getc] safe_stall_transaction safe_send_chunk [OF assms(1)]
        split: usb_fsm.split)
qed

lemma safe_ep_setup:
  assumes "pma_hw H"
  shows "keeps (usb_safe ok) (usbd_ep_setup H ep ty n)"
  unfolding usbd_ep_setup_def Let_def USB_SET_EP_TX_ADDR_def USB_SET_EP_RX_ADDR_def
    set_ep_rx_bufsize_def USB_SET_EP_RX_COUNT_def
  by (auto intro!: keeps_ctl keeps_block safe_toggles safe_btable_set [OF assms])

lemma safe_poll:
  assumes "pma_hw H" and "top_page_faults H"
  shows "keeps (usb_safe ok) (do_usb_poll C H)"
proof -
  have r: "keeps (usb_safe ok) (usb_reset H)"
    unfolding usb_reset_def
    by (auto intro!: keeps_ctl safe_toggles safe_ep_setup [OF assms(1)] safe_SET_REG)
  have s: "keeps (usb_safe ok) (ubus (CLR_REG_BIT H USB_ISTR_REG b))" for b
    by (intro keeps_ubus safe_toggles) simp
  have m: "keeps (usb_safe ok) (ubus (and32 H USB_CNTR_REG v))" for v
    by (intro keeps_ubus safe_and32 usb_range_reg) simp_all
  have i: "keeps (usb_safe ok) (block [ubus (USB_CLR_EP_TX_CTR H ep), usbd_control_in C H])" for ep
    by (auto intro!: keeps_ctl safe_toggles safe_control_in [OF assms])
  have o: "keeps (usb_safe ok) (bindc (ubus (load32 H (USB_EP_REG ep))) (\<lambda>r.
      if r AND ucast USB_EP_SETUP \<noteq> 0 then usbd_control_setup C H else usbd_control_out C H))" for ep
    by (intro keeps_bindc keeps_ubus safe_load keeps_if safe_control_setup [OF assms(1)]
        safe_control_out [OF assms])
  show ?thesis unfolding do_usb_poll_def Let_def
    by (intro keeps_bindc [OF keeps_ubus [OF safe_GET_REG]] keeps_if r keeps_block)
      (auto simp: i [simplified] o s m keeps_give)
qed

end

end
