(* ===== verification/UsbOut.thy ===== *)
theory UsbOut
  imports UsbSafe
begin

text \<open>
  The data stage of an OUT transfer: the amount received never exceeds the announced
  length, which never exceeds the control buffer, so a packet never lands outside the
  buffer; and the packets arrive in the buffer one after the other.
\<close>

section \<open>The bound on the data received\<close>

definition receiving :: "usb \<Rightarrow> bool" where
  "receiving s \<longleftrightarrow> usb_fsm_state s = DATA_OUT \<or> usb_fsm_state s = LAST_DATA_OUT"

definition out_ok :: "usb \<Rightarrow> bool" where
  "out_ok s \<longleftrightarrow> (receiving s \<longrightarrow>
     unat (datasize s) \<le> unat (wLength (usb_req s)) \<and>
     unat (wLength (usb_req s)) \<le> DFU_TRANSFER_SIZE)"

text \<open>What the bound depends on.\<close>

definition out_view :: "usb \<Rightarrow> usb_fsm \<times> u16 \<times> usb_setup_data" where
  "out_view s = (usb_fsm_state s, datasize s, usb_req s)"

lemma out_ok_view: "out_view s = out_view t \<Longrightarrow> out_ok s = out_ok t"
  by (simp add: out_view_def out_ok_def receiving_def)

text \<open>Commands that leave the view alone, for every value of it.\<close>

definition quiet :: "(usb, 'a) cmd \<Rightarrow> bool" where
  "quiet c \<longleftrightarrow> (\<forall>v. keeps (\<lambda>s. out_view s = v) c)"

lemma quiet_Done: "quiet c \<Longrightarrow> c s = Done x s' \<Longrightarrow> out_view s' = out_view s"
  unfolding quiet_def by (rule keeps_Done [where I = "\<lambda>t. out_view t = out_view s"]) blast+

lemma quiet_give: "quiet (give x)"
  unfolding quiet_def by (intro allI keeps_give)

lemma quiet_halt: "quiet (halt r)"
  unfolding quiet_def by (intro allI keeps_halt)

lemma quiet_getc: "quiet (getc f)"
  unfolding quiet_def by (intro allI keeps_getc)

lemma quiet_bindc: "quiet c \<Longrightarrow> (\<And>x. quiet (f x)) \<Longrightarrow> quiet (bindc c f)"
  unfolding quiet_def by (intro allI keeps_bindc) blast+

lemma quiet_block: "(\<And>c. c \<in> set cs \<Longrightarrow> quiet c) \<Longrightarrow> quiet (block cs)"
  unfolding quiet_def by (intro allI keeps_block) blast

lemma quiet_if: "(b \<Longrightarrow> quiet c) \<Longrightarrow> (\<not> b \<Longrightarrow> quiet d) \<Longrightarrow> quiet (if b then c else d)"
  by simp

lemmas quiet_rules = quiet_give quiet_halt quiet_getc quiet_bindc quiet_block quiet_if

lemma quiet_on_dfu: "quiet (on_dfu c)"
  unfolding quiet_def on_dfu_def
  by (auto simp: keeps_def triple_def out_view_def zoom_def split: result.splits)

lemma quiet_ubus: "quiet (ubus c)"
  unfolding ubus_def by (rule quiet_on_dfu)

lemma quiet_modc: "(\<And>s. out_view (f s) = out_view s) \<Longrightarrow> quiet (modc f)"
  unfolding quiet_def by (auto intro: keeps_modc)

lemma quiet_put_ctl: "quiet (put_ctl off bs)"
  unfolding put_ctl_def by (intro quiet_rules quiet_on_dfu)

lemma quiet_nak_set: "quiet (usbd_ep_nak_set H ep nak)"
  unfolding usbd_ep_nak_set_def
  by (auto intro!: quiet_rules quiet_ubus quiet_modc simp: out_view_def)

lemma quiet_read_packet: "quiet (usbd_ep_read_packet H ep n)"
  unfolding usbd_ep_read_packet_def ep_rearm_def by (auto intro!: quiet_rules quiet_ubus)

lemma quiet_ep_setup: "quiet (usbd_ep_setup H ep ty n)"
  unfolding usbd_ep_setup_def Let_def
  by (auto intro!: quiet_rules quiet_ubus quiet_modc simp: out_view_def)

lemma quiet_usb_reset: "quiet (usb_reset H)"
  unfolding usb_reset_def
  by (auto intro!: quiet_rules quiet_ubus quiet_modc quiet_ep_setup simp: out_view_def)

text \<open>
  Commands after which the bound holds whatever the state was: those that end a data
  stage or start a new one.
\<close>

definition settled :: "(usb, 'a) cmd \<Rightarrow> bool" where
  "settled c \<longleftrightarrow> (\<forall>s x s'. c s = Done x s' \<longrightarrow> out_ok s')"

lemma settled_bindc: "(\<And>x. settled (f x)) \<Longrightarrow> settled (bindc c f)"
  by (auto simp: settled_def bindc_eq_Done)

lemma settled_if: "(b \<Longrightarrow> settled c) \<Longrightarrow> (\<not> b \<Longrightarrow> settled d) \<Longrightarrow> settled (if b then c else d)"
  by simp

lemma settled_then_quiet: "settled c \<Longrightarrow> (\<And>x. quiet (f x)) \<Longrightarrow> settled (bindc c f)"
  unfolding settled_def bindc_eq_Done by (metis out_ok_view quiet_Done)

lemma settled_fsm: "q \<noteq> DATA_OUT \<Longrightarrow> q \<noteq> LAST_DATA_OUT \<Longrightarrow> settled (set_fsm q)"
  by (auto simp: settled_def set_fsm_def modc_def out_ok_def receiving_def)

lemma settled_block_fsm:
  "q \<noteq> DATA_OUT \<Longrightarrow> q \<noteq> LAST_DATA_OUT \<Longrightarrow> settled (block (cs @ [set_fsm q]))"
  unfolding block_append by (rule settled_bindc) (simp add: settled_fsm)

lemma settled_stall: "settled (stall_transaction H)"
  unfolding stall_transaction_def
  using settled_block_fsm [of IDLE "[ubus (ep_stall_set H 0 True)]"] by simp

lemma settled_send_chunk: "settled (usb_control_send_chunk H)"
proof -
  have a: "settled (bindc (set_fsm DATA_IN) (\<lambda>_. block
      [modc (\<lambda>s. s\<lparr>dataoff := dataoff s + of_nat max_packet\<rparr>),
       modc (\<lambda>s. s\<lparr>datasize := datasize s - of_nat max_packet\<rparr>)]))"
    by (auto simp: settled_def set_fsm_def modc_def bindc_def give_def out_ok_def receiving_def)
  have b: "settled (bindc (bindc (getc usb_needs_zlp) (\<lambda>z. set_fsm (if z \<noteq> 0 then DATA_IN else LAST_DATA_IN)))
      (\<lambda>_. block [modc (\<lambda>s. s\<lparr>usb_needs_zlp := 0\<rparr>), set_datasize 0]))"
    by (auto simp: settled_def set_fsm_def modc_def getc_def bindc_def give_def set_datasize_def
        out_ok_def receiving_def)
  have a': "settled (block [bindc w (\<lambda>_. skip), set_fsm DATA_IN,
      modc (\<lambda>s. s\<lparr>dataoff := dataoff s + of_nat max_packet\<rparr>),
      modc (\<lambda>s. s\<lparr>datasize := datasize s - of_nat max_packet\<rparr>)])" for w :: "(usb, u16) cmd"
    unfolding block.simps(2) [of "bindc w (\<lambda>_. skip)"] block.simps(2) [of "set_fsm DATA_IN"]
    by (rule settled_bindc) (rule a)
  have b': "settled (block [bindc w (\<lambda>_. skip),
      bindc (getc usb_needs_zlp) (\<lambda>z. set_fsm (if z \<noteq> 0 then DATA_IN else LAST_DATA_IN)),
      modc (\<lambda>s. s\<lparr>usb_needs_zlp := 0\<rparr>), set_datasize 0])" for w :: "(usb, u16) cmd"
    unfolding block.simps(2) [of "bindc w (\<lambda>_. skip)"]
      block.simps(2) [of "bindc (getc usb_needs_zlp) (\<lambda>z. set_fsm (if z \<noteq> 0 then DATA_IN else LAST_DATA_IN))"]
    by (rule settled_bindc) (rule b)
  show ?thesis unfolding usb_control_send_chunk_def split_beta
    by (intro settled_bindc settled_if a' b')
qed

section \<open>A packet of the data stage\<close>

lemma out_ok_packet:
  assumes "out_ok s" and "receiving s"
  defines "n \<equiv> word_of_int (min 64 (uint (wLength (usb_req s)) - uint (datasize s))) :: u16"
  shows "unat n = min 64 (unat (wLength (usb_req s)) - unat (datasize s))"
    and "unat (datasize s) + unat n \<le> unat (wLength (usb_req s))"
    and "unat (datasize s + n) = unat (datasize s) + unat n"
    and "unat (wLength (usb_req s)) \<le> 1024"
proof -
  let ?w = "unat (wLength (usb_req s))" and ?d = "unat (datasize s)"
  have le: "?d \<le> ?w" "?w \<le> 1024"
    using assms(1,2) by (simp_all add: out_ok_def DFU_TRANSFER_SIZE_def)
  have u: "uint (wLength (usb_req s)) = int ?w" "uint (datasize s) = int ?d"
    by simp_all
  have m: "min 64 (int w - int d) = int (min 64 (w - d))" if "d \<le> w" for w d :: nat
    using that by auto
  have "n = of_nat (min 64 (?w - ?d))"
    unfolding n_def u m [OF le(1)] by (simp only: of_int_of_nat_eq)
  then show 1: "unat n = min 64 (?w - ?d)" by simp
  show "?d + unat n \<le> ?w" using 1 le by simp
  then show "unat (datasize s + n) = ?d + unat n"
    using le by (simp add: unat_word_ariths)
  show "?w \<le> 1024" by (fact le)
qed

text \<open>
  The length macro reads the received count twice; the count of a packet that waits in the
  packet memory does not change between the two reads.
\<close>

definition stable_count :: "hw \<Rightarrow> bool" where
  "stable_count H \<longleftrightarrow> (\<forall>h b v v'. let a = btable_entry 0 0 6 in
     H h (Load W32 a) = Some v \<longrightarrow>
     H (Loaded W32 USB_BTABLE_REG b # Loaded W32 a v # h) (Load W32 a) = Some v' \<longrightarrow>
     (ucast v' :: u16) = ucast v)"

lemma ubus_Done:
  "ubus c s = Done x s' \<longleftrightarrow>
   (\<exists>h. c (io (dfu_part s)) = Done x h \<and> s' = s\<lparr>dfu_part := (dfu_part s)\<lparr>io := h\<rparr>\<rparr>)"
  by (auto simp: ubus_def on_dfu_def bus_def zoom_def split: result.splits)

lemma rx_length_bound:
  assumes "pma_hw H" and "stable_count H" and "rx_length H 0 len h = Done n h'"
  shows "n \<le> len"
proof -
  have get: "\<exists>b v. h2 = Loaded W32 (btable_entry 0 0 6) v # Loaded W32 USB_BTABLE_REG b # h1 \<and>
      H (Loaded W32 USB_BTABLE_REG b # h1) (Load W32 (btable_entry 0 0 6)) = Some v \<and> c = ucast v"
    if g: "USB_GET_EP_RX_COUNT H 0 h1 = Done c h2" for h1 h2 c
  proof -
    from g obtain bt g1 where b: "GET_REG H USB_BTABLE_REG h1 = Done bt g1"
      "GET_REG H (btable_entry bt 0 6) g1 = Done c h2"
      by (auto simp: USB_GET_EP_RX_COUNT_def btable_get_def bindc_eq_Done)
    from btable_value [OF assms(1) b(1)] b show ?thesis
      by (auto simp: GET_REG_def bindc_def load_def give_def split: option.splits)
  qed
  from assms(3) obtain c h1 where 1: "USB_GET_EP_RX_COUNT H 0 h = Done c h1"
    "(if c AND 0x3ff < len then bindc (USB_GET_EP_RX_COUNT H 0) (\<lambda>c'. give (c' AND 0x3ff))
      else give len) h1 = Done n h'"
    by (auto simp: rx_length_def bindc_eq_Done)
  show ?thesis
  proof (cases "c AND 0x3ff < len")
    case True
    with 1(2) obtain c' h2 where 2: "USB_GET_EP_RX_COUNT H 0 h1 = Done c' h2" "n = c' AND 0x3ff"
      by (auto simp: bindc_eq_Done give_def)
    from get [OF 1(1)] get [OF 2(1)] assms(2) have "c' = c"
      unfolding stable_count_def Let_def by blast
    with True 2(2) show ?thesis by simp
  next
    case False
    with 1(2) show ?thesis by (simp add: give_def)
  qed
qed

lemma copy_from_length:
  assumes "st_usbfs_copy_from_pm H base m h = Done bs h'"
  shows "length bs = unat m"
proof -
  have l: "load_pm H base idx k trail h = Done bs h' \<Longrightarrow>
      length bs = 2 * k + (if trail then 1 else 0)" for idx k trail h bs h'
    by (induction k arbitrary: idx h bs)
      (auto simp: bindc_eq_Done give_def load8_def load_def split: if_splits)
  from l [of 0 "unat m div 2" "odd (unat m)"] assms show ?thesis
    by (auto simp: copy_from_reference)
qed

lemma read_packet_length:
  assumes "pma_hw H" and "stable_count H" and "usbd_ep_read_packet H 0 len s = Done (n, bs) s'"
  shows "length bs = unat n" and "n \<le> len"
proof -
  have c: "length bs = unat n \<and> n \<le> len" if "ep_fetch H 0 len h = Done (n, bs) h'" for h h'
    using that rx_length_bound [OF assms(1,2)] copy_from_length
    by (auto simp: ep_fetch_def bindc_eq_Done give_def)
  from assms(3) have "n = 0 \<and> bs = [] \<or> (\<exists>h h'. ep_fetch H 0 len h = Done (n, bs) h')"
    by (auto simp: usbd_ep_read_packet_def bindc_eq_Done ubus_Done give_def split: if_splits)
  with c show "length bs = unat n" "n \<le> len" by auto
qed

section \<open>How receiving may stop\<close>

lemma runs_regs:
  "runs always {BusFault} (GET_REG H a)" "runs always {BusFault} (SET_REG H a v)"
  unfolding GET_REG_def SET_REG_def by (intro runs_rules; simp)+

lemma runs_toggles:
  "runs always {BusFault} (USB_SET_EP_RX_STAT H ep st)"
  "runs always {BusFault} (USB_SET_EP_TX_STAT H ep st)"
  "runs always {BusFault} (USB_CLR_EP_RX_CTR H ep)"
  unfolding USB_SET_EP_RX_STAT_def USB_SET_EP_TX_STAT_def USB_CLR_EP_RX_CTR_def
    TOG_SET_REG_BIT_MSK_AND_SET_def CLR_REG_BIT_MSK_AND_SET_def
  by (intro runs_bindc runs_regs)+

lemma runs_fetch: "runs always {BusFault} (ep_fetch H ep len)"
proof -
  have g: "runs always {BusFault} (btable_get H ep k)" for k
    unfolding btable_get_def by (intro runs_bindc runs_regs)
  have "runs always {BusFault} (load_pm H base idx n trail)" for base idx n trail
    by (induction n arbitrary: idx) (auto intro!: runs_rules)
  then have "runs always {BusFault} (st_usbfs_copy_from_pm H base n)" for base n
    by (simp add: copy_from_reference)
  then show ?thesis
    unfolding ep_fetch_def rx_length_def USB_GET_EP_RX_COUNT_def USB_GET_EP_RX_BUFF_def
    by (intro runs_bindc runs_if runs_give g runs_toggles)
qed

lemma runs_on_dfu: "runs dfu_ok E c \<Longrightarrow> runs usb_base E (on_dfu c)"
  unfolding on_dfu_def
  by (rule runs_zoom [where J = dfu_ok]) (simp_all add: usb_base_def)

lemma runs_ubus: "runs always E c \<Longrightarrow> runs usb_base E (ubus c)"
  unfolding ubus_def by (intro runs_on_dfu runs_zoom [where J = always, folded bus_def, unfolded bus_def])
    (simp_all add: bus_def runs_zoom [where J = always])

lemma runs_set_fsm: "runs usb_base E (set_fsm q)"
  unfolding set_fsm_def by (rule runs_modc) (simp add: usb_base_def)

lemma runs_stall: "runs usb_base {BusFault} (stall_transaction H)"
proof -
  have "runs always {BusFault} (ep_stall_set H 0 True)"
    unfolding ep_stall_set_def Let_def
    by (intro runs_list) (simp add: runs_toggles runs_give runs_bindc)
  then show ?thesis unfolding stall_transaction_def
    by (intro runs_list) (simp add: runs_ubus runs_set_fsm)
qed

lemma runs_read_packet: "runs usb_base {BusFault} (usbd_ep_read_packet H 0 len)"
proof -
  have r: "runs usb_base {BusFault} (ep_rearm H 0)"
    unfolding ep_rearm_def
  proof (rule runs_bind_getc)
    fix s assume "usb_base s"
    then have "\<not> length (usb_force_nak s) \<le> unat (0 :: u8)" by (simp add: usb_base_def)
    then show "runs usb_base {BusFault}
        (if length (usb_force_nak s) \<le> unat (0 :: u8) then halt OutOfBounds
         else if usb_force_nak s ! unat (0 :: u8) = 0
         then ubus (USB_SET_EP_RX_STAT H 0 USB_EP_RX_STAT_VALID) else skip)"
      by (simp only: if_False) (intro runs_if runs_ubus runs_toggles runs_give)
  qed
  have l: "runs always {BusFault} (load32 H a)" for a by (rule runs_load) simp
  show ?thesis unfolding usbd_ep_read_packet_def split_beta
    by (intro runs_bindc runs_if runs_give runs_ubus runs_fetch r l)
qed

text \<open>
  Receiving a packet keeps the bound and never leaves the control buffer.
\<close>

lemma recv_chunk_bounds:
  assumes H: "pma_hw H" "stable_count H"
    and s: "usb_base s" "out_ok s" "receiving s"
  shows "case usb_control_recv_chunk H s of
     Done r s' \<Rightarrow> usb_base s' \<and> out_ok s' \<and>
       (case r of None \<Rightarrow> usb_fsm_state s' = IDLE
        | Some n \<Rightarrow> usb_fsm_state s' = usb_fsm_state s \<and> usb_req s' = usb_req s \<and>
            unat (datasize s') = unat (datasize s) + unat n)
   | Stopped r s' \<Rightarrow> r = BusFault"
proof -
  define n where "n = (word_of_int (min 64 (uint (wLength (usb_req s)) - uint (datasize s))) :: u16)"
  note b = out_ok_packet [OF s(2,3), folded n_def]
  have run: "usb_control_recv_chunk H s =
      bindc (usbd_ep_read_packet H 0 n) (\<lambda>(k, bs).
      bindc (put_ctl (unat (datasize s)) bs) (\<lambda>_.
       if k \<noteq> n then bindc (stall_transaction H) (\<lambda>_. give None)
       else bindc (modc (\<lambda>s. s\<lparr>datasize := datasize s + k\<rparr>)) (\<lambda>_. give (Some n)))) s"
    by (simp only: usb_control_recv_chunk_def bindc_getc prod.case max_packet_64 of_nat_numeral n_def)
  show ?thesis
  proof (cases "usbd_ep_read_packet H 0 n s")
    case (Stopped r s')
    with runs_Stopped [OF runs_read_packet s(1) this] show ?thesis by (simp add: run bindc_Stopped)
  next
    case (Done x s1)
    obtain k bs where x: "x = (k, bs)" by (cases x)
    note l = read_packet_length [OF H Done [unfolded x]]
    have s1: "usb_base s1" "out_view s1 = out_view s"
      using runs_Done [OF runs_read_packet s(1) Done] quiet_Done [OF quiet_read_packet Done] by blast+
    have "unat k \<le> unat n" using l(2) by (simp add: word_le_nat_alt)
    then have "unat (datasize s) + length bs \<le> 1024" using b(2,4) l(1) by linarith
    then have fit: "unat (datasize s) + length bs \<le> length (ctl_buffer s1)"
      using s1(1) by (simp add: usb_base_def dfu_ok_def ctl_buffer_def DFU_TRANSFER_SIZE_def)
    define s2 where "s2 = s1\<lparr>dfu_part := (dfu_part s1)\<lparr>usbd_control_buffer :=
        overwrite (unat (datasize s)) bs (usbd_control_buffer (dfu_part s1))\<rparr>\<rparr>"
    have put: "put_ctl (unat (datasize s)) bs s1 = Done () s2"
      using fit by (simp add: put_ctl_def bindc_def getc_def on_dfu_def zoom_def modc_def s2_def)
    have s2: "usb_base s2" "out_view s2 = out_view s"
      using s1 by (simp_all add: s2_def usb_base_def out_view_def)
    have run2: "usb_control_recv_chunk H s =
        (if k \<noteq> n then bindc (stall_transaction H) (\<lambda>_. give None)
         else bindc (modc (\<lambda>s. s\<lparr>datasize := datasize s + k\<rparr>)) (\<lambda>_. give (Some n))) s2"
      by (simp only: run bindc_def [of "usbd_ep_read_packet H 0 n"] Done x result.case prod.case)
        (simp only: bindc_def [of "put_ctl (unat (datasize s)) bs" _ s1] put result.case)
    show ?thesis
    proof (cases "k = n")
      case True
      have "out_ok (s2\<lparr>datasize := datasize s2 + n\<rparr>)"
        using s2(2) s(2) b by (auto simp: out_ok_def out_view_def receiving_def)
      then show ?thesis
        using True s2 b(3) by (simp add: run2 bindc_def modc_def give_def usb_base_def out_view_def)
    next
      case False
      show ?thesis
      proof (cases "stall_transaction H s2")
        case (Done u s3)
        have "usb_fsm_state s3 = IDLE"
          using Done by (auto simp: stall_transaction_def bindc_eq_Done set_fsm_def modc_def give_def)
        then show ?thesis
          using False Done runs_Done [OF runs_stall s2(1) Done]
          by (simp add: run2 bindc_Done give_def out_ok_def receiving_def)
      next
        case (Stopped r s3)
        with runs_Stopped [OF runs_stall s2(1) Stopped] False show ?thesis
          by (simp add: run2 bindc_Stopped)
      qed
    qed
  qed
qed

section \<open>Every poll keeps the bound\<close>

lemma settled_setup_write: "settled (usb_control_setup_write H)"
  unfolding settled_def
proof (intro allI impI)
  fix s x s' assume e: "usb_control_setup_write H s = Done x s'"
  let ?n = "wLength (usb_req s)"
  show "out_ok s'"
  proof (cases "DFU_TRANSFER_SIZE < unat ?n")
    case True
    with e settled_stall show ?thesis
      by (auto simp: usb_control_setup_write_def bindc_getc settled_def)
  next
    case False
    let ?s1 = "s\<lparr>datasize := 0, usb_fsm_state := if max_packet < unat ?n then DATA_OUT else LAST_DATA_OUT\<rparr>"
    from e False have "(block [set_datasize 0,
        set_fsm (if max_packet < unat ?n then DATA_OUT else LAST_DATA_OUT),
        usbd_ep_nak_set H 0 0]) s = Done x s'"
      by (simp only: usb_control_setup_write_def bindc_getc if_False)
    then have "usbd_ep_nak_set H 0 0 ?s1 = Done x s'"
      by (simp add: set_datasize_def set_fsm_def bindc_def [of "modc _"] modc_def)
    from quiet_Done [OF quiet_nak_set this] have "out_view s' = out_view ?s1" .
    moreover have "out_ok ?s1" using False by (simp add: out_ok_def)
    ultimately show ?thesis using out_ok_view by blast
  qed
qed

lemma settled_setup_read: "settled (usb_control_setup_read C H)"
proof -
  have "settled (block [modc (\<lambda>s. s\<lparr>usb_needs_zlp := z s\<rparr>), usb_control_send_chunk H])" for z
    using settled_send_chunk by (simp add: settled_bindc)
  moreover have "settled (block [bindc (ubus c) (\<lambda>_. skip), set_fsm STATUS_IN])"
    for c :: "(history, u16) cmd"
    using settled_block_fsm [of STATUS_IN "[bindc (ubus c) (\<lambda>_. skip)]"] by simp
  ultimately show ?thesis unfolding usb_control_setup_read_def
    by (intro settled_bindc settled_if settled_stall)
qed

lemma settled_control_setup: "settled (usbd_control_setup C H)"
  unfolding usbd_control_setup_def split_beta
  by (intro settled_bindc settled_if settled_stall settled_setup_read settled_setup_write)

lemma quiet_complete_cb: "quiet (run_complete_cb C H)"
  unfolding run_complete_cb_def split_beta by (intro quiet_rules quiet_on_dfu)

lemma out_ok_control_out:
  assumes H: "pma_hw H" "stable_count H" and s: "usb_base s" "out_ok s"
    and e: "usbd_control_out C H s = Done x s'"
  shows "out_ok s'"
proof -
  have fin: "settled (bindc (usb_control_request_dispatch C H) (\<lambda>result.
      if result \<noteq> USBD_REQ_NOTSUPP
      then block [bindc (ubus (usbd_ep_write_packet H 0 [] 0)) (\<lambda>_. skip), set_fsm STATUS_IN]
      else stall_transaction H))"
    using settled_block_fsm [of STATUS_IN "[bindc (ubus (usbd_ep_write_packet H 0 [] 0)) (\<lambda>_. skip)]"]
    by (intro settled_bindc settled_if settled_stall) simp
  have st: "settled (block [bindc (usbd_ep_read_packet H 0 0) (\<lambda>_. skip), set_fsm IDLE,
      run_complete_cb C H, modc (\<lambda>s. s\<lparr>usb_complete_cb := False\<rparr>)])"
    unfolding block.simps
    by (intro settled_bindc settled_then_quiet [OF settled_fsm] quiet_rules quiet_complete_cb
        quiet_modc) (simp_all add: out_view_def)
  note run = e [unfolded usbd_control_out_def bindc_getc]
  have stall: "usb_fsm_state s \<notin> {DATA_OUT, LAST_DATA_OUT, STATUS_OUT} \<Longrightarrow> out_ok s'"
    using run settled_stall [of H] by (cases "usb_fsm_state s") (auto simp: settled_def)
  show ?thesis
  proof (cases "receiving s")
    case True
    note rb = recv_chunk_bounds [OF H s True]
    from run True obtain r s1 where 1: "usb_control_recv_chunk H s = Done r s1"
      by (auto simp: receiving_def bindc_eq_Done)
    with rb have o: "out_ok s1" by simp
    show ?thesis
    proof (cases r)
      case None
      with run True 1 o show ?thesis by (auto simp: receiving_def bindc_Done give_def)
    next
      case (Some n)
      show ?thesis
      proof (cases "usb_fsm_state s = DATA_OUT")
        case True
        with run 1 Some have "(if uint (wLength (usb_req s1)) - uint (datasize s1) \<le> int max_packet
            then set_fsm LAST_DATA_OUT else skip) s1 = Done x s'"
          by (simp add: bindc_Done bindc_getc)
        moreover have "usb_fsm_state s1 = DATA_OUT" using rb 1 Some True by simp
        ultimately show ?thesis using o
          by (auto simp: set_fsm_def modc_def give_def out_ok_def receiving_def split: if_splits)
      next
        case False
        with \<open>receiving s\<close> have "usb_fsm_state s = LAST_DATA_OUT" by (simp add: receiving_def)
        with run 1 Some fin show ?thesis by (auto simp: bindc_Done settled_def)
      qed
    qed
  next
    case False
    show ?thesis
    proof (cases "usb_fsm_state s = STATUS_OUT")
      case True
      with run st show ?thesis by (auto simp: settled_def)
    next
      case f: False
      with False stall show ?thesis by (simp add: receiving_def)
    qed
  qed
qed

lemma settled_control_in: "settled (usbd_control_in C H)"
proof -
  have a: "settled (block [set_fsm STATUS_OUT, usbd_ep_nak_set H 0 0])"
    unfolding block.simps
    by (intro settled_then_quiet [OF settled_fsm] quiet_rules quiet_nak_set) simp_all
  have b: "settled (block [run_complete_cb C H, c, set_fsm IDLE])" for c
    using settled_block_fsm [of IDLE "[run_complete_cb C H, c]"] by simp
  have "settled (case q of
       DATA_IN \<Rightarrow> usb_control_send_chunk H
     | LAST_DATA_IN \<Rightarrow> block [set_fsm STATUS_OUT, usbd_ep_nak_set H 0 0]
     | STATUS_IN \<Rightarrow> block
         [run_complete_cb C H,
          bindc (getc usb_req) (\<lambda>req.
            if bmRequestType req = 0 \<and> bRequest req = 5
            then ubus (SET_REG H USB_DADDR_REG ((wValue req AND USB_DADDR_ADDR) OR USB_DADDR_EF))
            else skip),
          set_fsm IDLE]
     | _ \<Rightarrow> stall_transaction H)" for q
    by (cases q) (simp_all only: usb_fsm.case a b settled_stall settled_send_chunk)
  then show ?thesis unfolding usbd_control_in_def by (rule settled_bindc)
qed

lemma block_then_quiet:
  assumes "block (c # cs) s = Done x s'" and "\<And>u t. c s = Done u t \<Longrightarrow> out_ok t"
    and "\<And>d. d \<in> set cs \<Longrightarrow> quiet d"
  shows "out_ok s'"
proof -
  from assms(1) obtain u t where t: "c s = Done u t" "block cs t = Done x s'"
    by (auto simp: bindc_eq_Done)
  have "quiet (block cs)" using assms(3) by (rule quiet_block)
  from quiet_Done [OF this t(2)] assms(2) [OF t(1)] show ?thesis using out_ok_view by blast
qed

lemma poll_keeps_bound:
  assumes H: "pma_hw H" "stable_count H" and s: "usb_base s" "out_ok s"
    and e: "do_usb_poll C H s = Done x s'"
  shows "out_ok s'"
proof -
  from e obtain istr h where 1: "GET_REG H USB_ISTR_REG (io (dfu_part s)) = Done istr h"
    and e1: "(if istr AND USB_ISTR_RESET \<noteq> 0 then usb_reset H
     else block
       [if istr AND USB_ISTR_CTR \<noteq> 0
        then (let ep = ucast (istr AND USB_ISTR_EP_ID) in
          if istr AND USB_ISTR_DIR \<noteq> 0
          then bindc (ubus (load32 H (USB_EP_REG ep))) (\<lambda>r.
                 if r AND ucast USB_EP_SETUP \<noteq> 0
                 then usbd_control_setup C H else usbd_control_out C H)
          else block [ubus (USB_CLR_EP_TX_CTR H ep), usbd_control_in C H])
        else skip,
        if istr AND USB_ISTR_SUSP \<noteq> 0 then ubus (CLR_REG_BIT H USB_ISTR_REG USB_ISTR_SUSP) else skip,
        if istr AND USB_ISTR_WKUP \<noteq> 0 then ubus (CLR_REG_BIT H USB_ISTR_REG USB_ISTR_WKUP) else skip,
        if istr AND USB_ISTR_SOF \<noteq> 0 then ubus (CLR_REG_BIT H USB_ISTR_REG USB_ISTR_SOF) else skip,
        ubus (and32 H USB_CNTR_REG (NOT USB_CNTR_SOFM))])
      (s\<lparr>dfu_part := (dfu_part s)\<lparr>io := h\<rparr>\<rparr>) = Done x s'"
    by (auto simp only: do_usb_poll_def bindc_eq_Done ubus_Done)
  define s1 where "s1 = s\<lparr>dfu_part := (dfu_part s)\<lparr>io := h\<rparr>\<rparr>"
  have s1: "usb_base s1" "out_ok s1"
    using s by (simp_all add: s1_def usb_base_def out_ok_def receiving_def)
  have mid: "out_ok t'" if "(let ep = ucast (istr AND USB_ISTR_EP_ID) in
          if istr AND USB_ISTR_DIR \<noteq> 0
          then bindc (ubus (load32 H (USB_EP_REG ep))) (\<lambda>r.
                 if r AND ucast USB_EP_SETUP \<noteq> 0
                 then usbd_control_setup C H else usbd_control_out C H)
          else block [ubus (USB_CLR_EP_TX_CTR H ep), usbd_control_in C H]) s1 = Done u t'" for u t'
  proof (cases "istr AND USB_ISTR_DIR \<noteq> 0")
    case True
    with that obtain r :: u32 and g where
      "(if r AND ucast USB_EP_SETUP \<noteq> 0 then usbd_control_setup C H else usbd_control_out C H)
        (s1\<lparr>dfu_part := (dfu_part s1)\<lparr>io := g\<rparr>\<rparr>) = Done u t'"
      by (simp only: Let_def not_False_eq_True if_True bindc_eq_Done ubus_Done) blast
    moreover have "usb_base (s1\<lparr>dfu_part := (dfu_part s1)\<lparr>io := g\<rparr>\<rparr>)"
      "out_ok (s1\<lparr>dfu_part := (dfu_part s1)\<lparr>io := g\<rparr>\<rparr>)"
      using s1 by (simp_all add: usb_base_def out_ok_def receiving_def)
    ultimately show ?thesis
      using settled_control_setup [of C H] out_ok_control_out [OF H]
      by (cases "r AND ucast USB_EP_SETUP \<noteq> 0") (auto simp: settled_def)
  next
    case False
    have "settled (block [ubus (USB_CLR_EP_TX_CTR H ep), usbd_control_in C H])" for ep
      using settled_control_in by (simp add: settled_bindc)
    with that False show ?thesis by (auto simp: Let_def settled_def)
  qed
  show ?thesis
  proof (cases "istr AND USB_ISTR_RESET \<noteq> 0")
    case True
    with e1 have "usb_reset H s1 = Done x s'" by (simp only: s1_def not_False_eq_True if_True)
    from quiet_Done [OF quiet_usb_reset this] s1(2) show ?thesis using out_ok_view by blast
  next
    case False
    note b = e1 [folded s1_def, unfolded if_not_P [OF False]]
    show ?thesis
    proof (rule block_then_quiet [OF b])
      fix u t
      assume a: "(if istr AND USB_ISTR_CTR \<noteq> 0
        then (let ep = ucast (istr AND USB_ISTR_EP_ID) in
          if istr AND USB_ISTR_DIR \<noteq> 0
          then bindc (ubus (load32 H (USB_EP_REG ep))) (\<lambda>r.
                 if r AND ucast USB_EP_SETUP \<noteq> 0
                 then usbd_control_setup C H else usbd_control_out C H)
          else block [ubus (USB_CLR_EP_TX_CTR H ep), usbd_control_in C H])
        else skip) s1 = Done u t"
      show "out_ok t"
      proof (cases "istr AND USB_ISTR_CTR \<noteq> 0")
        case True
        show ?thesis by (rule mid) (use a in \<open>simp only: if_P [OF True]\<close>)
      next
        case False
        with a s1(2) show ?thesis by (simp add: give_def)
      qed
    qed (auto intro: quiet_rules quiet_ubus)
  qed
qed

end
