(* ===== verification/BootSafe.thy ===== *)
theory BootSafe
  imports BootSpec UsbOut
begin

text \<open>
  From reset on, the firmware never writes to its own flash: the boot code and the main
  loop stay within a write policy, for every build. A staged image may only be installed
  with the size that was checked, because the RAM chip gives the same header twice.
\<close>

section \<open>Drivers and boot code within a write policy\<close>

context write_policy
begin

lemma safe_spi_regs:
  "keeps (list_all ok) (store32 H (GPIO_BSRR SPI_SRAM_PORT) v)"
  "keeps (list_all ok) (store16 H SPI2_DR x)"
  unfolding store16_def by (rule safe_reg; simp add: reg_defs SPI_SRAM_PORT_def)+

lemma safe_xfer: "keeps (list_all ok) (spi_sram_xfer_byte H b)"
  unfolding spi_sram_xfer_byte_def
  by (intro keeps_bindc keeps_if keeps_give safe_bus safe_spi_regs)

lemma safe_send: "keeps (list_all ok) (send_byte H b)"
  unfolding send_byte_def by (intro keeps_bindc keeps_give safe_xfer)

lemma safe_spi_block:
  "keeps (list_all ok) (spi_sram_cs_assert H)" "keeps (list_all ok) (spi_sram_cs_deassert H)"
  "keeps (list_all ok) (send_header H opc a)"
  unfolding spi_sram_cs_assert_def spi_sram_cs_deassert_def gpio_clear_def gpio_set_def send_header_def
  by (rule safe_spi_regs safe_block | simp add: safe_send)+

lemma safe_spi_read: "keeps (list_all ok) (spi_sram_read H a buf n)"
proof -
  have "keeps (list_all ok) (read_bytes H k)" for k
    by (induction k) (auto intro!: keeps_rules safe_xfer)
  then show ?thesis unfolding spi_sram_read_def
    by (cases buf) (auto intro!: keeps_bindc keeps_if keeps_give keeps_halt safe_spi_block)
qed

lemma safe_spi_write: "keeps (list_all ok) (spi_sram_write H a buf n)"
  unfolding spi_sram_write_def
  by (cases buf) (auto intro!: keeps_rules safe_spi_block safe_send)

lemma safe_stream:
  assumes "\<And>a buf n. keeps (list_all ok) (rd a buf n)"
  shows "keeps (list_all ok) (validate_checksum_stream (Some rd) a n)"
proof -
  have "keeps (list_all ok) (stream_loop rd buf addr r x)" for buf addr r x
  proof (induction "unat r" arbitrary: buf addr r x rule: less_induct)
    case less
    show ?case
    proof (cases "r = 0")
      case False
      then have "0 < unat (chunk_len r)" "0 < unat r"
        using chunk_len_bounds(3) [of r] by (simp_all add: word_less_nat_alt unat_gt_0)
      then have "unat (r - chunk_len r) < unat r" by (simp add: chunk_len_remaining)
      from less [OF this] False assms show ?thesis
        by (subst stream_loop.simps) (auto intro!: keeps_rules)
    qed (simp add: stream_loop.simps keeps_give)
  qed
  then show ?thesis unfolding validate_checksum_stream_def by (auto intro!: keeps_rules)
qed

lemma safe_valid_image: "keeps (list_all ok) (sram_has_valid_image H)"
  unfolding sram_has_valid_image_def Let_def split_beta
  by (intro keeps_bindc keeps_if keeps_give safe_spi_read safe_stream)

lemma safe_spi_init: "keeps (list_all ok) (spi_sram_hw_init H)"
proof -
  have r: "keeps (list_all ok) (or32 H a m)" "keeps (list_all ok) (store32 H a m)"
    if "a \<in> {RCC_APB1ENR, RCC_APB2ENR, SPI2_CR1}" for a m
    using that by (auto intro!: safe_or32 safe_reg simp: reg_defs)
  show ?thesis unfolding spi_sram_hw_init_def gpio_set_output_def
    by (rule safe_block)
      (simp add: safe_gpio r safe_load keeps_bindc keeps_give)
qed

text \<open>The installation, with a size that was checked\<close>

lemma safe_install_loop:
  assumes "unat sz \<le> 122880" and "unat w \<le> unat sz"
  shows "keeps (list_all ok) (install_loop H off sz buf w)"
  using assms(2)
proof (induction "unat sz - unat w" arbitrary: w buf rule: less_induct)
  case less
  show ?case
  proof (cases "w < sz")
    case False
    then show ?thesis by (simp add: install_loop.simps keeps_give)
  next
    case True
    let ?c = "chunk_len (sz - w)"
    have lt: "unat w < unat sz" using True by (simp add: word_less_nat_alt)
    have d: "unat (sz - w) = unat sz - unat w"
      using lt by (intro unat_diff_u32) (simp add: word_le_nat_alt)
    have "sz - w \<noteq> 0" using True by auto
    then have c: "0 < unat ?c" "unat ?c \<le> unat sz - unat w"
      using chunk_len_bounds [of "sz - w"] d by (simp_all add: word_less_nat_alt)
    have wc: "unat (w + ?c) = unat w + unat ?c"
      using unat_add_u32 [of w "unat ?c"] c assms(1) lt by simp
    have "ok (Stored W16 (APP_ADDRESS + w + 2 * of_nat i) v)" if "i < unat ?c div 2" for i v
    proof -
      have k: "unat w + 2 * i < unat sz" using that c(2) by linarith
      have "APP_ADDRESS + w + 2 * of_nat i = 0x08002000 + of_nat (unat w + 2 * i)" by simp
      moreover have "unat (0x08002000 + of_nat (unat w + 2 * i) :: u32) = 0x08002000 + (unat w + 2 * i)"
        by (rule app_offset) (use k assms(1) in simp)
      ultimately have "in_app (APP_ADDRESS + w + 2 * of_nat i)"
        using k assms(1) by (simp add: in_app_def word_le_nat_alt word_less_nat_alt add.assoc)
      then show ?thesis by (rule ok_program)
    qed
    then have "keeps (list_all ok) (flash_program_buffer H (APP_ADDRESS + w) b (unat ?c))" for b
      by (rule safe_flash_program_buffer)
    moreover have "keeps (list_all ok) (install_loop H off sz b (w + ?c))" for b
      by (rule less.hyps) (use wc c lt in simp_all)
    ultimately show ?thesis
      using True by (subst install_loop.simps) (auto intro!: keeps_bindc keeps_if keeps_give safe_spi_read)
  qed
qed

lemma safe_image_erase:
  assumes "n \<le> 122880"
  shows "keeps (list_all ok) (for_step APP_ADDRESS (APP_ADDRESS + of_nat n) 1024 (\<lambda>a.
     bindc (flash_page_is_erased H a) (\<lambda>e. if \<not> e then flash_erase_page H a else skip)))"
proof -
  let ?lim = "APP_ADDRESS + of_nat n :: u32"
  have lim: "unat ?lim \<le> 0x08020000" using app_offset [OF assms] assms by simp
  let ?P = "\<lambda>a :: u32. 0x08002000 \<le> unat a \<and> unat a \<le> 0x08020400"
  have nxt: "?P (a + 1024)" if "?P a" "a < ?lim" for a
    using that lim unat_add_u32 [of a 1024] by (simp add: word_less_nat_alt)
  show ?thesis
    by (rule keeps_for_step_inv [where P = ?P])
      (use nxt lim in \<open>auto intro!: safe_erase_unless_blank simp: in_app_def word_le_nat_alt word_less_nat_alt\<close>)
qed

lemma safe_install:
  assumes "unat sz \<le> 122880"
  shows "keeps (list_all ok) (install_image H off sz)"
proof -
  have "keeps (list_all ok) (install_loop H off sz buf 0)" for buf
    by (rule safe_install_loop [OF assms]) simp
  moreover have "keeps (list_all ok) (for_step APP_ADDRESS (APP_ADDRESS + sz) 1024 (\<lambda>a.
     bindc (flash_page_is_erased H a) (\<lambda>e. if \<not> e then flash_erase_page H a else skip)))"
    using safe_image_erase [OF assms] by simp
  ultimately show ?thesis unfolding install_image_def
    by (intro safe_block)
      (simp add: safe_flash_unlock safe_spi_write keeps_bindc keeps_give safe_clear_reboot_flags
        safe_full_system_reset)
qed

lemma safe_option_bytes:
  "keeps (list_all ok) (read_option_bytes H)" "keeps (list_all ok) (rewrite_option_bytes H opt)"
proof -
  show "keeps (list_all ok) (read_option_bytes H)"
    unfolding read_option_bytes_def by (intro keeps_bindc keeps_give safe_load_bytes)
  have "keeps (list_all ok) (forc 8 (\<lambda>i.
      flash_program_option_bytes H (FLASH_OPT_BYTES + 2 * of_nat i) (opt ! i)))"
  proof (rule keeps_forc)
    fix i :: nat assume "i < 8"
    then have "i \<in> {0, 1, 2, 3, 4, 5, 6, 7}" by auto
    then show "keeps (list_all ok) (flash_program_option_bytes H (FLASH_OPT_BYTES + 2 * of_nat i) (opt ! i))"
      by (intro safe_flash_program_option_bytes) (auto simp: reg_defs)
  qed
  then show "keeps (list_all ok) (rewrite_option_bytes H opt)"
    unfolding rewrite_option_bytes_def
    by (intro safe_block) (simp add: safe_flash safe_full_system_reset)
qed

lemma safe_protect:
  "keeps (list_all ok) (protect_bootloader H)" "keeps (list_all ok) (protect_readout H)"
proof -
  show "keeps (list_all ok) (protect_bootloader H)"
    unfolding protect_bootloader_def rebooted_into_updater_def
    by (intro keeps_bindc keeps_if keeps_give safe_load safe_option_bytes)
  have "keeps (list_all ok) (store32 H AFIO_MAPR v)" for v
    by (rule safe_reg) (simp_all add: reg_defs)
  then show "keeps (list_all ok) (protect_readout H)"
    unfolding protect_readout_def
    by (intro safe_block) (simp add: keeps_bindc keeps_if keeps_give safe_load safe_option_bytes)
qed

lemma safe_any_of: "list_all (keeps (list_all ok)) cs \<Longrightarrow> keeps (list_all ok) (any_of cs)"
  by (induction cs) (auto intro!: keeps_rules)

lemma safe_go_dfu: "keeps (list_all ok) (go_dfu C H n)"
proof -
  have "keeps (list_all ok) (rebooted_into_dfu H)" "keeps (list_all ok) (reset_due_to_pin H)"
    unfolding rebooted_into_dfu_def reset_due_to_pin_def
    by (intro keeps_bindc keeps_if keeps_give safe_load)+
  moreover have "keeps (list_all ok) (force_dfu_gpio C H)"
    unfolding force_dfu_gpio_def gpio_set_input_pp_def gpio_set_input_def
    by (intro keeps_if keeps_bindc keeps_give safe_block) (simp_all add: safe_gpio)
  ultimately show ?thesis unfolding go_dfu_def
    by (intro safe_any_of) (simp add: keeps_give safe_reset_due_to_watchdog)
qed

lemma safe_start_app: "keeps (list_all ok) (start_app C H)"
proof -
  have "keeps (list_all ok) (store32 H 0xE000ED08 v)" for v
    by (rule safe_reg) (simp_all add: reg_defs)
  moreover have "keeps (list_all ok) (case w of None \<Rightarrow> skip | Some secs \<Rightarrow> enable_iwdg H (r secs))"
    for w and r :: "nat \<Rightarrow> u16"
    by (cases w) (simp_all add: keeps_give safe_enable_iwdg)
  ultimately show ?thesis unfolding start_app_def
    by (intro safe_block) (simp add: safe_clear_reboot_flags keeps_bindc keeps_halt safe_load)
qed

lemma safe_boot_app: "keeps (list_all ok) (boot_app C H n)"
proof -
  have "keeps (list_all ok) (or32 H RCC_CSR RCC_CSR_RMVF)"
    by (rule safe_or32) (simp_all add: reg_defs)
  moreover have "keeps (list_all ok) (xor_image H p k x)" for p k x
    by (induction k arbitrary: p x) (auto intro!: keeps_rules safe_load)
  ultimately show ?thesis unfolding boot_app_def validate_checksum_def
    by (intro keeps_bindc keeps_if keeps_give safe_go_dfu safe_load safe_start_app)
qed

text \<open>The chip answers the header and the checked size twice.\<close>

lemma boot_from_sram_safe:
  assumes i: "sram_idle H S0 h" and ok: "list_all ok h"
  shows "case boot_from_sram H h of Done x h' \<Rightarrow> list_all ok h' | Stopped r h' \<Rightarrow> list_all ok h'"
proof (cases "spi_sram_hw_init H h")
  case (Stopped r h')
  with keeps_Stopped [OF safe_spi_init ok] show ?thesis by (simp add: boot_from_sram_def bindc_def)
next
  case (Done u h1)
  have ok1: "list_all ok h1" by (rule keeps_Done [OF safe_spi_init ok Done])
  from i have "\<not> sel (sram_run S0 h)" "got (sram_run S0 h) = []" by (simp_all add: sram_idle_def)
  from keeps_Done [OF spi_init_leaves [OF this] refl Done] have "sram_run S0 h1 = sram_run S0 h" by blast
  with i have i1: "sram_idle H S0 h1" by (simp add: sram_idle_def)
  let ?m = "sram_mem S0 h1"
  from sram_has_valid_image_spec [OF i1] obtain h2 where
    2: "sram_has_valid_image H h1 = Done (image_spec ?m) h2" "sram_idle H S0 h2" "sram_mem S0 h2 = ?m"
    by blast
  have ok2: "list_all ok h2" by (rule keeps_Done [OF safe_valid_image ok1 2(1)])
  from sr.header_read [OF 2(2)] 2(3) obtain h3 where
    3: "spi_sram_read H 0 (Some (replicate 12 0)) 12 h2 = Done (0, bytes_at ?m 0 12) h3" by auto
  have ok3: "list_all ok h3" by (rule keeps_Done [OF safe_spi_read ok2 3])
  let ?inst = "install_image H (offset (staged_header ?m)) (hdr_size (staged_header ?m))"
  have run: "boot_from_sram H h = (if image_spec ?m then ?inst h3 else Done () h2)"
    using 3 by (simp add: boot_from_sram_def bindc_def Done 2(1) SRAM_IMAGE_HEADER_OFFSET_def
        sizeof_header_def staged_header_def give_def)
  show ?thesis
  proof (cases "image_spec ?m")
    case True
    then have "unat (hdr_size (staged_header ?m)) \<le> 122880"
      by (simp add: image_spec_def bounds_spec_def)
    from safe_install [OF this] ok3 True show ?thesis
      unfolding run by (auto split: result.splits dest: keeps_Done keeps_Stopped)
  next
    case False
    with run ok2 show ?thesis by simp
  qed
qed

end

section \<open>The option bytes leave the RAM chip alone\<close>

lemma option_bytes_leave_sram:
  "keeps (\<lambda>h. sram_run S0 h = G) (read_option_bytes H)"
  "keeps (\<lambda>h. sram_run S0 h = G) (rewrite_option_bytes H opt)"
proof -
  have "keeps (\<lambda>h. sram_run S0 h = G) (load_bytes H a n)" for a n
    by (induction n arbitrary: a) (auto intro!: keeps_rules sv.leaves_load8)
  then show "keeps (\<lambda>h. sram_run S0 h = G) (read_option_bytes H)"
    unfolding read_option_bytes_def by (intro keeps_bindc keeps_give)
  have "keeps (\<lambda>h. sram_run S0 h = G) (forc 8 (\<lambda>i.
      flash_program_option_bytes H (FLASH_OPT_BYTES + 2 * of_nat i) (opt ! i)))"
  proof (rule keeps_forc)
    fix i :: nat assume "i < 8"
    then have "i \<in> {0, 1, 2, 3, 4, 5, 6, 7}" by auto
    then have "\<not> touches_sram W16 (FLASH_OPT_BYTES + 2 * of_nat i)" by (auto simp: reg_defs)
    then show "keeps (\<lambda>h. sram_run S0 h = G)
        (flash_program_option_bytes H (FLASH_OPT_BYTES + 2 * of_nat i) (opt ! i))"
      unfolding flash_program_option_bytes_def flash_wait_for_last_operation_def
      by (intro sv.leaves_list)
        (simp add: sv.leaves_spin sv.leaves_or32 sv.leaves_and32 sv.leaves_store16)
  qed
  moreover have "keeps (\<lambda>h. sram_run S0 h = G) (optbytes_unlock H)"
    unfolding optbytes_unlock_def
    by (intro keeps_bindc keeps_if keeps_give sv.leaves_load sv.leaves_list)
      (simp add: sv.leaves_store reg_defs SPI_SRAM_PORT_def)
  moreover have "keeps (\<lambda>h. sram_run S0 h = G) (full_system_reset H)"
    unfolding full_system_reset_def
    by (intro sv.leaves_list) (simp add: sv.leaves_store keeps_halt reg_defs SPI_SRAM_PORT_def)
  moreover have "keeps (\<lambda>h. sram_run S0 h = G) (flash_erase_option_bytes H)"
    unfolding flash_erase_option_bytes_def flash_wait_for_last_operation_def
    by (intro sv.leaves_list) (simp add: sv.leaves_spin sv.leaves_or32 sv.leaves_and32)
  ultimately show "keeps (\<lambda>h. sram_run S0 h = G) (rewrite_option_bytes H opt)"
    unfolding rewrite_option_bytes_def
    by (intro sv.leaves_list) (simp add: sv.leaves_unlock)
qed

lemma protect_leaves_sram:
  "keeps (\<lambda>h. sram_run S0 h = G) (protect_bootloader H)"
  "keeps (\<lambda>h. sram_run S0 h = G) (protect_readout H)"
proof -
  show "keeps (\<lambda>h. sram_run S0 h = G) (protect_bootloader H)"
    unfolding protect_bootloader_def rebooted_into_updater_def
    by (intro keeps_bindc keeps_if keeps_give sv.leaves_load option_bytes_leave_sram)
  have "keeps (\<lambda>h. sram_run S0 h = G) (store32 H AFIO_MAPR v)" for v
    by (rule sv.leaves_store) (simp add: reg_defs SPI_SRAM_PORT_def)
  then show "keeps (\<lambda>h. sram_run S0 h = G) (protect_readout H)"
    unfolding protect_readout_def
    by (intro sv.leaves_list)
      (simp add: keeps_bindc keeps_if keeps_give sv.leaves_load option_bytes_leave_sram)
qed

section \<open>The whole boot code\<close>

text \<open>A build that uses the RAM chip finds it as documented and idle.\<close>

definition sram_ready :: "config \<Rightarrow> hw \<Rightarrow> sram \<Rightarrow> history \<Rightarrow> bool" where
  "sram_ready C H S0 h \<longleftrightarrow> \<not> enable_spi_sram_image C \<or> sram_idle H S0 h"

lemma keeps_sram_ready:
  assumes "\<And>G. keeps (\<lambda>h. sram_run S0 h = G) c"
  shows "keeps (sram_ready C H S0) c"
proof (rule keepsI)
  fix h x h' assume h: "sram_ready C H S0 h" and e: "c h = Done x h'"
  have "sram_run S0 h' = sram_run S0 h" using keeps_Done [OF assms refl e] .
  with h show "sram_ready C H S0 h'" by (simp add: sram_ready_def sram_idle_def)
next
  fix h r h' assume h: "sram_ready C H S0 h" and e: "c h = Stopped r h'"
  have "sram_run S0 h' = sram_run S0 h" using keeps_Stopped [OF assms refl e] .
  with h show "sram_ready C H S0 h'" by (simp add: sram_ready_def sram_idle_def)
qed

context write_policy
begin

lemma safe_boot:
  "triple (\<lambda>h. list_all ok h \<and> sram_ready C H S0 h) (boot C H) (\<lambda>_. list_all ok) (\<lambda>_. list_all ok)"
proof -
  let ?I = "\<lambda>h. list_all ok h \<and> sram_ready C H S0 h"
  have conj: "triple ?I c (\<lambda>_. ?I) (\<lambda>_. list_all ok)"
    if "keeps (list_all ok) c" "\<And>G. keeps (\<lambda>h. sram_run S0 h = G) c" for c :: "(history, 'x) cmd"
    using triple_conj [OF that(1) [unfolded keeps_def] keeps_sram_ready [OF that(2), unfolded keeps_def]]
    by (rule triple_weaken) blast+
  have p: "triple ?I (block
       [if enable_writeprot C then protect_bootloader H else skip,
        if enable_protections C then protect_readout H else skip]) (\<lambda>_. ?I) (\<lambda>_. list_all ok)"
    by (rule conj; (rule safe_block | rule sv.leaves_list))
      (simp_all add: keeps_if keeps_give safe_protect protect_leaves_sram)
  have l: "triple ?I (if enable_checksum C then load32 H a else give 0) (\<lambda>_. ?I) (\<lambda>_. list_all ok)" for a
    by (rule conj) (simp_all add: keeps_if keeps_give safe_load sv.leaves_load)
  have s: "triple ?I (if enable_spi_sram_image C then boot_from_sram H else skip)
      (\<lambda>_. list_all ok) (\<lambda>_. list_all ok)"
  proof (rule tripleI)
    fix h x h' assume "?I h" and "(if enable_spi_sram_image C then boot_from_sram H else skip) h = Done x h'"
    then show "list_all ok h'"
      using boot_from_sram_safe [of H S0 h]
      by (cases "enable_spi_sram_image C") (auto simp: sram_ready_def give_def)
  next
    fix h r h' assume "?I h" and "(if enable_spi_sram_image C then boot_from_sram H else skip) h = Stopped r h'"
    then show "list_all ok h'"
      using boot_from_sram_safe [of H S0 h]
      by (cases "enable_spi_sram_image C") (auto simp: sram_ready_def give_def)
  qed
  show ?thesis unfolding boot_def
    by (rule triple_bindc [OF p], rule triple_bindc [OF l], rule triple_bindc [OF s])
      (use safe_boot_app in \<open>simp add: keeps_def\<close>)
qed

text \<open>DFU mode\<close>

lemma safe_clock: "keeps (list_all ok) (clock_setup_in_hse_8mhz_out_72mhz H)"
proof -
  have r: "keeps (list_all ok) (store32 H a v)" "keeps (list_all ok) (or32 H a v)"
    if "a \<in> {RCC_CR, RCC_CFGR, FLASH_ACR}" for a v
    using that by (auto intro!: safe_reg safe_or32 simp: reg_defs)
  show ?thesis unfolding clock_setup_in_hse_8mhz_out_72mhz_def
    by (rule safe_block) (simp add: r safe_spin_while safe_load keeps_bindc)
qed

lemma safe_systick_setup: "keeps (list_all ok) (systick_setup H t)"
proof -
  have "keeps (list_all ok) (store32 H a v)" if "a \<in> {SysTick_BASE, SysTick_BASE + 4, SysTick_BASE + 8}" for a v
    using that by (auto intro!: safe_reg simp: reg_defs)
  then show ?thesis unfolding systick_setup_def
    by (intro keeps_if keeps_bindc keeps_give safe_block) simp
qed

lemma safe_usb_init: "keeps (list_all ok) (usb_init H)"
proof -
  have "keeps (list_all ok) (or32 H USB_RCC_APB1ENR v)" for v
    by (rule safe_or32) (simp_all add: reg_defs)
  then show ?thesis unfolding usb_init_def by (intro safe_block) (simp add: safe_SET_REG)
qed

lemma safe_dfu_start: "keeps (list_all ok) (dfu_start H)"
proof -
  have "keeps (list_all ok) (unique_id_digits H a n)" for a n
    by (induction n arbitrary: a) (auto intro!: keeps_rules safe_load8)
  moreover have "keeps (list_all ok) (store32 H USB_CNTR_REG USB_CNTR_PWDN)"
    by (rule safe_reg) (simp_all add: reg_defs)
  ultimately show ?thesis
    unfolding dfu_start_def get_dev_unique_id_def gpio_set_output_def
    by (intro keeps_bindc keeps_give safe_systick_setup safe_block)
      (simp_all add: safe_clock safe_gpio safe_usb_init)
qed

end

lemma serial_length: "get_dev_unique_id H h = Done ds h' \<Longrightarrow> length ds = 24"
proof -
  have "unique_id_digits H a n h = Done ds h' \<Longrightarrow> length ds = 2 * n" for a n ds h h'
    by (induction n arbitrary: a h ds) (auto simp: bindc_eq_Done give_def)
  then show "get_dev_unique_id H h = Done ds h' \<Longrightarrow> length ds = 24"
    unfolding get_dev_unique_id_def by force
qed

lemma dfu_start_serial: "dfu_start H h = Done ds h' \<Longrightarrow> length ds = 24"
  unfolding dfu_start_def bindc_eq_Done by (auto simp: give_def dest: serial_length)

section \<open>The main loop\<close>

definition board_safe :: "(event \<Rightarrow> bool) \<Rightarrow> board \<Rightarrow> bool" where
  "board_safe ok b \<longleftrightarrow> usb_safe ok (usb_part b)"

lemma board_init_safe:
  assumes "length ds = 24" and "list_all ok h"
  shows "board_safe ok (main_init ds h)"
proof -
  have "0 \<in> set (overwrite 0 ds (replicate 25 (0 :: u8)))"
    using assms(1) by (simp add: overwrite_0)
  then show ?thesis
    using assms(2) by (simp add: board_safe_def main_init_def usb_safe_def usb_base_def usb_boot_def
        dfu_ok_init dfu_init_def dfu_ok_def DFU_TRANSFER_SIZE_def)
qed

lemma keeps_on_usb: "keeps (usb_safe ok) c \<Longrightarrow> keeps (board_safe ok) (on_usb c)"
  unfolding on_usb_def by (rule keeps_zoom) (simp_all add: board_safe_def)

lemma keeps_systick: "keeps (board_safe ok) systick_handler"
  unfolding systick_handler_def by (rule keeps_modc) (simp add: board_safe_def)

context write_policy
begin

lemma safe_main_loop:
  assumes "pma_hw H" and "top_page_faults H"
  shows "keeps (board_safe ok) (main_loop C H k)"
proof -
  have g: "keeps (board_safe ok) (on_usb (ubus (block (if b
      then [gpio_set H GPIOC GPIO_LED_1, gpio_clear H GPIOC GPIO_LED_2]
      else [gpio_clear H GPIOC GPIO_LED_1, gpio_set H GPIOC GPIO_LED_2]))))" for b
    by (intro keeps_on_usb keeps_ubus safe_block) (cases b; simp add: safe_gpio)
  have m: "keeps (board_safe ok) (modc (\<lambda>b. b\<lparr>led_state := f b\<rparr>))"
    "keeps (board_safe ok) (modc (\<lambda>b. b\<lparr>cnt := v\<rparr>))" for f v
    by (rule keeps_modc; simp add: board_safe_def)+
  have bl: "keeps (board_safe ok) (blink H)"
    unfolding blink_def by (intro keeps_bindc keeps_getc keeps_block) (auto simp: g m)
  have rep: "keeps (board_safe ok) (block (replicate k systick_handler))"
    by (rule keeps_block) (auto simp: keeps_systick)
  have inner: "keeps (board_safe ok) (block
          [block (replicate k systick_handler),
           bindc systick_get (\<lambda>t'. modc (\<lambda>b. b\<lparr>cnt := t' + 500\<rparr>)), blink H])"
    by (rule keeps_block) (auto simp: systick_get_def rep bl intro!: keeps_bindc keeps_getc m)
  have u: "keeps (board_safe ok) (on_usb (do_usb_poll C H))"
    by (rule keeps_on_usb [OF safe_poll [OF assms]])
  show ?thesis unfolding main_loop_def
    by (rule keeps_block)
      (auto simp: systick_get_def u bl m keeps_systick
        intro!: keeps_bindc keeps_getc keeps_if keeps_give keeps_block)
qed

end

lemma main_reach_safe:
  assumes "pma_hw H" and "top_page_faults H" and "sram_ready C H S0 []" and "main_reach C H b"
  shows "board_safe bootloader_safe b"
  using assms(4)
proof (induction rule: main_reach.induct)
  case (power_on serial h)
  from power_on obtain u h1 where
    1: "boot C H [] = Done u h1" "dfu_start H h1 = Done serial h" by (auto simp: bindc_eq_Done)
  have "list_all bootloader_safe h1"
    using tripleD_Done [OF bp.safe_boot _ 1(1)] assms(3) by simp
  from keeps_Done [OF bp.safe_dfu_start this 1(2)] dfu_start_serial [OF 1(2)]
  show ?case by (intro board_init_safe)
next
  case (turn b k x b')
  then show ?case using keeps_Done [OF bp.safe_main_loop [OF assms(1,2)]] by blast
next
  case (tick b x b')
  then show ?case using keeps_Done [OF keeps_systick] by blast
qed

end
