(* ===== verification/BoardSim.thy ===== *)
theory BoardSim
  imports BootSafe
begin

text \<open>
  A board that conforms to every hardware hypothesis of the development at once: the flash
  controller, the RAM chip, the word kept across resets and the clock flags answer as
  documented, other registers read zero, and the unmapped top of the address space faults.
  The concrete instances of the properties run on it.
\<close>

fun board_sim :: "fpec \<Rightarrow> sram \<Rightarrow> u32 \<Rightarrow> hw" where
  "board_sim F0 S0 w0 h (Load w a) =
     (if 0xFFFFFC00 \<le> a then None
      else Some (
        if w = W32 then
          (if a = SPI2_SR then 3
           else if a = FLASH_CR then cr_value (fpec_run F0 h)
           else if a = stack_word then stack_run w0 h
           else if a = RCC_CR then 0x02020000
           else if in_flash a then cell_word (cells (fpec_run F0 h)) a
           else 0)
        else if w = W16 then
          (if a = SPI2_DR then (case sram_reply (sram_run S0 h) of None \<Rightarrow> 0 | Some b \<Rightarrow> ucast b)
           else 0)
        else (if in_flash a then ucast (cell_byte (cells (fpec_run F0 h)) a) else 0)))"
| "board_sim F0 S0 w0 h (Store w a v) = Some 0"

lemma in_flash_below: "in_flash a \<Longrightarrow> \<not> 0xFFFFFC00 \<le> a"
  by (auto simp: in_flash_def word_le_nat_alt word_less_nat_alt)

lemma in_flash_apart:
  "in_flash a \<Longrightarrow> a \<noteq> SPI2_SR" "in_flash a \<Longrightarrow> a \<noteq> FLASH_CR" "in_flash a \<Longrightarrow> a \<noteq> stack_word"
  "in_flash a \<Longrightarrow> a \<noteq> RCC_CR"
  by (auto simp: in_flash_def reg_defs)

lemma sim_flash: "fpec_hw (board_sim F0 S0 w0) F0"
proof -
  have "settles (board_sim F0 S0 w0) FLASH_SR busy h" for h
    by (rule settles.now [where v = 0]) (simp_all add: busy_def reg_defs in_flash_def)
  moreover have "board_sim F0 S0 w0 h (Load W32 FLASH_CR) = Some (cr_value (fpec_run F0 h))" for h
    by (simp add: reg_defs)
  ultimately show ?thesis by (simp add: fpec_hw_def in_flash_below in_flash_apart)
qed

lemma sim_sram: "sram_hw (board_sim F0 S0 w0) S0"
proof -
  have sr: "board_sim F0 S0 w0 h (Load W32 SPI2_SR) = Some 3" for h by (simp add: reg_defs)
  have "settles (board_sim F0 S0 w0) SPI2_SR p h" if "\<not> p 3" for p h
    using sr that by (rule settles.now)
  moreover have "\<not> 0xFFFFFC00 \<le> SPI2_DR" by (simp add: reg_defs)
  ultimately show ?thesis
    unfolding sram_hw_def sr by (auto simp: reg_defs split: option.splits)
qed

lemma sim_boot: "boot_hw (board_sim F0 S0 w0) F0 S0 w0"
  unfolding boot_hw_def
  using sim_flash sim_sram
  by (simp add: reset_hw_def boot_regs_def reg_defs SPI_SRAM_PORT_def)

lemma sim_pma: "pma_hw (board_sim F0 S0 w0)"
  by (auto simp: pma_hw_def btable_entry_def reg_defs in_flash_def)

lemma sim_count: "stable_count (board_sim F0 S0 w0)"
  by (auto simp: stable_count_def Let_def btable_entry_def reg_defs in_flash_def)

lemma sim_top: "top_page_faults (board_sim F0 S0 w0)"
  by (simp add: top_page_faults_def)

section \<open>A board out of the factory\<close>

definition blank_fpec :: fpec where
  "blank_fpec = \<lparr>locked = True, key1 = False, cr = 0, ar = 0, cells = (\<lambda>_. 0xFFFF)\<rparr>"

definition factory_board :: hw where
  "factory_board = board_sim blank_fpec sram0 0"

lemma factory_hw:
  "fpec_hw factory_board blank_fpec" "sram_hw factory_board sram0" "pma_hw factory_board"
  "stable_count factory_board" "top_page_faults factory_board"
  by (simp_all add: factory_board_def sim_flash sim_sram sim_pma sim_count sim_top)

lemma sim_at_reset:
  assumes "locked F" "\<not> key1 F" "cr F = 0" and "\<not> sel S" "got S = []"
  shows "at_reset (board_sim F S w0) F S w0 []"
  using sim_boot sim_flash sim_sram assms
  by (simp add: at_reset_def fpec_rest_def sram_idle_def)

lemma factory_at_reset: "at_reset factory_board blank_fpec sram0 0 []"
  unfolding factory_board_def
  by (rule sim_at_reset) (simp_all add: blank_fpec_def sram0_def)

lemma factory_sram: "sram_idle factory_board sram0 []"
  using factory_hw(2) by (simp add: sram_idle_def) (simp add: sram0_def)

lemma factory_flash: "fpec_idle factory_board blank_fpec []"
  using factory_hw(1) by (simp add: fpec_idle_def) (simp add: blank_fpec_def)

section \<open>DFU mode starts on the board\<close>

text \<open>A board that answers every access below the unmapped top and has its clocks ready.\<close>

definition answering :: "hw \<Rightarrow> bool" where
  "answering H \<longleftrightarrow> (\<forall>h w a. \<not> 0xFFFFFC00 \<le> a \<longrightarrow> H h (Load w a) \<noteq> None) \<and>
     (\<forall>h w a v. H h (Store w a v) \<noteq> None) \<and> (\<forall>h. H h (Load W32 RCC_CR) = Some 0x02020000)"

lemma sim_answering: "answering (board_sim F0 S0 w0)"
  by (simp add: answering_def reg_defs)

lemma sim_load: "answering H \<Longrightarrow> \<not> 0xFFFFFC00 \<le> a \<Longrightarrow> finishes (load H w a)"
  by (fastforce simp: answering_def finishes_def load_def split: option.splits)

lemma sim_store: "answering H \<Longrightarrow> finishes (store H w a v)"
  by (fastforce simp: answering_def finishes_def store_def split: option.splits)

lemma sim_or32: "answering H \<Longrightarrow> \<not> 0xFFFFFC00 \<le> a \<Longrightarrow> finishes (or32 H a v)"
  unfolding or32_def by (intro finishes_rules sim_load sim_store)

lemma sim_ready: "answering H \<Longrightarrow> \<not> p 0x02020000 \<Longrightarrow> finishes (spin_while H RCC_CR p)"
proof -
  assume "answering H" "\<not> p 0x02020000"
  then have "settles H RCC_CR p h" for h
    by (intro settles.now [where v = "0x02020000"]) (simp_all add: answering_def)
  then show ?thesis unfolding finishes_def using spin_while_settles by blast
qed

lemma sim_digits: "answering H \<Longrightarrow> unat a + n \<le> 0x20000000 \<Longrightarrow> finishes (unique_id_digits H a n)"
proof (induction n arbitrary: a)
  case (Suc n)
  have "unat (a + 1) = unat a + 1"
    using Suc.prems unat_add_u32 [of a 1] by simp
  moreover have "\<not> 0xFFFFFC00 \<le> a" using Suc.prems by (simp add: word_le_nat_alt)
  ultimately show ?case unfolding unique_id_digits.simps load8_def
    using Suc by (intro finishes_rules sim_load) simp_all
qed (simp add: finishes_give)

lemma sim_dfu_start:
  assumes H: "answering H"
  shows "finishes (dfu_start H)"
proof -
  note ans = sim_load [OF H] sim_store [OF H] sim_or32 [OF H]
  have g: "finishes (gpio_set_output H p n)"
    "finishes (rcc_gpio_enable H p)"
    "finishes (gpio_set H p n)" "finishes (gpio_clear H p n)"
    if "p = GPIOA \<or> p = GPIOC" for p n
    using that unfolding gpio_set_output_def gpio_set_mode_def rcc_gpio_enable_def gpio_set_def gpio_clear_def
    by (auto intro!: finishes_rules ans simp: reg_defs GPIOA_def GPIOC_def)
  have "finishes (clock_setup_in_hse_8mhz_out_72mhz H)"
    unfolding clock_setup_in_hse_8mhz_out_72mhz_def
    by (rule finishes_list)
      (simp add: ans sim_ready [OF H, unfolded RCC_CR_def] finishes_bindc reg_defs)
  moreover have "finishes (usb_init H)"
    unfolding usb_init_def SET_REG_def
    by (rule finishes_list) (simp add: ans reg_defs)
  moreover have "finishes (systick_setup H t)" for t
    unfolding systick_setup_def
    by (intro finishes_rules finishes_list) (simp add: ans)
  moreover have "finishes (get_dev_unique_id H)"
    unfolding get_dev_unique_id_def by (rule sim_digits [OF H]) (simp add: reg_defs)
  ultimately show ?thesis unfolding dfu_start_def
    by (intro finishes_rules finishes_list) (simp_all add: g ans)
qed

lemma factory_blank:
  "\<not> image_spec (sram_mem sram0 [])" "\<not> app_valid (flash_content blank_fpec [])"
  by (simp add: image_spec_def staged_header_def header_of_bytes_def sram_mem_def sram0_def
      bytes_at_def le32_def SRAM_IMAGE_MAGIC_def)
    (simp add: app_valid_def app_word_def cell_word_def flash_content_def blank_fpec_def)

lemma factory_reaches: "\<exists>b. main_reach flash_config factory_board b"
proof -
  obtain h where 1: "boot flash_config factory_board [] = Done () h"
    using boot_decides [OF factory_at_reset] factory_blank by auto
  obtain serial h' where "dfu_start factory_board h = Done serial h'"
    using sim_dfu_start [OF sim_answering] unfolding factory_board_def finishes_def by blast
  with 1 have "bindc (boot flash_config factory_board) (\<lambda>_. dfu_start factory_board) [] = Done serial h'"
    by (simp add: bindc_def)
  then show ?thesis using main_reach.power_on by blast
qed

end
