(* ===== verification/DfuStates.thy ===== *)
theory DfuStates
  imports DfuSession Checksum
begin

text \<open>
  The DFU state machine and what each request may do: the transition table, the status
  reply, the replies of UPLOAD, the reset at the end of manifestation, and the runs of
  the class code from start-up as an inductive relation.
\<close>

section \<open>Requests only read\<close>

fun is_load :: "event \<Rightarrow> bool" where
  "is_load (Loaded w a v) = True"
| "is_load (Stored w a v) = False"

text \<open>Since the history \<open>h0\<close> there have been loads only.\<close>

definition loads_since :: "history \<Rightarrow> history \<Rightarrow> bool" where
  "loads_since h0 h \<longleftrightarrow> (\<exists>es. h = es @ h0 \<and> list_all is_load es)"

lemma loads_since_refl [simp]: "loads_since h h"
  by (auto simp: loads_since_def)

lemma loads_since_load: "loads_since h0 h \<Longrightarrow> loads_since h0 (Loaded w a v # h)"
  unfolding loads_since_def by (metis append_Cons is_load.simps(1) list.pred_inject(2))

lemma loads_only_bytes: "keeps (loads_since h0) (load_bytes H a n)"
  by (induction n arbitrary: a)
    (auto intro!: keeps_rules keeps_load loads_since_load simp: load8_def)

lemma request_loads_only:
  "keeps (\<lambda>s. loads_since h0 (io s)) (usbdfu_control_request C H req len)"
proof -
  let ?I = "\<lambda>s. loads_since h0 (io s)"
  have st: "keeps ?I (set_state q)" for q
    unfolding set_state_def by (rule keeps_modc) simp
  have pb: "keeps ?I (put_buffer bs)" for bs
    unfolding put_buffer_def by (rule keeps_modc) simp
  have sb: "keeps ?I (modc (dfu_store_block req len))"
    by (rule keeps_modc) (simp add: dfu_store_block_def Let_def)
  have ld: "keeps ?I (bus (load_bytes H a n))" for a n
    unfolding bus_def by (rule keeps_zoom [OF _ loads_only_bytes [of h0]]) simp_all
  have up: "keeps ?I (dfu_upload C H req)"
    unfolding dfu_upload_def by (intro keeps_if keeps_bindc keeps_getc keeps_give st pb ld)
  have gs: "keeps ?I usbdfu_getstatus"
  proof -
    have "keeps ?I (case q of
         STATE_DFU_DNLOAD_SYNC \<Rightarrow> bindc (set_state STATE_DFU_DNBUSY) (\<lambda>_. give (status_byte DFU_STATUS_OK, 100))
       | STATE_DFU_MANIFEST_SYNC \<Rightarrow> bindc (set_state STATE_DFU_MANIFEST) (\<lambda>_. give (status_byte DFU_STATUS_OK, 0))
       | STATE_DFU_ERROR \<Rightarrow> give (state_byte STATE_DFU_ERROR, 0)
       | _ \<Rightarrow> give (status_byte DFU_STATUS_OK, 0))" for q
      by (cases q) (auto intro!: keeps_rules st)
    then show ?thesis unfolding usbdfu_getstatus_def by (intro keeps_bindc keeps_getc)
  qed
  show ?thesis
  proof (cases "dfu_req_of (bRequest req)")
    case None
    then show ?thesis by (simp add: usbdfu_control_request_def keeps_give)
  next
    case (Some r)
    then show ?thesis unfolding usbdfu_control_request_def
      by (cases r) (auto intro!: keeps_bindc keeps_if keeps_give keeps_getc st pb sb up gs)
  qed
qed

section \<open>The transition table\<close>

text \<open>
  The state after a request: the block and length decide DNLOAD, the guard and the
  configuration decide UPLOAD.
\<close>

definition next_state :: "config \<Rightarrow> usb_setup_data \<Rightarrow> u16 \<Rightarrow> u32 \<Rightarrow> dfu_state \<Rightarrow> dfu_state" where
  "next_state C req len ptr q = (case dfu_req_of (bRequest req) of
       None \<Rightarrow> q
     | Some DFU_DNLOAD \<Rightarrow> if len = 0 then STATE_DFU_MANIFEST_SYNC else STATE_DFU_DNLOAD_SYNC
     | Some DFU_DETACH \<Rightarrow> STATE_DFU_MANIFEST_SYNC
     | Some DFU_ABORT \<Rightarrow> STATE_DFU_IDLE
     | Some DFU_CLRSTATUS \<Rightarrow> if q = STATE_DFU_ERROR then STATE_DFU_IDLE else q
     | Some DFU_GETSTATE \<Rightarrow> q
     | Some DFU_UPLOAD \<Rightarrow>
         if wValue req = 0 \<or>
            enable_dfu_upload C \<and> in_bounds (block_address ptr (wValue req)) 1024
         then STATE_DFU_UPLOAD_IDLE else STATE_DFU_ERROR
     | Some DFU_GETSTATUS \<Rightarrow>
         if q = STATE_DFU_DNLOAD_SYNC then STATE_DFU_DNBUSY
         else if q = STATE_DFU_MANIFEST_SYNC then STATE_DFU_MANIFEST else q)"

definition handled :: "usb_setup_data \<Rightarrow> usbd_request_return_codes" where
  "handled req = (if dfu_req_of (bRequest req) = None then USBD_REQ_NEXT_CALLBACK else USBD_REQ_HANDLED)"

text \<open>The completion is asked for exactly when the state may still change.\<close>

definition wants_complete :: "usb_setup_data \<Rightarrow> u16 \<Rightarrow> bool" where
  "wants_complete req len \<longleftrightarrow>
     dfu_req_of (bRequest req) \<in> {Some DFU_DETACH, Some DFU_GETSTATUS} \<or>
     dfu_req_of (bRequest req) = Some DFU_DNLOAD \<and> len = 0"

lemmas request_defs = usbdfu_control_request_def bindc_def getc_def modc_def give_def
  set_state_def put_buffer_def

lemma getstatus_Done:
  "usbdfu_getstatus s = Done (if usbdfu_state s = STATE_DFU_ERROR then 10 else 0,
      if usbdfu_state s = STATE_DFU_DNLOAD_SYNC then 100 else 0)
    (s\<lparr>usbdfu_state := if usbdfu_state s = STATE_DFU_DNLOAD_SYNC then STATE_DFU_DNBUSY
      else if usbdfu_state s = STATE_DFU_MANIFEST_SYNC then STATE_DFU_MANIFEST
      else usbdfu_state s\<rparr>)"
  by (cases s; cases "usbdfu_state s")
    (simp_all add: usbdfu_getstatus_def bindc_def getc_def set_state_def modc_def give_def
      status_byte_def state_byte_def)

lemma upload_state:
  "dfu_upload C H req s = Done n s' \<Longrightarrow>
   usbdfu_state s' = (if wValue req = 0 \<or>
      enable_dfu_upload C \<and> in_bounds (block_address (prog_addr s) (wValue req)) 1024
    then usbdfu_state s else STATE_DFU_ERROR)"
  by (auto simp: dfu_upload_def bindc_def put_buffer_def set_state_def modc_def getc_def give_def
      bus_def zoom_def DFU_TRANSFER_SIZE_u32 split: if_splits result.splits)

lemma request_transition:
  assumes "usbdfu_control_request C H req len s = Done (rc, len', cb) s'"
  shows "usbdfu_state s' = next_state C req len (prog_addr s) (usbdfu_state s) \<and>
    rc = handled req \<and> cb = wants_complete req len"
proof (cases "dfu_req_of (bRequest req)")
  case None
  with assms show ?thesis
    by (simp add: request_defs next_state_def handled_def wants_complete_def)
next
  case (Some r)
  show ?thesis
  proof (cases r)
    case DFU_DNLOAD
    with assms Some show ?thesis
      by (auto simp: request_defs next_state_def handled_def wants_complete_def split: if_splits)
  next
    case DFU_UPLOAD
    let ?s1 = "s\<lparr>usbdfu_state := STATE_DFU_UPLOAD_IDLE\<rparr>"
    from assms Some DFU_UPLOAD have u: "dfu_upload C H req ?s1 = Done len' s'"
      and o: "rc = USBD_REQ_HANDLED" "cb = False"
      by (auto simp: request_defs split: result.splits)
    from upload_state [OF u] o Some DFU_UPLOAD show ?thesis
      by (simp add: next_state_def handled_def wants_complete_def)
  next
    case DFU_GETSTATUS
    with assms Some show ?thesis
      by (auto simp: request_defs getstatus_Done next_state_def handled_def wants_complete_def)
  qed (use assms Some in \<open>auto simp: request_defs next_state_def handled_def wants_complete_def
        split: if_splits\<close>)
qed

section \<open>The status reply\<close>

lemma getstatus_reply_effect:
  assumes "dfu_req_of (bRequest req) = Some DFU_GETSTATUS" and "dfu_ok s"
  shows "\<exists>s'. usbdfu_control_request C H req len s = Done (USBD_REQ_HANDLED, 6, True) s' \<and>
    take 6 (usbd_control_buffer s') =
      [if usbdfu_state s = STATE_DFU_ERROR then 10 else 0,
       if usbdfu_state s = STATE_DFU_DNLOAD_SYNC then 100 else 0, 0, 0,
       state_byte (usbdfu_state s'), 0]"
proof -
  have l: "length (usbd_control_buffer s) = 1024"
    using assms(2) by (simp add: dfu_ok_def DFU_TRANSFER_SIZE_def)
  have b: "(ucast (100 AND 0xFF :: u32) :: u8) = 100" "(ucast (drop_bit 8 100 AND 0xFF :: u32) :: u8) = 0"
    "(ucast (drop_bit 16 100 AND 0xFF :: u32) :: u8) = 0"
    by simp_all
  show ?thesis
    using assms(1) by (auto simp: request_defs getstatus_Done getstatus_reply_def overwrite_0 l b)
qed

section \<open>Upload\<close>

lemma load_bytes_flash:
  assumes "fpec_hw H F0" and "\<forall>i < n. in_flash (a + of_nat i)"
  shows "effect (fpec_run F0) (load_bytes H a n) F (bytes_at (cell_byte (cells F)) a n) F"
  using assms(2)
proof (induction n arbitrary: a)
  case 0
  then show ?case by (simp add: effect_give bytes_at_def)
next
  case (Suc n)
  have sh: "a + of_nat (Suc i) = (a + 1) + of_nat i" for i by simp
  have "\<forall>i < n. in_flash ((a + 1) + of_nat i)"
    using Suc.prems unfolding sh [symmetric] by blast
  from Suc.IH [OF this]
  have IH: "effect (fpec_run F0) (load_bytes H (a + 1) n) F (bytes_at (cell_byte (cells F)) (a + 1) n) F" .
  have "in_flash a" using Suc.prems [rule_format, of 0] by simp
  then have l: "effect (fpec_run F0) (load8 H a) F (cell_byte (cells F) a) F"
    using assms(1) unfolding load8_def
    by (auto simp: effect_def bindc_def load_def give_def fpec_hw_def)
  have b: "bytes_at m a (Suc n) = m a # bytes_at m (a + 1) n" for m :: "u32 \<Rightarrow> u8"
    using bytes_at_add [of m a 1 n] by (simp add: bytes_at_def)
  show ?case unfolding load_bytes.simps b
    by (rule effect_bindc [OF l], rule effect_bindc [OF IH]) (rule effect_give)
qed

lemma upload_reads:
  assumes r: "dfu_req_of (bRequest req) = Some DFU_UPLOAD" and C: "enable_dfu_upload C"
    and ok: "dfu_ok s" and H: "fpec_hw H F0" and w: "wValue req \<noteq> 0"
    and p: "page_ok (block_address (prog_addr s) (wValue req)) 1024"
  shows "\<exists>s'. usbdfu_control_request C H req len s = Done (USBD_REQ_HANDLED, 1024, False) s' \<and>
    usbd_control_buffer s' = bytes_at (cell_byte (flash_content F0 (io s)))
      (block_address (prog_addr s) (wValue req)) 1024 \<and>
    usbdfu_state s' = STATE_DFU_UPLOAD_IDLE \<and> flash_content F0 (io s') = flash_content F0 (io s)"
proof -
  let ?p = "block_address (prog_addr s) (wValue req)"
  have "in_flash (?p + of_nat i)" if "i < 1024" for i
  proof -
    have "unat (?p + of_nat i) = unat ?p + i"
      using p that by (intro unat_add_u32) (simp add: page_ok_def)
    then show ?thesis using p that
      by (simp add: page_ok_def in_flash_def word_le_nat_alt word_less_nat_alt)
  qed
  then have "effect (fpec_run F0) (load_bytes H ?p 1024) (fpec_run F0 (io s))
      (bytes_at (cell_byte (cells (fpec_run F0 (io s)))) ?p 1024) (fpec_run F0 (io s))"
    by (intro load_bytes_flash [OF H]) simp
  from effectD [OF this refl] obtain h' where
    h': "load_bytes H ?p 1024 (io s) = Done (bytes_at (cell_byte (flash_content F0 (io s))) ?p 1024) h'"
      "fpec_run F0 h' = fpec_run F0 (io s)" by (auto simp: flash_content_def)
  have b: "in_bounds ?p 1024" using page_ok_in_bounds [of ?p 1024] p by simp
  have l: "length (usbd_control_buffer s) = 1024"
    using ok by (simp add: dfu_ok_def DFU_TRANSFER_SIZE_def)
  show ?thesis
    using r C w b h' l
    by (auto simp: request_defs dfu_upload_def bus_def zoom_def DFU_TRANSFER_SIZE_def overwrite_0
        flash_content_def)
qed

section \<open>How the class code may stop\<close>

lemma runs_bus: "runs always E c \<Longrightarrow> runs dfu_ok E (bus c)"
  unfolding bus_def by (rule runs_zoom) simp_all

lemma runs_set_state: "q \<in> {STATE_DFU_IDLE, STATE_DFU_DNLOAD_SYNC, STATE_DFU_DNBUSY,
       STATE_DFU_DNLOAD_IDLE, STATE_DFU_MANIFEST_SYNC, STATE_DFU_MANIFEST,
       STATE_DFU_UPLOAD_IDLE, STATE_DFU_ERROR} \<Longrightarrow> runs dfu_ok E (set_state q)"
  unfolding set_state_def by (rule runs_modc) (simp add: dfu_ok_state)

lemma runs_put_buffer: "runs dfu_ok E (put_buffer bs)"
  unfolding put_buffer_def by (rule runs_modc) simp

lemma runs_store_block: "len \<noteq> 0 \<Longrightarrow> runs dfu_ok E (modc (dfu_store_block req len))"
  by (rule runs_modc) (simp add: dfu_ok_store_block)

lemma runs_safewrite: "runs dfu_ok {BusFault, Hang} (safewrite C H)"
  unfolding safewrite_def
  by (intro runs_if runs_bindc runs_getc runs_give runs_bus runs_check_do_erase runs_modc) simp

lemma runs_erase_if_needed: "runs always {BusFault, Hang} (erase_if_needed H p)"
  unfolding erase_if_needed_def
  by (intro runs_bindc runs_if runs_give runs_flash_page_is_erased runs_flash_erase_page)

lemma runs_dnload_command: "runs dfu_ok {BusFault, Hang} (dnload_command C H)"
  unfolding dnload_command_def
  by (intro runs_if runs_bindc runs_getc runs_give runs_bus runs_safewrite runs_modc
      runs_erase_if_needed) simp

lemma runs_dnload_block: "runs dfu_ok {BusFault, Hang} (dnload_block C H)"
  unfolding dnload_block_def
proof (rule runs_bindc [OF runs_safewrite], rule runs_bind_getc)
  fix s assume "dfu_ok s"
  then have "unat (prog_len s) \<le> length (prog_buf s)" by (simp add: dfu_ok_def)
  then have "runs always {BusFault, Hang}
      (block [erase_if_needed H p, flash_program_buffer H p (prog_buf s) (unat (prog_len s))])" for p
    by (intro runs_list) (simp add: runs_erase_if_needed runs_flash_program_buffer)
  then show "runs dfu_ok {BusFault, Hang}
      (case (block_address (prog_addr s) (prog_blocknum s), prog_len s, prog_buf s) of
        (baseaddr, n, data) \<Rightarrow> if in_bounds baseaddr (ucast n)
         then bus (block [erase_if_needed H baseaddr, flash_program_buffer H baseaddr data (unat n)])
         else skip)"
    by (simp only: prod.case) (intro runs_if runs_bus runs_give)
qed

lemma runs_commit:
  "runs dfu_ok {BusFault, Hang} (block
     [bus (flash_unlock H),
      bindc (getc prog_blocknum) (\<lambda>b. if b = 0 then dnload_command C H else dnload_block C H),
      bus (flash_lock H), set_state STATE_DFU_DNLOAD_IDLE])"
proof (rule runs_list)
  have "runs dfu_ok {BusFault, Hang} (bindc (getc prog_blocknum) (\<lambda>b.
      if b = 0 then dnload_command C H else dnload_block C H))"
    by (intro runs_bindc runs_getc runs_if runs_dnload_command runs_dnload_block)
  then show "list_all (runs dfu_ok {BusFault, Hang})
     [bus (flash_unlock H),
      bindc (getc prog_blocknum) (\<lambda>b. if b = 0 then dnload_command C H else dnload_block C H),
      bus (flash_lock H), set_state STATE_DFU_DNLOAD_IDLE]"
    by (simp add: runs_bus runs_flash runs_set_state)
qed

lemma complete_cases:
  "usbdfu_getstatus_complete C H req s =
     (if usbdfu_state s = STATE_DFU_DNBUSY then block
         [bus (flash_unlock H),
          bindc (getc prog_blocknum) (\<lambda>b. if b = 0 then dnload_command C H else dnload_block C H),
          bus (flash_lock H), set_state STATE_DFU_DNLOAD_IDLE] s
      else if usbdfu_state s = STATE_DFU_MANIFEST
      then bus (block [clear_reboot_flags H, full_system_reset H]) s
      else Done () s)"
  by (cases "usbdfu_state s")
    (simp_all add: usbdfu_getstatus_complete_def bindc_def getc_def give_def)

lemma reset_stop:
  assumes "dfu_ok s" and "usbdfu_getstatus_complete C H req s = Stopped Reset s'"
  shows "usbdfu_state s = STATE_DFU_MANIFEST \<and>
    io s' = [Stored W32 0xE000ED0C 0x05FA0004, Stored W32 stack_word 0] @ io s"
proof -
  have "usbdfu_state s \<noteq> STATE_DFU_DNBUSY"
  proof
    assume "usbdfu_state s = STATE_DFU_DNBUSY"
    with assms(2) runs_Stopped [OF runs_commit [of H C] assms(1)] show False
      by (auto simp: complete_cases)
  qed
  with assms(2) show ?thesis
    by (auto simp: complete_cases bus_def zoom_def clear_reboot_flags_def full_system_reset_def
        bindc_def store_def halt_def split: if_splits option.splits result.splits)
qed

lemma manifest_stops:
  "bus (block [clear_reboot_flags H, full_system_reset H]) s \<noteq> Done u s'"
  by (auto simp: bus_def zoom_def clear_reboot_flags_def full_system_reset_def
      bindc_def store_def halt_def split: option.splits)

lemma complete_state:
  assumes "usbdfu_getstatus_complete C H req s = Done () s'"
  shows "usbdfu_state s' =
    (if usbdfu_state s = STATE_DFU_DNBUSY then STATE_DFU_DNLOAD_IDLE else usbdfu_state s)"
proof (cases "usbdfu_state s = STATE_DFU_DNBUSY")
  case True
  have last: "block [a, b, c, set_state q] s = Done () s' \<Longrightarrow> usbdfu_state s' = q" for a b c q
    by (auto simp: bindc_def give_def set_state_def modc_def split: result.splits)
  from assms have "block
         [bus (flash_unlock H),
          bindc (getc prog_blocknum) (\<lambda>b. if b = 0 then dnload_command C H else dnload_block C H),
          bus (flash_lock H), set_state STATE_DFU_DNLOAD_IDLE] s = Done () s'"
    by (simp only: complete_cases True refl if_True)
  from last [OF this] True show ?thesis by simp
next
  case False
  with assms manifest_stops show ?thesis by (auto simp: complete_cases split: if_splits)
qed

lemma runs_complete: "runs dfu_ok {BusFault, Hang, Reset} (usbdfu_getstatus_complete C H req)"
proof -
  have m: "runs dfu_ok {BusFault, Hang, Reset} (bus (block [clear_reboot_flags H, full_system_reset H]))"
    unfolding clear_reboot_flags_def full_system_reset_def
    by (intro runs_bus runs_list) (simp add: runs_rules runs_bindc)
  have e: "usbdfu_getstatus_complete C H req = (\<lambda>s.
      if usbdfu_state s = STATE_DFU_DNBUSY then block
         [bus (flash_unlock H),
          bindc (getc prog_blocknum) (\<lambda>b. if b = 0 then dnload_command C H else dnload_block C H),
          bus (flash_lock H), set_state STATE_DFU_DNLOAD_IDLE] s
      else (\<lambda>s. if usbdfu_state s = STATE_DFU_MANIFEST
        then bus (block [clear_reboot_flags H, full_system_reset H]) s else give () s) s)"
    by (rule ext) (simp only: complete_cases give_def)
  show ?thesis unfolding e
    by (rule runs_cond [OF runs_mono [OF runs_commit] runs_cond [OF m runs_give]]) simp
qed

lemma runs_request: "runs dfu_ok {BusFault} (usbdfu_control_request C H req len)"
proof -
  have ld: "runs always {BusFault} (load_bytes H a n)" for a n
    by (induction n arbitrary: a) (auto intro!: runs_rules)
  have up: "runs dfu_ok {BusFault} (dfu_upload C H req)"
    unfolding dfu_upload_def
    by (intro runs_if runs_bindc runs_getc runs_give runs_set_state runs_put_buffer runs_bus ld) simp_all
  have gs: "runs dfu_ok {BusFault} usbdfu_getstatus"
    unfolding runs_def using keeps_getstatus [of always]
    by (intro tripleI) (auto simp: getstatus_Done dfu_ok_def)
  show ?thesis
  proof (cases "dfu_req_of (bRequest req)")
    case None
    then show ?thesis by (simp add: usbdfu_control_request_def runs_give)
  next
    case (Some r)
    then show ?thesis unfolding usbdfu_control_request_def
      by (cases r) (auto intro!: runs_bindc runs_if runs_give runs_getc runs_set_state runs_put_buffer
          runs_store_block up gs)
  qed
qed

section \<open>Runs of the class code\<close>

text \<open>
  From start-up the code sees data stages (the control buffer is filled by \<open>usb.c\<close>),
  requests and completions, in any order.
\<close>

inductive dfu_reach :: "config \<Rightarrow> hw \<Rightarrow> dfu \<Rightarrow> bool" for C :: config and H :: hw where
  start: "dfu_reach C H (dfu_init [])"
| data: "dfu_reach C H s \<Longrightarrow> length bs = length (usbd_control_buffer s) \<Longrightarrow>
    dfu_reach C H (s\<lparr>usbd_control_buffer := bs\<rparr>)"
| request: "dfu_reach C H s \<Longrightarrow>
    usbdfu_control_request C H req len s = Done x s' \<Longrightarrow> dfu_reach C H s'"
| complete: "dfu_reach C H s \<Longrightarrow>
    usbdfu_getstatus_complete C H req s = Done x s' \<Longrightarrow> dfu_reach C H s'"

lemma reach_safe:
  assumes "top_page_faults H" and "dfu_reach C H s"
  shows "dfu_safe bootloader_safe s"
  using assms(2)
proof (induction rule: dfu_reach.induct)
  case start
  then show ?case by (simp add: dfu_safe_def dfu_ok_init) (simp add: dfu_init_def)
next
  case (data s bs)
  then show ?case by (simp add: dfu_safe_def)
next
  case (request s req len x s')
  then show ?case using keeps_Done [OF bp.safe_control_request] by blast
next
  case (complete s req x s')
  then show ?case using keeps_Done [OF bp.safe_complete [OF assms(1)]] by blast
qed

end
