(* ===== verification/PropsDfu.thy ===== *)
theory PropsDfu
  imports BoardSim DfuStates
begin

text \<open>
  The properties of the DFU class: whole downloads, the refinement of the block commit, the
  state machine, the replies, the guard, and the runs from start-up, each with a concrete
  instance on the simulated board.
\<close>

section \<open>Writing the flash\<close>

text \<open>
  C7: A DFU download of an image of even length to a page boundary in the application area,
  block by block, always returns and leaves the flash holding the image, the rest of its
  last page blank, and every other cell unchanged.
\<close>

theorem download_leaves_image:
  assumes "dfu_ready C H F0 s" and "page_base a" and "0x08002000 \<le> unat a"
    and "unat a + length img \<le> 0x08020000" and "even (length img)"
  shows "\<exists>s'. dfu_download C H a img s = Done () s' \<and> dfu_ready C H F0 s' \<and>
    flash_content F0 (io s') = image_cells a img (flash_content F0 (io s))"
  using assms by (rule download_writes)

lemma factory_dfu: "dfu_ready flash_config factory_board blank_fpec (dfu_init [])"
  using factory_flash
  by (simp add: dfu_ready_def dfu_ok_init flash_config_def) (simp add: dfu_init_def)

lemma download_leaves_image_witness:
  "\<exists>s'. dfu_download flash_config factory_board 0x08002000 (replicate 3000 0x42) (dfu_init []) =
      Done () s' \<and>
    flash_content blank_fpec (io s') = image_cells 0x08002000 (replicate 3000 0x42)
      (flash_content blank_fpec (io (dfu_init [])))"
  using download_leaves_image [OF factory_dfu, of "0x08002000" "replicate 3000 0x42"]
  by (auto simp: page_base_def in_flash_def)

text \<open>
  C8: The completion of a busy block refines the specification on address pointer and flash
  contents: an erase command erases its page, a set-address command moves the pointer, a
  data block rewrites its page, a target outside the application area changes nothing. It
  returns, the controller is locked again and the state is dfuDNLOAD-IDLE.
\<close>

theorem complete_refines_commit:
  assumes "dfu_ok s" and "usbdfu_state s = STATE_DFU_DNBUSY"
    and "fpec_idle H F0 (io s)" and "\<not> enable_safewrite C \<or> erased s"
    and "aligned_target (prog_blocknum s) (prog_buf s) (prog_len s) (prog_addr s)"
    and "commit (prog_blocknum s) (prog_buf s) (unat (prog_len s))
      (prog_addr s, flash_content F0 (io s)) = (ptr, f)"
  shows "\<exists>h'. usbdfu_getstatus_complete C H req s =
      Done () (s\<lparr>io := h', prog_addr := ptr, usbdfu_state := STATE_DFU_DNLOAD_IDLE\<rparr>) \<and>
    fpec_idle H F0 h' \<and> flash_content F0 h' = f"
  using assms by (rule complete_refines)

text \<open>An erase command for the first page of the application\<close>

definition erase_busy :: dfu where
  "erase_busy = (dfu_init [])\<lparr>usbdfu_state := STATE_DFU_DNBUSY,
     prog_buf := overwrite 0 (CMD_ERASE # bytes32 0x08002000) (replicate 1024 0), prog_len := 5\<rparr>"

lemma erase_busy_buf:
  "prog_buf erase_busy = CMD_ERASE # bytes32 0x08002000 @ replicate 1019 0"
  by (simp add: erase_busy_def overwrite_0)

lemma erase_busy_word: "cmd_word (prog_buf erase_busy) = 0x08002000"
  unfolding erase_busy_buf cmd_word_def bytes32_def by (simp add: le32_def)

lemma complete_refines_commit_witness:
  "\<exists>h'. usbdfu_getstatus_complete flash_config factory_board getstatus_request erase_busy =
      Done () (erase_busy\<lparr>io := h', usbdfu_state := STATE_DFU_DNLOAD_IDLE\<rparr>) \<and>
    flash_content blank_fpec h' = erase_cells 0x08002000 (flash_content blank_fpec [])"
proof -
  have 1: "dfu_ok erase_busy"
    by (simp add: dfu_ok_def erase_busy_def dfu_init_def DFU_TRANSFER_SIZE_def)
  have 2: "usbdfu_state erase_busy = STATE_DFU_DNBUSY" "io erase_busy = []" "prog_addr erase_busy = 0"
    "prog_blocknum erase_busy = 0" "prog_len erase_busy = 5"
    by (simp_all add: erase_busy_def dfu_init_def)
  have 3: "fpec_idle factory_board blank_fpec (io erase_busy)" by (simp add: 2 factory_flash)
  have 4: "\<not> enable_safewrite flash_config \<or> erased erase_busy" by (simp add: flash_config_def)
  have h: "prog_buf erase_busy ! 0 = CMD_ERASE" by (simp add: erase_busy_buf)
  have 5: "aligned_target (prog_blocknum erase_busy) (prog_buf erase_busy) (prog_len erase_busy)
      (prog_addr erase_busy)"
    by (simp add: 2 aligned_target_def erase_busy_word page_base_def in_flash_def)
  have 6: "commit (prog_blocknum erase_busy) (prog_buf erase_busy) (unat (prog_len erase_busy))
      (prog_addr erase_busy, flash_content blank_fpec (io erase_busy)) =
      (0, erase_cells 0x08002000 (flash_content blank_fpec []))"
    by (simp add: 2 commit_def h erase_busy_word page_ok_def)
  have "erase_busy\<lparr>io := g, prog_addr := 0, usbdfu_state := q\<rparr> = erase_busy\<lparr>io := g, usbdfu_state := q\<rparr>"
    for g q by (simp add: erase_busy_def dfu_init_def)
  with complete_refines_commit [OF 1 2(1) 3 4 5 6, of getstatus_request] show ?thesis by auto
qed


lemma reach_exchange:
  assumes "dfu_reach C H s" and "dfu_exchange C H bn data s = Done () s'"
  shows "dfu_reach C H s'"
proof -
  from assms(2) obtain r1 r2 s2 s3 where
    1: "usbdfu_control_request C H (dnload_request bn (of_nat (length data))) (of_nat (length data))
      (s\<lparr>usbd_control_buffer := overwrite 0 data (usbd_control_buffer s)\<rparr>) = Done r1 s2" and
    2: "usbdfu_control_request C H getstatus_request 6 s2 = Done r2 s3" and
    3: "usbdfu_getstatus_complete C H getstatus_request s3 = Done () s'"
    by (auto simp: dfu_exchange_def bindc_eq_Done put_buffer_def modc_def give_def)
  have "dfu_reach C H (s\<lparr>usbd_control_buffer := overwrite 0 data (usbd_control_buffer s)\<rparr>)"
    using assms(1) by (rule dfu_reach.data) simp
  then show ?thesis
    using dfu_reach.request [OF _ 1] dfu_reach.request [OF _ 2] dfu_reach.complete [OF _ 3] by blast
qed

lemma reach_blocks:
  "dfu_reach C H s \<Longrightarrow> dfu_blocks C H bn ds s = Done () s' \<Longrightarrow> dfu_reach C H s'"
  by (induction ds arbitrary: bn s) (auto simp: bindc_eq_Done give_def dest: reach_exchange)

lemma reach_download:
  "dfu_reach C H s \<Longrightarrow> dfu_download C H a img s = Done () s' \<Longrightarrow> dfu_reach C H s'"
  by (auto simp: dfu_download_def bindc_eq_Done give_def dest: reach_exchange reach_blocks)


section \<open>The guard\<close>

text \<open>
  C30: The bounds check of the write and erase guards is exact up to one case: for blocks of
  at most the transfer size it holds exactly if the block lies in the application area, or
  if the sum of address and length wraps past the end of the address space.
\<close>

theorem guard_exact:
  assumes "unat n \<le> DFU_TRANSFER_SIZE"
  shows "in_bounds b n \<longleftrightarrow>
    0x08002000 \<le> unat b \<and> unat b + unat n \<le> 0x08020000 \<or> 2 ^ 32 \<le> unat b + unat n"
  using assms by (intro in_bounds_exact) (simp add: DFU_TRANSFER_SIZE_def)

lemma guard_exact_witness: "in_bounds 0xFFFFFC00 1024 \<and> \<not> in_bounds 0x0801FC01 1024"
  using guard_exact [of 1024 "0xFFFFFC00"] guard_exact [of 1024 "0x0801FC01"]
  by (simp add: DFU_TRANSFER_SIZE_def)

section \<open>The state machine\<close>

text \<open>
  C9: A class request moves the DFU state as the transition table says, is handled exactly
  for the seven DFU request codes, and asks for the completion callback exactly for DETACH,
  GETSTATUS and a DNLOAD of length zero.
\<close>

theorem request_follows_table:
  assumes "usbdfu_control_request C H req len s = Done (rc, len', cb) s'"
  shows "usbdfu_state s' = next_state C req len (prog_addr s) (usbdfu_state s) \<and>
    rc = handled req \<and> cb = wants_complete req len"
  using assms by (rule request_transition)

lemma request_follows_table_witness:
  "\<exists>s'. usbdfu_control_request flash_config factory_board getstatus_request 6
      ((dfu_init [])\<lparr>usbdfu_state := STATE_DFU_DNLOAD_SYNC\<rparr>) = Done (USBD_REQ_HANDLED, 6, True) s' \<and>
    usbdfu_state s' = STATE_DFU_DNBUSY"
proof -
  obtain s' where e: "usbdfu_control_request flash_config factory_board getstatus_request 6
      ((dfu_init [])\<lparr>usbdfu_state := STATE_DFU_DNLOAD_SYNC\<rparr>) = Done (USBD_REQ_HANDLED, 6, True) s'"
    by (simp add: request_defs getstatus_request_def dfu_req_of_def getstatus_Done)
  from request_follows_table [OF e] e show ?thesis
    by (simp add: next_state_def getstatus_request_def dfu_req_of_def)
qed

text \<open>
  No class request writes to the bus: whatever the request and the state, the accesses
  it makes are loads, so flash and reset are left to the status completion.
\<close>

theorem requests_only_load:
  assumes "usbdfu_control_request C H req len s = Done x s'"
  shows "\<exists>es. io s' = es @ io s \<and> list_all is_load es"
  using keeps_Done [OF request_loads_only [of "io s"] _ assms] by (simp add: loads_since_def)

lemma requests_only_load_witness:
  "\<exists>x s' es. usbdfu_control_request flash_config factory_board (dnload_request 2 16) 16 (dfu_init []) =
    Done x s' \<and> io s' = es @ io (dfu_init []) \<and> list_all is_load es"
proof -
  obtain x s' where e: "usbdfu_control_request flash_config factory_board (dnload_request 2 16) 16
      (dfu_init []) = Done x s'"
    by (simp add: request_defs dnload_request_def dfu_req_of_def)
  from requests_only_load [OF e] e show ?thesis by blast
qed

text \<open>
  C17: The class code resets the device only from the manifest state, and then exactly by
  clearing the reboot word and requesting the system reset.
\<close>

theorem reset_only_from_manifest:
  assumes "dfu_ok s" and "usbdfu_getstatus_complete C H req s = Stopped Reset s'"
  shows "usbdfu_state s = STATE_DFU_MANIFEST \<and>
    io s' = [Stored W32 0xE000ED0C 0x05FA0004, Stored W32 stack_word 0] @ io s"
  using assms by (rule reset_stop)

lemma factory_manifest:
  "\<exists>s'. usbdfu_getstatus_complete flash_config factory_board getstatus_request
    ((dfu_init [])\<lparr>usbdfu_state := STATE_DFU_MANIFEST\<rparr>) = Stopped Reset s'"
  by (simp add: complete_cases bus_def zoom_def clear_reboot_flags_def full_system_reset_def
      bindc_def store_def halt_def factory_board_def)

lemma reset_only_from_manifest_witness:
  "\<exists>s'. usbdfu_getstatus_complete flash_config factory_board getstatus_request
      ((dfu_init [])\<lparr>usbdfu_state := STATE_DFU_MANIFEST\<rparr>) = Stopped Reset s' \<and>
    io s' = [Stored W32 0xE000ED0C 0x05FA0004, Stored W32 stack_word 0] @ io (dfu_init [])"
proof -
  from factory_manifest obtain s' where e: "usbdfu_getstatus_complete flash_config factory_board
      getstatus_request ((dfu_init [])\<lparr>usbdfu_state := STATE_DFU_MANIFEST\<rparr>) = Stopped Reset s'" by blast
  have "dfu_ok ((dfu_init [])\<lparr>usbdfu_state := STATE_DFU_MANIFEST\<rparr>)"
    by (simp add: dfu_ok_def dfu_init_def DFU_TRANSFER_SIZE_def)
  from reset_only_from_manifest [OF this e] e show ?thesis by simp
qed



section \<open>Replies\<close>

text \<open>
  C31: GETSTATUS returns and leaves six bytes in the control buffer: the status byte (10 in
  the error state, otherwise 0), a poll timeout of 100 ms exactly when a block is pending,
  the new state, and a zero string index.
\<close>

theorem status_reply:
  assumes "dfu_req_of (bRequest req) = Some DFU_GETSTATUS" and "dfu_ok s"
  shows "\<exists>s'. usbdfu_control_request C H req len s = Done (USBD_REQ_HANDLED, 6, True) s' \<and>
    take 6 (usbd_control_buffer s') =
      [if usbdfu_state s = STATE_DFU_ERROR then 10 else 0,
       if usbdfu_state s = STATE_DFU_DNLOAD_SYNC then 100 else 0, 0, 0,
       state_byte (usbdfu_state s'), 0] \<and>
    usbdfu_state s' = next_state C req len (prog_addr s) (usbdfu_state s)"
proof -
  from getstatus_reply_effect [OF assms, of C H len] obtain s' where
    1: "usbdfu_control_request C H req len s = Done (USBD_REQ_HANDLED, 6, True) s'"
      "take 6 (usbd_control_buffer s') =
      [if usbdfu_state s = STATE_DFU_ERROR then 10 else 0,
       if usbdfu_state s = STATE_DFU_DNLOAD_SYNC then 100 else 0, 0, 0,
       state_byte (usbdfu_state s'), 0]" by blast
  from request_transition [OF 1(1)] 1 show ?thesis by blast
qed

lemma status_reply_witness:
  "\<exists>s'. usbdfu_control_request flash_config factory_board getstatus_request 6
      ((dfu_init [])\<lparr>usbdfu_state := STATE_DFU_ERROR\<rparr>) = Done (USBD_REQ_HANDLED, 6, True) s' \<and>
    take 6 (usbd_control_buffer s') = [10, 0, 0, 0, 10, 0]"
proof -
  have "dfu_ok ((dfu_init [])\<lparr>usbdfu_state := STATE_DFU_ERROR\<rparr>)"
    by (simp add: dfu_ok_def dfu_init_def DFU_TRANSFER_SIZE_def)
  moreover have "dfu_req_of (bRequest getstatus_request) = Some DFU_GETSTATUS"
    by (simp add: getstatus_request_def dfu_req_of_def)
  ultimately obtain s' where
    "usbdfu_control_request flash_config factory_board getstatus_request 6
      ((dfu_init [])\<lparr>usbdfu_state := STATE_DFU_ERROR\<rparr>) = Done (USBD_REQ_HANDLED, 6, True) s'"
    "take 6 (usbd_control_buffer s') = [10, 0, 0, 0, state_byte (usbdfu_state s'), 0]"
    "usbdfu_state s' = STATE_DFU_ERROR"
    using status_reply [of getstatus_request "(dfu_init [])\<lparr>usbdfu_state := STATE_DFU_ERROR\<rparr>"
        flash_config factory_board 6]
    by (auto simp: next_state_def)
  then show ?thesis by (intro exI [of _ s']) (simp add: state_byte_def)
qed

text \<open>
  UPLOAD of a block inside the application area returns the 1024 bytes the flash holds
  there, announces 1024 bytes, and changes neither the flash nor, beyond dfuUPLOAD-IDLE, the
  state.
\<close>

theorem upload_returns_flash:
  assumes "dfu_req_of (bRequest req) = Some DFU_UPLOAD" and "enable_dfu_upload C"
    and "dfu_ok s" and "fpec_hw H F0" and "wValue req \<noteq> 0"
    and "page_ok (block_address (prog_addr s) (wValue req)) 1024"
  shows "\<exists>s'. usbdfu_control_request C H req len s = Done (USBD_REQ_HANDLED, 1024, False) s' \<and>
    usbd_control_buffer s' = bytes_at (cell_byte (flash_content F0 (io s)))
      (block_address (prog_addr s) (wValue req)) 1024 \<and>
    usbdfu_state s' = STATE_DFU_UPLOAD_IDLE \<and> flash_content F0 (io s') = flash_content F0 (io s)"
  using assms by (rule upload_reads)

definition upload_request :: "u16 \<Rightarrow> usb_setup_data" where
  "upload_request bn = \<lparr>bmRequestType = 0xA1, bRequest = 2, wValue = bn, wIndex = 0, wLength = 1024\<rparr>"

lemma upload_returns_flash_witness:
  "\<exists>s'. usbdfu_control_request flash_config factory_board (upload_request 3) 1024
      ((dfu_init [])\<lparr>prog_addr := 0x08002000\<rparr>) = Done (USBD_REQ_HANDLED, 1024, False) s' \<and>
    usbd_control_buffer s' = bytes_at (cell_byte (flash_content blank_fpec [])) 0x08002400 1024"
proof -
  let ?s = "(dfu_init [])\<lparr>prog_addr := 0x08002000\<rparr>"
  have a: "block_address (prog_addr ?s) (wValue (upload_request 3)) = 0x08002400"
    by (simp add: block_address_def upload_request_def DFU_TRANSFER_SIZE_def)
  have 1: "dfu_req_of (bRequest (upload_request 3)) = Some DFU_UPLOAD" "wValue (upload_request 3) \<noteq> 0"
    by (simp_all add: upload_request_def dfu_req_of_def)
  have 2: "dfu_ok ?s" "enable_dfu_upload flash_config" by (simp_all add: dfu_ok_init flash_config_def)
  have 3: "page_ok (block_address (prog_addr ?s) (wValue (upload_request 3))) 1024"
    unfolding a by (simp add: page_ok_def)
  have "io ?s = []" by (simp add: dfu_init_def)
  with upload_returns_flash [OF 1(1) 2(2,1) factory_hw(1) 1(2) 3, of 1024, unfolded a] show ?thesis
    by auto
qed

lemma unat_block_number: "n < 65536 \<Longrightarrow> unat (of_nat n :: u16) = n"
  by (simp add: unat_of_nat take_bit_eq_mod)

lemma upload_block_address:
  assumes "k + 2 < 65536"
  shows "block_address a (of_nat (k + 2)) = a + of_nat (1024 * k)"
proof -
  have "unat (of_nat (k + 2) :: u16) = k + 2" using assms by (rule unat_block_number)
  then have "unat (ucast (of_nat (k + 2) :: u16) :: u32) = k + 2"
    using assms by (simp add: unsigned_ucast_eq take_bit_eq_mod)
  then have "(ucast (of_nat (k + 2) :: u16) :: u32) = of_nat (k + 2)"
    by (metis of_nat_unat ucast_id)
  then show ?thesis by (simp add: block_address_def DFU_TRANSFER_SIZE_def)
qed

lemma image_bytes:
  assumes p: "page_base a" and k: "1024 * k + 1024 \<le> length img" and e: "even (length img)"
    and t: "unat a + length img \<le> 0x08020000"
  shows "bytes_at (cell_byte (image_cells a img f)) (a + of_nat (1024 * k)) 1024 =
    take 1024 (drop (1024 * k) img)"
proof (rule nth_equalityI)
  show "length (bytes_at (cell_byte (image_cells a img f)) (a + of_nat (1024 * k)) 1024) =
      length (take 1024 (drop (1024 * k) img))" using k by simp
  fix i assume "i < length (bytes_at (cell_byte (image_cells a img f)) (a + of_nat (1024 * k)) 1024)"
  then have i: "i < 1024" by simp
  have "a + of_nat (1024 * k) + of_nat i = a + of_nat (1024 * k + i)" by simp
  moreover have "cell_byte (image_cells a img f) (a + of_nat (1024 * k + i)) = img ! (1024 * k + i)"
    by (rule byte_of_image [OF p _ e t]) (use i k in simp)
  ultimately show "bytes_at (cell_byte (image_cells a img f)) (a + of_nat (1024 * k)) 1024 ! i =
      take 1024 (drop (1024 * k) img) ! i"
    using i k by (simp only: bytes_at_def nth_map length_upt nth_upt diff_zero add_0 nth_take
        nth_drop)
qed

text \<open>
  C6: What was downloaded is what is uploaded: after a download of an image of even length to
  a page boundary in the application area, an UPLOAD of the block with number \<open>k + 2\<close>
  returns the bytes of the \<open>k\<close>-th kilobyte of the image, for every whole kilobyte of it.
\<close>

theorem download_then_upload:
  assumes "dfu_ready C H F0 s" and "page_base a" and "0x08002000 \<le> unat a"
    and "unat a + length img \<le> 0x08020000" and "even (length img)"
    and "enable_dfu_upload C" and "1024 * k + 1024 \<le> length img"
  shows "\<exists>s1 s2. dfu_download C H a img s = Done () s1 \<and>
    usbdfu_control_request C H (upload_request (of_nat (k + 2))) len s1 =
      Done (USBD_REQ_HANDLED, 1024, False) s2 \<and>
    usbd_control_buffer s2 = take 1024 (drop (1024 * k) img)"
proof -
  from download_leaves [OF assms(1-5)] obtain s1 where
    1: "dfu_download C H a img s = Done () s1" "dfu_ready C H F0 s1" "prog_addr s1 = a"
      "flash_content F0 (io s1) = image_cells a img (flash_content F0 (io s))" by blast
  have k: "k + 2 < 65536" using assms(3,4,7) by simp
  let ?r = "upload_request (of_nat (k + 2))"
  have b: "block_address (prog_addr s1) (wValue ?r) = a + of_nat (1024 * k)"
    using upload_block_address [OF k] 1(3) by (simp add: upload_request_def)
  have n: "wValue ?r \<noteq> 0"
  proof
    assume "wValue ?r = 0"
    then have "unat (of_nat (k + 2) :: u16) = 0" by (simp add: upload_request_def)
    with unat_block_number [OF k] show False by simp
  qed
  have u: "unat (a + of_nat (1024 * k)) = unat a + 1024 * k"
    using assms(4,7) by (intro unat_add_u32) simp
  have p: "page_ok (block_address (prog_addr s1) (wValue ?r)) 1024"
    unfolding b page_ok_def u using assms(3,4,7) by simp
  have c: "dfu_req_of (bRequest ?r) = Some DFU_UPLOAD" by (simp add: upload_request_def dfu_req_of_def)
  have "dfu_ok s1" "fpec_hw H F0" using 1(2) by (simp_all add: dfu_ready_def fpec_idle_def)
  from upload_reads [OF c assms(6) this n p, of len] 1(1,4) show ?thesis
    unfolding b using image_bytes [OF assms(2,7,5,4)] by auto
qed

lemma download_then_upload_witness:
  "\<exists>s1 s2. dfu_download flash_config factory_board 0x08002000 (replicate 3000 0x42) (dfu_init []) =
      Done () s1 \<and>
    usbdfu_control_request flash_config factory_board (upload_request 3) 1024 s1 =
      Done (USBD_REQ_HANDLED, 1024, False) s2 \<and>
    usbd_control_buffer s2 = replicate 1024 0x42"
proof -
  have "page_base 0x08002000" "enable_dfu_upload flash_config"
    by (simp_all add: page_base_def in_flash_def flash_config_def)
  from download_then_upload [OF factory_dfu this(1) _ _ _ this(2), of "replicate 3000 0x42" 1 1024]
  show ?thesis by simp
qed

end
