(* ===== verification/UsbIn.thy ===== *)
theory UsbIn
  imports UsbPm UsbOut
begin

text \<open>
  The data stage of an IN transfer, and the replies that go through it. The packets of a
  reply are a function of its bytes and the zero-length-packet flag; each step of
  \<open>usb_control_send_chunk\<close> hands the next of them to the endpoint.
\<close>

section \<open>The packets of a reply\<close>

function in_packets :: "u8 list \<Rightarrow> bool \<Rightarrow> u8 list list" where
  "in_packets bs zlp =
     (if max_packet < length bs then take max_packet bs # in_packets (drop max_packet bs) zlp
      else bs # (if zlp then [[]] else []))"
  by pat_completeness auto
termination
  by (relation "measure (\<lambda>(bs, _). length bs)") auto

declare in_packets.simps [simp del]

lemma in_packets_concat: "concat (in_packets bs zlp) = bs"
  by (induction bs zlp rule: in_packets.induct) (simp add: in_packets.simps)

lemma in_packets_size: "p \<in> set (in_packets bs zlp) \<Longrightarrow> length p \<le> 64"
proof (induction bs zlp rule: in_packets.induct)
  case (1 bs zlp)
  show ?case
  proof (cases "64 < length bs")
    case True
    with "1.prems" have "p = take 64 bs \<or> p \<in> set (in_packets (drop 64 bs) zlp)"
      by (subst (asm) in_packets.simps) simp
    with "1.IH" True show ?thesis by auto
  next
    case False
    with "1.prems" show ?thesis
      by (subst (asm) in_packets.simps) (auto split: if_splits)
  qed
qed

text \<open>
  A host stops reading at a packet shorter than the maximum, or when it has all the bytes
  it asked for. The reply ends in one of the two ways.
\<close>

lemma in_packets_not_Nil: "in_packets bs zlp \<noteq> []"
  by (subst in_packets.simps) simp

lemma in_packets_butlast:
  "p \<in> set (butlast (in_packets bs zlp)) \<Longrightarrow> length bs mod 64 = 0 \<or> \<not> zlp \<Longrightarrow> length p = 64 \<or> bs = []"
proof (induction bs zlp rule: in_packets.induct)
  case (1 bs zlp)
  show ?case
  proof (cases "64 < length bs")
    case True
    have "p = take 64 bs \<or> p \<in> set (butlast (in_packets (drop 64 bs) zlp))"
      using "1.prems"(1) True
      by (subst (asm) in_packets.simps) (auto simp: in_packets_not_Nil split: if_splits)
    moreover have "length (drop 64 bs) mod 64 = 0 \<or> \<not> zlp"
      using "1.prems"(2) True le_mod_geq [of 64 "length bs"] by auto
    moreover have "drop 64 bs \<noteq> []" using True by simp
    ultimately show ?thesis using "1.IH" True by auto
  next
    case False
    with "1.prems" have "zlp" "p = bs" by (auto simp: in_packets.simps [of bs] split: if_splits)
    with "1.prems"(2) False show ?thesis by (cases "length bs < 64") auto
  qed
qed

lemma in_packets_last:
  "bs \<noteq> [] \<Longrightarrow> length bs mod 64 = 0 \<Longrightarrow> last (in_packets bs zlp) = [] \<longleftrightarrow> zlp"
proof (induction bs zlp rule: in_packets.induct)
  case (1 bs zlp)
  show ?case
  proof (cases "64 < length bs")
    case True
    then have "length (drop 64 bs) mod 64 = 0" "drop 64 bs \<noteq> []"
      using "1.prems"(2) le_mod_geq [of 64 "length bs"] by auto
    with "1.IH" True have "last (in_packets (drop 64 bs) zlp) = [] \<longleftrightarrow> zlp" by simp
    with True show ?thesis
      by (subst in_packets.simps) (simp add: in_packets_not_Nil)
  next
    case False
    with "1.prems" show ?thesis by (subst in_packets.simps) simp
  qed
qed

section \<open>One step of the data stage\<close>

text \<open>The bytes still to be sent.\<close>

definition pending :: "usb \<Rightarrow> u8 list" where
  "pending s = take (unat (datasize s)) (drop (unat (dataoff s)) (ctl_buffer s))"

definition reply_in_buffer :: "usb \<Rightarrow> bool" where
  "reply_in_buffer s \<longleftrightarrow> unat (dataoff s) + unat (datasize s) \<le> length (ctl_buffer s) \<and>
     length (ctl_buffer s) \<le> 1024"

lemma write_packet_take:
  assumes "unat n \<le> length data"
  shows "usbd_ep_write_packet H ep data n = usbd_ep_write_packet H ep (take (unat n) data) n"
proof -
  have "st_usbfs_copy_to_pm H base data n = st_usbfs_copy_to_pm H base (take (unat n) data) n" for base
    using assms by (simp add: copy_to_reference)
  then show ?thesis by (simp only: usbd_ep_write_packet_def)
qed

definition after_packet :: "nat \<Rightarrow> bool \<Rightarrow> usb \<Rightarrow> usb" where
  "after_packet k go_on s =
     (if go_on then s\<lparr>usb_fsm_state := DATA_IN, dataoff := dataoff s + of_nat k,
                    datasize := datasize s - of_nat k\<rparr>
      else s\<lparr>usb_fsm_state := (if usb_needs_zlp s \<noteq> 0 then DATA_IN else LAST_DATA_IN),
             usb_needs_zlp := 0, datasize := 0\<rparr>)"

lemma ubus_then_modc:
  "bindc (bindc (ubus c) (\<lambda>_. skip)) (\<lambda>_. modc f) s =
   (case c (io (dfu_part s)) of
      Done x h \<Rightarrow> Done () (f (s\<lparr>dfu_part := (dfu_part s)\<lparr>io := h\<rparr>\<rparr>))
    | Stopped r h \<Rightarrow> Stopped r (s\<lparr>dfu_part := (dfu_part s)\<lparr>io := h\<rparr>\<rparr>))"
  by (simp add: ubus_def on_dfu_def bus_def zoom_def bindc_def give_def modc_def split: result.splits)

lemma send_chunk_packet:
  assumes "reply_in_buffer s"
  shows "usb_control_send_chunk H s =
    bindc (bindc (ubus (usbd_ep_write_packet H 0 (hd (in_packets (pending s) z))
        (of_nat (length (hd (in_packets (pending s) z)))))) (\<lambda>_. skip))
      (\<lambda>_. modc (after_packet 64 (64 < unat (datasize s)))) s"
proof -
  let ?data = "drop (unat (dataoff s)) (ctl_buffer s)" and ?n = "datasize s"
  have l: "unat ?n \<le> length ?data" "unat ?n \<le> 1024"
    using assms by (auto simp: reply_in_buffer_def)
  show ?thesis
  proof (cases "64 < unat ?n")
    case True
    then have "hd (in_packets (pending s) z) = take 64 ?data"
      using l by (subst in_packets.simps) (simp add: pending_def min_def)
    moreover have "usbd_ep_write_packet H 0 ?data 64 = usbd_ep_write_packet H 0 (take 64 ?data) 64"
      using write_packet_take [of 64 ?data H 0] True l by simp
    moreover have "length (take 64 ?data) = 64" using True l by simp
    ultimately show ?thesis using True
      by (simp add: usb_control_send_chunk_def after_packet_def ubus_then_modc bindc_getc
          ubus_def on_dfu_def bus_def zoom_def bindc_def give_def modc_def set_fsm_def getc_def
          split: result.splits)
  next
    case False
    then have "hd (in_packets (pending s) z) = take (unat ?n) ?data"
      using l by (subst in_packets.simps) (simp add: pending_def min_def)
    moreover have "usbd_ep_write_packet H 0 ?data ?n = usbd_ep_write_packet H 0 (take (unat ?n) ?data) ?n"
      using write_packet_take [OF l(1)] .
    moreover have "of_nat (length (take (unat ?n) ?data)) = ?n" using l by simp
    ultimately show ?thesis using False
      by (simp add: usb_control_send_chunk_def after_packet_def ubus_then_modc bindc_getc
          ubus_def on_dfu_def bus_def zoom_def bindc_def give_def modc_def set_fsm_def getc_def
          set_datasize_def split: result.splits)
  qed
qed

text \<open>
  The simulation: the step hands the first packet to the endpoint, and the state after it
  stands for the remaining ones.
\<close>

lemma send_chunk_simulates:
  assumes r: "reply_in_buffer s" and e: "usb_control_send_chunk H s = Done u s'"
  defines "ps \<equiv> in_packets (pending s) (usb_needs_zlp s \<noteq> 0)"
  shows "(\<exists>n. usbd_ep_write_packet H 0 (hd ps) (of_nat (length (hd ps))) (io (dfu_part s)) =
      Done n (io (dfu_part s'))) \<and>
    (if tl ps = [] then usb_fsm_state s' = LAST_DATA_IN
     else usb_fsm_state s' = DATA_IN \<and> reply_in_buffer s' \<and>
       in_packets (pending s') (usb_needs_zlp s' \<noteq> 0) = tl ps)"
proof -
  from e send_chunk_packet [OF r, of H "usb_needs_zlp s \<noteq> 0"] obtain n h where
    w: "usbd_ep_write_packet H 0 (hd ps) (of_nat (length (hd ps))) (io (dfu_part s)) = Done n h"
    and s': "s' = after_packet 64 (64 < unat (datasize s)) (s\<lparr>dfu_part := (dfu_part s)\<lparr>io := h\<rparr>\<rparr>)"
    unfolding ubus_then_modc ps_def by (auto split: result.splits)
  have l: "length (pending s) = unat (datasize s)"
    using r by (auto simp: pending_def reply_in_buffer_def)
  have io: "io (dfu_part s') = h" by (simp add: s' after_packet_def)
  show ?thesis
  proof (cases "64 < unat (datasize s)")
    case True
    have ps: "ps = take 64 (pending s) # in_packets (drop 64 (pending s)) (usb_needs_zlp s \<noteq> 0)"
      unfolding ps_def using True l by (subst in_packets.simps) simp
    have o: "unat (dataoff s + 64) = unat (dataoff s) + 64" "unat (datasize s - 64) = unat (datasize s) - 64"
      using r True unat_u16_less [of "datasize s"]
      by (simp_all add: reply_in_buffer_def unat_word_ariths unat_sub word_le_nat_alt)
    have "pending s' = drop 64 (pending s)"
      using True by (simp add: s' after_packet_def pending_def ctl_buffer_def o drop_take add.commute)
    moreover have "reply_in_buffer s'"
      using r True by (simp add: s' after_packet_def reply_in_buffer_def ctl_buffer_def o)
    ultimately show ?thesis
      using w io True ps by (simp add: in_packets_not_Nil) (simp add: s' after_packet_def)
  next
    case False
    have ps: "ps = pending s # (if usb_needs_zlp s \<noteq> 0 then [[]] else [])"
      unfolding ps_def using False l by (subst in_packets.simps) simp
    have "pending s' = []" "usb_needs_zlp s' = 0"
      using False by (simp_all add: s' after_packet_def pending_def)
    moreover have "reply_in_buffer s'"
      using r False by (simp add: s' after_packet_def reply_in_buffer_def ctl_buffer_def)
    moreover have "in_packets [] False = [[]]" by (simp add: in_packets.simps)
    ultimately show ?thesis using w io False ps by (simp add: s' after_packet_def)
  qed
qed

section \<open>The whole data stage\<close>

primrec write_packets :: "hw \<Rightarrow> u8 list list \<Rightarrow> (history, unit) cmd" where
  "write_packets H [] = skip"
| "write_packets H (p # ps) =
     bindc (usbd_ep_write_packet H 0 p (of_nat (length p))) (\<lambda>_. write_packets H ps)"

lemma send_chunks_write:
  assumes "reply_in_buffer s" and "ps = in_packets (pending s) (usb_needs_zlp s \<noteq> 0)"
    and "block (replicate (length ps) (usb_control_send_chunk H)) s = Done u s'"
  shows "write_packets H ps (io (dfu_part s)) = Done () (io (dfu_part s')) \<and>
    usb_fsm_state s' = LAST_DATA_IN"
  using assms
proof (induction ps arbitrary: s)
  case Nil
  then show ?case using in_packets_not_Nil by metis
next
  case (Cons p ps)
  from Cons.prems(3) obtain u1 t where e: "usb_control_send_chunk H s = Done u1 t"
    and r: "block (replicate (length ps) (usb_control_send_chunk H)) t = Done u s'"
    by (auto simp: bindc_def split: result.splits)
  note sim = send_chunk_simulates [OF Cons.prems(1) e, folded Cons.prems(2), simplified]
  from sim obtain n where
    w: "usbd_ep_write_packet H 0 p (of_nat (length p)) (io (dfu_part s)) = Done n (io (dfu_part t))"
    by blast
  show ?case
  proof (cases "ps = []")
    case True
    with sim r w show ?thesis by (simp add: bindc_def give_def)
  next
    case False
    with sim have "reply_in_buffer t" "ps = in_packets (pending t) (usb_needs_zlp t \<noteq> 0)" by auto
    from Cons.IH [OF this r] w show ?thesis by (simp add: bindc_def)
  qed
qed

end
