(* ===== verification/Startup.thy ===== *)
theory Startup
  imports Views Boot
begin

text \<open>
  \<open>Core/Src/init.c\<close>: the vector table and the reset handler, which copies the initialised
  data from flash to RAM, clears the rest of the RAM variables and calls \<open>main\<close>. The
  symbols the linker script exports are parameters.
\<close>

section \<open>The vector table\<close>

datatype handler = reset_handler_entry | null_handler_entry | systick_handler_entry

text \<open>Entries the initialiser does not name are null pointers.\<close>

record vector_table_t =
  initial_sp_value :: u32
  vt_reset :: "handler option"
  vt_nmi :: "handler option"
  vt_hard_fault :: "handler option"
  vt_memory_manage_fault :: "handler option"
  vt_bus_fault :: "handler option"
  vt_usage_fault :: "handler option"
  vt_reserved_x001c :: "handler option list"
  vt_sv_call :: "handler option"
  vt_debug_monitor :: "handler option"
  vt_reserved_x0034 :: "handler option"
  vt_pend_sv :: "handler option"
  vt_systick :: "handler option"

definition vector_table :: vector_table_t where
  "vector_table =
     \<lparr>initial_sp_value = stack_word,
      vt_reset = Some reset_handler_entry,
      vt_nmi = Some null_handler_entry,
      vt_hard_fault = Some null_handler_entry,
      vt_memory_manage_fault = Some null_handler_entry,
      vt_bus_fault = Some null_handler_entry,
      vt_usage_fault = Some null_handler_entry,
      vt_reserved_x001c = replicate 4 None,
      vt_sv_call = Some null_handler_entry,
      vt_debug_monitor = Some null_handler_entry,
      vt_reserved_x0034 = None,
      vt_pend_sv = Some null_handler_entry,
      vt_systick = Some systick_handler_entry\<rparr>"

text \<open>The entries in memory order, from exception number 1 on.\<close>

definition vectors :: "vector_table_t \<Rightarrow> handler option list" where
  "vectors t =
     [vt_reset t, vt_nmi t, vt_hard_fault t, vt_memory_manage_fault t, vt_bus_fault t,
      vt_usage_fault t] @ vt_reserved_x001c t @
     [vt_sv_call t, vt_debug_monitor t, vt_reserved_x0034 t, vt_pend_sv t, vt_systick t]"

text \<open>\<open>while (1);\<close>\<close>

definition null_handler :: "('s, unit) cmd" where
  "null_handler = whilec (give True) skip"

section \<open>The reset handler\<close>

text \<open>The two pointers of the handler beside the bus.\<close>

record startup =
  sbus :: history
  src_ptr :: u32
  dest_ptr :: u32

definition on_bus :: "(history, 'a) cmd \<Rightarrow> (startup, 'a) cmd" where
  "on_bus c = zoom sbus (\<lambda>h s. s\<lparr>sbus := h\<rparr>) c"

text \<open>\<open>dest < &_edata; src++, dest++: *dest = *src\<close>\<close>

definition copy_data :: "hw \<Rightarrow> u32 \<Rightarrow> (startup, unit) cmd" where
  "copy_data H edata = whilec (getc (\<lambda>s. dest_ptr s < edata)) (block
     [bindc (getc (\<lambda>s. (src_ptr s, dest_ptr s))) (\<lambda>(a, d).
        on_bus (bindc (load32 H a) (\<lambda>v. store32 H d v))),
      modc (\<lambda>s. s\<lparr>src_ptr := src_ptr s + 4, dest_ptr := dest_ptr s + 4\<rparr>)])"

text \<open>\<open>while (dest < &_ebss) *dest++ = 0;\<close>\<close>

definition clear_bss :: "hw \<Rightarrow> u32 \<Rightarrow> (startup, unit) cmd" where
  "clear_bss H ebss = whilec (getc (\<lambda>s. dest_ptr s < ebss)) (block
     [bindc (getc dest_ptr) (\<lambda>d. on_bus (store32 H d 0)),
      modc (\<lambda>s. s\<lparr>dest_ptr := dest_ptr s + 4\<rparr>)])"

definition SCB_CCR :: u32 where "SCB_CCR = 0xE000ED14"

text \<open>Everything before the call of \<open>main\<close>.\<close>

definition reset_handler :: "hw \<Rightarrow> u32 \<Rightarrow> u32 \<Rightarrow> u32 \<Rightarrow> u32 \<Rightarrow> (history, unit) cmd" where
  "reset_handler H data_loadaddr data edata ebss =
     zoom (\<lambda>h. \<lparr>sbus = h, src_ptr = data_loadaddr, dest_ptr = data\<rparr>) (\<lambda>s _. sbus s)
       (block [copy_data H edata, clear_bss H ebss,
               on_bus (or32 H SCB_CCR (push_bit 9 1))])"

section \<open>What it leaves in RAM\<close>

text \<open>The last word stored at an address.\<close>

fun last_stored :: "u32 \<Rightarrow> history \<Rightarrow> u32 option" where
  "last_stored a [] = None"
| "last_stored a (Stored W32 b v # h) = (if a = b then Some v else last_stored a h)"
| "last_stored a (e # h) = last_stored a h"

definition stores_answered :: "hw \<Rightarrow> bool" where
  "stores_answered H \<longleftrightarrow> (\<forall>h w a v. H h (Store w a v) \<noteq> None)"

definition holds_words :: "hw \<Rightarrow> u32 \<Rightarrow> u32 list \<Rightarrow> bool" where
  "holds_words H a ws \<longleftrightarrow> (\<forall>i < length ws. \<forall>h. H h (Load W32 (a + 4 * of_nat i)) = Some (ws ! i))"

lemma holds_words_Cons:
  "holds_words H a (w # ws) \<longleftrightarrow> (\<forall>h. H h (Load W32 a) = Some w) \<and> holds_words H (a + 4) ws"
  by (auto simp: holds_words_def less_Suc_eq_0_disj nth_Cons' algebra_simps)

lemma stores_answeredD: "stores_answered H \<Longrightarrow> store H w a v h = Done () (Stored w a v # h)"
  unfolding stores_answered_def store_def by (metis option.case_eq_if)

text \<open>Addresses of a run of words that does not wrap\<close>

lemma word_run:
  fixes d :: u32
  assumes "unat d + 4 * n < 4294967296" and "i \<le> n"
  shows "unat (d + 4 * of_nat i) = unat d + 4 * i"
proof -
  have "unat d + 4 * i < 4294967296" using assms by simp
  from unat_add_u32 [OF this] show ?thesis by simp
qed

lemma word_run_next:
  fixes d :: u32
  assumes "unat d + 4 * Suc n < 4294967296"
  shows "unat (d + 4) + 4 * n < 4294967296" and "i < n \<Longrightarrow> d + 4 + 4 * of_nat i \<noteq> d"
proof -
  have e: "unat (d + 4) = unat d + 4" using word_run [OF assms, of 1] by simp
  with assms show l: "unat (d + 4) + 4 * n < 4294967296" by simp
  show "d + 4 + 4 * of_nat i \<noteq> d" if "i < n"
  proof
    assume "d + 4 + 4 * of_nat i = d"
    then have "unat (d + 4 + 4 * of_nat i) = unat d" by (rule arg_cong)
    with word_run [OF l, of i] that e show False by simp
  qed
qed

lemma word_run_less:
  fixes d :: u32
  assumes "unat d + 4 * Suc n < 4294967296"
  shows "d < d + 4 * of_nat (Suc n)"
  using word_run [OF assms, of "Suc n"] by (simp add: word_less_nat_alt)

text \<open>\<open>ram_filled d ws h h'\<close>: the words \<open>ws\<close> were stored from \<open>d\<close> on, and nothing else.\<close>

definition ram_filled :: "u32 \<Rightarrow> u32 list \<Rightarrow> history \<Rightarrow> history \<Rightarrow> bool" where
  "ram_filled d ws h h' \<longleftrightarrow>
     (\<forall>i < length ws. last_stored (d + 4 * of_nat i) h' = Some (ws ! i)) \<and>
     (\<forall>x. (\<forall>i < length ws. x \<noteq> d + 4 * of_nat i) \<longrightarrow> last_stored x h' = last_stored x h)"

lemma ram_filled_Nil: "ram_filled d [] h h"
  by (simp add: ram_filled_def)

lemma ram_filled_Cons:
  assumes f: "ram_filled (d + 4) ws (Stored W32 d w # es @ h) h'"
    and es: "\<And>x. last_stored x (es @ h) = last_stored x h"
    and d: "unat d + 4 * Suc (length ws) < 4294967296"
  shows "ram_filled d (w # ws) h h'"
proof -
  have hd: "last_stored d h' = Some w"
    using f word_run_next(2) [OF d] unfolding ram_filled_def by force
  have tl: "last_stored (d + 4 + 4 * of_nat i) h' = Some (ws ! i)" if "i < length ws" for i
    using f that unfolding ram_filled_def by simp
  have "last_stored (d + 4 * of_nat i) h' = Some ((w # ws) ! i)" if "i < length (w # ws)" for i
    using that hd tl by (cases i) (simp_all add: algebra_simps)
  moreover have "last_stored x h' = last_stored x h"
    if x: "\<forall>i < length (w # ws). x \<noteq> d + 4 * of_nat i" for x
  proof -
    have "x \<noteq> d" using x by force
    moreover have "x \<noteq> d + 4 + 4 * of_nat i" if "i < length ws" for i
      using x [rule_format, of "Suc i"] that by (simp add: algebra_simps)
    ultimately show ?thesis using f es unfolding ram_filled_def by simp
  qed
  ultimately show ?thesis unfolding ram_filled_def by blast
qed

lemma startup_loop_exit:
  "\<not> dest_ptr s < lim \<Longrightarrow> whilec (getc (\<lambda>s. dest_ptr s < lim)) b s = Done () s"
  by (rule whilec_exit) (simp add: getc_def)

lemma startup_loop_step:
  assumes "dest_ptr s < lim" and "b s = Done () s1"
    and "whilec (getc (\<lambda>s. dest_ptr s < lim)) b s1 = Done () s2"
  shows "whilec (getc (\<lambda>s. dest_ptr s < lim)) b s = Done () s2"
  by (rule whilec_step [OF _ assms(2,3)]) (use assms(1) in \<open>simp add: getc_def\<close>)

lemma copy_data_fills:
  assumes "stores_answered H" and "holds_words H a ws"
    and "unat d + 4 * length ws < 4294967296"
  shows "\<exists>h'. copy_data H (d + 4 * of_nat (length ws)) \<lparr>sbus = h, src_ptr = a, dest_ptr = d\<rparr> =
      Done () \<lparr>sbus = h', src_ptr = a + 4 * of_nat (length ws), dest_ptr = d + 4 * of_nat (length ws)\<rparr> \<and>
    ram_filled d ws h h'"
  using assms(2,3)
proof (induction ws arbitrary: h a d)
  case Nil
  then show ?case using ram_filled_Nil
    by (auto simp: copy_data_def startup_loop_exit)
next
  case (Cons w ws)
  let ?h = "[Stored W32 d w] @ [Loaded W32 a w] @ h"
  have w: "H h (Load W32 a) = Some w" for h using Cons.prems(1) by (simp add: holds_words_Cons)
  have d: "unat d + 4 * Suc (length ws) < 4294967296" using Cons.prems(2) by simp
  have "holds_words H (a + 4) ws" using Cons.prems(1) by (simp add: holds_words_Cons)
  from Cons.IH [OF this word_run_next(1) [OF d], of ?h] obtain h' where
    h': "copy_data H (d + 4 * of_nat (Suc (length ws))) \<lparr>sbus = ?h, src_ptr = a + 4, dest_ptr = d + 4\<rparr> =
      Done () \<lparr>sbus = h', src_ptr = a + 4 * of_nat (Suc (length ws)), dest_ptr = d + 4 * of_nat (Suc (length ws))\<rparr>"
    and f: "ram_filled (d + 4) ws ?h h'" by (auto simp: algebra_simps)
  have "copy_data H (d + 4 * of_nat (Suc (length ws))) \<lparr>sbus = h, src_ptr = a, dest_ptr = d\<rparr> =
      Done () \<lparr>sbus = h', src_ptr = a + 4 * of_nat (Suc (length ws)), dest_ptr = d + 4 * of_nat (Suc (length ws))\<rparr>"
    unfolding copy_data_def
    by (rule startup_loop_step [OF _ _ h' [unfolded copy_data_def]])
      (use word_run_less [OF d] w stores_answeredD [OF assms(1)] in
        \<open>simp_all add: on_bus_def zoom_def getc_def modc_def bindc_def give_def load_def\<close>)
  moreover have "ram_filled d (w # ws) h h'"
    using f d by (intro ram_filled_Cons [where es = "[Loaded W32 a w]"]) simp_all
  ultimately show ?case by auto
qed

lemma clear_bss_fills:
  assumes "stores_answered H" and "unat d + 4 * m < 4294967296"
  shows "\<exists>h'. clear_bss H (d + 4 * of_nat m) \<lparr>sbus = h, src_ptr = a, dest_ptr = d\<rparr> =
      Done () \<lparr>sbus = h', src_ptr = a, dest_ptr = d + 4 * of_nat m\<rparr> \<and>
    ram_filled d (replicate m 0) h h'"
  using assms(2)
proof (induction m arbitrary: h d)
  case 0
  then show ?case using ram_filled_Nil by (auto simp: clear_bss_def startup_loop_exit)
next
  case (Suc m)
  let ?h = "[Stored W32 d 0] @ [] @ h"
  from Suc.IH [OF word_run_next(1) [OF Suc.prems], of ?h] obtain h' where
    h': "clear_bss H (d + 4 * of_nat (Suc m)) \<lparr>sbus = ?h, src_ptr = a, dest_ptr = d + 4\<rparr> =
      Done () \<lparr>sbus = h', src_ptr = a, dest_ptr = d + 4 * of_nat (Suc m)\<rparr>"
    and f: "ram_filled (d + 4) (replicate m 0) ?h h'" by (auto simp: algebra_simps)
  have "clear_bss H (d + 4 * of_nat (Suc m)) \<lparr>sbus = h, src_ptr = a, dest_ptr = d\<rparr> =
      Done () \<lparr>sbus = h', src_ptr = a, dest_ptr = d + 4 * of_nat (Suc m)\<rparr>"
    unfolding clear_bss_def
    by (rule startup_loop_step [OF _ _ h' [unfolded clear_bss_def]])
      (use word_run_less [OF Suc.prems] stores_answeredD [OF assms(1)] in
        \<open>simp_all add: on_bus_def zoom_def getc_def modc_def bindc_def give_def\<close>)
  moreover have "ram_filled d (0 # replicate m 0) h h'"
    using f Suc.prems by (intro ram_filled_Cons [where es = "[]"]) simp_all
  ultimately show ?case by (auto simp del: replicate_Suc simp: replicate_Suc)
qed

lemma ram_filled_append:
  assumes f: "ram_filled d ws h h1" "ram_filled (d + 4 * of_nat (length ws)) vs h1 h2"
    and d: "unat d + 4 * (length ws + length vs) < 4294967296"
  shows "ram_filled d (ws @ vs) h h2"
proof -
  let ?e = "d + 4 * of_nat (length ws)"
  have e: "?e + 4 * of_nat j = d + 4 * of_nat (length ws + j)" for j by (simp add: algebra_simps)
  have ne: "d + 4 * of_nat i \<noteq> d + 4 * of_nat (length ws + j)"
    if "i < length ws" "j < length vs" for i j
  proof
    assume "d + 4 * of_nat i = d + 4 * of_nat (length ws + j)"
    then have "unat (d + 4 * of_nat i) = unat (d + 4 * of_nat (length ws + j))" by (rule arg_cong)
    with word_run [OF d, of i] word_run [OF d, of "length ws + j"] that show False by simp
  qed
  have "last_stored (d + 4 * of_nat i) h2 = Some ((ws @ vs) ! i)" if "i < length (ws @ vs)" for i
  proof (cases "i < length ws")
    case True
    have "last_stored (d + 4 * of_nat i) h2 = last_stored (d + 4 * of_nat i) h1"
      using f(2) ne [OF True] unfolding ram_filled_def e by blast
    also have "\<dots> = Some (ws ! i)" using f(1) True unfolding ram_filled_def by blast
    finally show ?thesis using True by (simp only: nth_append if_True)
  next
    case False
    define j where "j = i - length ws"
    have j: "i = length ws + j" "j < length vs" using False that by (simp_all add: j_def)
    have "last_stored (d + 4 * of_nat (length ws + j)) h2 = Some (vs ! j)"
      using f(2) j(2) unfolding ram_filled_def e by blast
    then show ?thesis unfolding j(1) nth_append_length_plus .
  qed
  moreover have "last_stored x h2 = last_stored x h"
    if x: "\<forall>i < length (ws @ vs). x \<noteq> d + 4 * of_nat i" for x
  proof -
    have "\<forall>i < length ws. x \<noteq> d + 4 * of_nat i" using x by simp
    moreover have "x \<noteq> d + 4 * of_nat (length ws + j)" if "j < length vs" for j
      by (rule x [rule_format]) (use that in simp)
    ultimately show ?thesis using f unfolding ram_filled_def e by metis
  qed
  ultimately show ?thesis unfolding ram_filled_def by blast
qed

lemma reset_handler_fills:
  assumes "stores_answered H" and "holds_words H la ws" and "\<And>h. H h (Load W32 SCB_CCR) = Some ccr"
    and d: "unat d + 4 * (length ws + m) < 4294967296"
  shows "\<exists>h'. reset_handler H la d (d + 4 * of_nat (length ws)) (d + 4 * of_nat (length ws + m)) h =
      Done () (Stored W32 SCB_CCR (ccr OR 0x200) # Loaded W32 SCB_CCR ccr # h') \<and>
    ram_filled d (ws @ replicate m 0) h h'"
proof -
  let ?e = "d + 4 * of_nat (length ws)"
  have eb: "d + 4 * of_nat (length ws + m) = ?e + 4 * of_nat m" by (simp add: algebra_simps)
  have "unat d + 4 * length ws < 4294967296" using d by simp
  from copy_data_fills [OF assms(1,2) this, of h] obtain h1 where
    c: "copy_data H ?e \<lparr>sbus = h, src_ptr = la, dest_ptr = d\<rparr> =
      Done () \<lparr>sbus = h1, src_ptr = la + 4 * of_nat (length ws), dest_ptr = ?e\<rparr>"
    and f1: "ram_filled d ws h h1" by blast
  have "unat ?e + 4 * m < 4294967296" using word_run [OF d, of "length ws"] d by simp
  from clear_bss_fills [OF assms(1) this, of h1 "la + 4 * of_nat (length ws)"] obtain h2 where
    b: "clear_bss H (?e + 4 * of_nat m) \<lparr>sbus = h1, src_ptr = la + 4 * of_nat (length ws), dest_ptr = ?e\<rparr> =
      Done () \<lparr>sbus = h2, src_ptr = la + 4 * of_nat (length ws), dest_ptr = ?e + 4 * of_nat m\<rparr>"
    and f2: "ram_filled ?e (replicate m 0) h1 h2" by blast
  have "ram_filled d (ws @ replicate m 0) h h2"
    by (rule ram_filled_append [OF f1 f2]) (use d in simp)
  moreover have "reset_handler H la d ?e (?e + 4 * of_nat m) h =
      Done () (Stored W32 SCB_CCR (ccr OR 0x200) # Loaded W32 SCB_CCR ccr # h2)"
    by (simp add: reset_handler_def zoom_def bindc_def c b on_bus_def or32_def load_def give_def
        assms(3) stores_answeredD [OF assms(1)])
  ultimately show ?thesis unfolding eb by blast
qed

text \<open>The empty handler never returns.\<close>

lemma null_handler_hangs: "null_handler s = Stopped Hang s"
  unfolding null_handler_def by (rule whilec_hangs [where I = "\<lambda>_. True"]) (simp_all add: give_def)

end
