(* ===== verification/UsbCtl.thy ===== *)
theory UsbCtl
  imports UsbIn Startup
begin

text \<open>
  What single control requests do: the bus reset with its endpoint and packet memory
  layout, the replies of the descriptor requests, and the class requests that leave the
  announced length as the reply length.
\<close>

section \<open>Replies\<close>

lemma put_ctl_run:
  assumes "off + length bs \<le> length (ctl_buffer s)"
  shows "put_ctl off bs s = Done () (s\<lparr>dfu_part := (dfu_part s)\<lparr>usbd_control_buffer :=
    overwrite off bs (ctl_buffer s)\<rparr>\<rparr>)"
  using assms
  by (simp add: put_ctl_def bindc_getc on_dfu_def zoom_def modc_def ctl_buffer_def)

lemma length_wide [simp]: "length (wide cs) = 2 * length cs"
  by (induction cs) (simp_all add: wide_def)

text \<open>The strings of the descriptor: a length byte, the type byte, UTF-16 characters.\<close>

definition string_reply :: "u8 list \<Rightarrow> u8 list" where
  "string_reply cs = [of_nat (2 * length cs + 2), USB_DT_STRING] @ wide cs"

lemma string_descriptor_reply:
  assumes i: "0 < i" "i \<noteq> 0xEE" "i - 1 < length (usb_strings C (serial_no s))"
    and lang: "wIndex (usb_req s) = USB_LANGID_ENGLISH_US"
    and str: "strlen (usb_strings C (serial_no s) ! (i - 1)) = Some n" "n \<le> 126"
    and buf: "length (ctl_buffer s) = 1024"
  shows "\<exists>s'. get_string_descriptor C i s = Done USBD_REQ_HANDLED s' \<and>
    unat (datasize s') = 2 * n + 2 \<and>
    take (2 * n + 2) (ctl_buffer s') = string_reply (take n (usb_strings C (serial_no s) ! (i - 1)))"
proof -
  let ?str = "usb_strings C (serial_no s) ! (i - 1)" and ?b = "ctl_buffer s"
  let ?cs = "take n ?str"
  have n: "length ?cs = n" using strlen_SomeD [OF str(1)] by simp
  have u: "unat (ucast (of_nat (n * 2 + 1 + 1) :: u8) :: u16) = 2 * n + 2"
  proof -
    define k where "k = n * 2 + 1 + 1"
    have k: "k < 256" using str(2) by (simp add: k_def)
    then have "unat (of_nat k :: u8) = k" by (simp add: unat_of_nat take_bit_eq_mod)
    with k have "unat (ucast (of_nat k :: u8) :: u16) = k"
      by (simp add: unsigned_ucast_eq take_bit_eq_mod)
    then show ?thesis by (simp only: k_def)
  qed
  let ?b1 = "overwrite 1 [USB_DT_STRING] ?b"
  let ?b2 = "overwrite 0 [of_nat (n * 2 + 1 + 1)] ?b1"
  let ?b3 = "overwrite 2 (wide ?cs) ?b2"
  have len: "length ?b1 = 1024" "length ?b2 = 1024" using buf by simp_all
  let ?s3 = "s\<lparr>dfu_part := (dfu_part s)\<lparr>usbd_control_buffer := ?b3\<rparr>,
      datasize := ucast (of_nat (n * 2 + 1 + 1) :: u8)\<rparr>"
  have "get_string_descriptor C i s = Done USBD_REQ_HANDLED ?s3"
    using i lang str buf n
    by (simp add: get_string_descriptor_def bindc_def put_ctl_run set_blength_def set_datasize_def
        modc_def give_def getc_def ctl_buffer_def Let_def)
  moreover have "take (2 * n + 2) ?b3 = string_reply ?cs"
  proof -
    have "take 2 ?b2 = [of_nat (n * 2 + 1 + 1), USB_DT_STRING]"
      using buf by (simp add: overwrite_eq numeral_2_eq_2)
    with take_overwrite_append [of 2 "wide ?cs" ?b2] len n str(2)
    have "take (2 + 2 * n) ?b3 = [of_nat (n * 2 + 1 + 1), USB_DT_STRING] @ wide ?cs" by simp
    moreover have "string_reply ?cs = [of_nat (n * 2 + 1 + 1), USB_DT_STRING] @ wide ?cs"
      unfolding string_reply_def n by (simp add: mult.commute)
    ultimately show ?thesis by (simp only: add.commute)
  qed
  moreover have "ctl_buffer ?s3 = ?b3" "datasize ?s3 = ucast (of_nat (n * 2 + 1 + 1) :: u8)"
    by (simp_all add: ctl_buffer_def)
  ultimately show ?thesis using u by (intro exI [of _ ?s3]) (simp only: simp_thms)
qed

section \<open>Class requests without a reply\<close>

text \<open>
  CLRSTATUS, ABORT and DETACH do not set the reply length, and neither does DNLOAD with a
  length. Sent as IN requests they leave \<open>datasize\<close> at the announced \<open>wLength\<close>.
\<close>

lemma class_no_reply:
  assumes t: "bmRequestType (usb_req s) = 0xA1"
    and r: "dfu_req_of (bRequest (usb_req s)) \<in> {Some DFU_CLRSTATUS, Some DFU_ABORT, Some DFU_DETACH}"
  shows "\<exists>s'. usb_control_request_dispatch C H s = Done USBD_REQ_HANDLED s' \<and>
    datasize s' = wLength (usb_req s) \<and> dataoff s' = dataoff s \<and> usb_req s' = usb_req s \<and>
    ctl_buffer s' = ctl_buffer s \<and> io (dfu_part s') = io (dfu_part s)"
proof -
  have m: "(0xA1 :: u8) AND 0x7F = 0x21" by simp
  show ?thesis using r
    by (auto simp: usb_control_request_dispatch_def class_request_def t m usbdfu_control_request_def
        bindc_def getc_def modc_def give_def on_dfu_def zoom_def set_state_def set_datasize_def
        ctl_buffer_def)
qed

text \<open>The peripheral answers and its transmit status is never VALID when it is asked.\<close>

definition tx_free :: "hw \<Rightarrow> bool" where
  "tx_free H \<longleftrightarrow> (\<forall>h x. H h x \<noteq> None) \<and>
     (\<forall>h v. H h (Load W32 (USB_EP_REG 0)) = Some v \<longrightarrow>
        v AND ucast USB_EP_TX_STAT \<noteq> ucast USB_EP_TX_STAT_VALID)"

lemma tx_free_answers:
  assumes "tx_free H"
  shows "finishes (load H w a)" "finishes (store H w a d)"
proof -
  have n: "H h x \<noteq> None" for h x using assms unfolding tx_free_def by blast
  show "finishes (load H w a)" "finishes (store H w a d)"
    by (auto simp: finishes_def load_def store_def n split: option.splits)
qed

lemma tx_free_macros:
  assumes "tx_free H"
  shows "finishes (GET_REG H a)" "finishes (SET_REG H a v)" "finishes (btable_get H ep k)"
    "finishes (btable_set H ep k v)" "finishes (USB_SET_EP_TX_STAT H ep st)"
    "finishes (USB_GET_EP_TX_BUFF H ep)"
  unfolding GET_REG_def SET_REG_def btable_get_def btable_set_def USB_SET_EP_TX_STAT_def
    TOG_SET_REG_BIT_MSK_AND_SET_def USB_GET_EP_TX_BUFF_def
  by (intro finishes_rules tx_free_answers [OF assms])+

lemma tx_free_store_words: "tx_free H \<Longrightarrow> finishes (store_words H base idx ws)"
  by (induction ws arbitrary: idx) (auto simp: store16_def intro!: finishes_rules tx_free_answers)

lemma tx_free_write:
  assumes H: "tx_free H" and l: "unat n \<le> length data"
  shows "\<exists>x h'. usbd_ep_write_packet H 0 data n h = Done x h'"
proof -
  have "finishes (usbd_ep_write_packet H 0 data n)"
    unfolding usbd_ep_write_packet_def Let_def
    using l by (intro finishes_rules finishes_list)
      (simp_all add: tx_free_answers [OF H] tx_free_macros [OF H] copy_to_reference
        tx_free_store_words [OF H] USB_SET_EP_TX_COUNT_def)
  then show ?thesis by (simp add: finishes_def)
qed

lemma send_chunk_finishes:
  assumes H: "tx_free H" and r: "reply_in_buffer s"
  shows "\<exists>s'. usb_control_send_chunk H s = Done () s'"
proof -
  let ?p = "hd (in_packets (pending s) False)"
  have "?p \<in> set (in_packets (pending s) False)" by (rule hd_in_set [OF in_packets_not_Nil])
  from in_packets_size [OF this] have "length ?p < 65536" by simp
  then have "unat (of_nat (length ?p) :: u16) \<le> length ?p" by (simp add: unat_of_nat take_bit_eq_mod)
  from tx_free_write [OF H this] obtain x h where
    "usbd_ep_write_packet H 0 ?p (of_nat (length ?p)) (io (dfu_part s)) = Done x h" by blast
  then show ?thesis by (simp add: send_chunk_packet [OF r, of H False] ubus_then_modc)
qed

lemma chunk_advances:
  assumes H: "tx_free H" and n: "64 < unat (datasize s)"
    and l: "unat (dataoff s) + 64 \<le> length (ctl_buffer s)" "length (ctl_buffer s) \<le> 1024"
  shows "\<exists>s'. usb_control_send_chunk H s = Done () s' \<and> dataoff s' = dataoff s + 64 \<and>
    datasize s' = datasize s - 64 \<and> ctl_buffer s' = ctl_buffer s"
proof -
  let ?data = "drop (unat (dataoff s)) (ctl_buffer s)"
  have "unat (64 :: u16) \<le> length ?data" using l(1) by simp
  from tx_free_write [OF H this, of "io (dfu_part s)"] obtain x h' where
    "usbd_ep_write_packet H 0 ?data 64 (io (dfu_part s)) = Done x h'" by blast
  then show ?thesis using n
    by (auto simp: usb_control_send_chunk_def bindc_getc ubus_def on_dfu_def bus_def zoom_def
        bindc_def give_def modc_def set_fsm_def getc_def ctl_buffer_def)
qed

lemma chunk_overruns:
  assumes H: "tx_free H" and n: "64 < unat (datasize s)"
    and l: "length (ctl_buffer s) = 1024" "unat (dataoff s) = 1024"
  shows "\<exists>s'. usb_control_send_chunk H s = Stopped OutOfBounds s'"
proof -
  have e: "(0 :: u8) AND 0x7F = 0" by simp
  from tx_free_answers(1) [OF H] obtain v h1 where
    1: "load32 H (USB_EP_REG 0) (io (dfu_part s)) = Done v h1" unfolding finishes_def by blast
  then have v: "v AND ucast USB_EP_TX_STAT \<noteq> ucast USB_EP_TX_STAT_VALID"
    using H by (auto simp: tx_free_def load_def split: option.splits)
  from tx_free_macros(6) [OF H] obtain b h2 where
    2: "USB_GET_EP_TX_BUFF H 0 h1 = Done b h2" unfolding finishes_def by blast
  have "copy_words_to_pm H b 0 [] 32 = halt OutOfBounds"
    by (simp add: numeral_eq_Suc)
  then have 3: "st_usbfs_copy_to_pm H b [] 64 h2 = Stopped OutOfBounds h2"
    by (simp add: st_usbfs_copy_to_pm_def Let_def halt_def bindc_def)
  have "usbd_ep_write_packet H 0 [] 64 (io (dfu_part s)) = Stopped OutOfBounds h2"
    using v by (simp add: usbd_ep_write_packet_def Let_def bindc_def 1 2 3)
  then show ?thesis using n l
    by (auto simp: usb_control_send_chunk_def bindc_getc ubus_def on_dfu_def bus_def zoom_def
        bindc_def ctl_buffer_def getc_def)
qed

lemma chunks_reach_end:
  assumes H: "tx_free H" and "k \<le> 16"
    and "unat (dataoff s) = 64 * (16 - k)" and "length (ctl_buffer s) = 1024"
    and "64 * k + 64 < unat (datasize s)"
  shows "\<exists>s'. block (replicate (Suc k) (usb_control_send_chunk H)) s = Stopped OutOfBounds s'"
  using assms(2-)
proof (induction k arbitrary: s)
  case 0
  with chunk_overruns [OF H, of s] show ?case by (auto simp: bindc_Stopped)
next
  case (Suc k)
  from chunk_advances [OF H, of s] Suc.prems obtain s1 where
    1: "usb_control_send_chunk H s = Done () s1" "dataoff s1 = dataoff s + 64"
      "datasize s1 = datasize s - 64" "ctl_buffer s1 = ctl_buffer s" by auto
  have "unat (dataoff s1) = 64 * (16 - k)" "unat (datasize s1) = unat (datasize s) - 64"
    using 1(2,3) Suc.prems by (simp_all add: unat_word_ariths unat_sub word_le_nat_alt)
  then have "\<exists>s'. block (replicate (Suc k) (usb_control_send_chunk H)) s1 = Stopped OutOfBounds s'"
    by (intro Suc.IH) (use Suc.prems 1(4) in simp_all)
  then obtain s2 where
    "block (replicate (Suc k) (usb_control_send_chunk H)) s1 = Stopped OutOfBounds s2" by blast
  with 1(1) show ?case by (simp add: bindc_Done)
qed

lemma class_reply_overruns:
  assumes H: "tx_free H" and t: "bmRequestType (usb_req s) = 0xA1"
    and r: "dfu_req_of (bRequest (usb_req s)) \<in> {Some DFU_CLRSTATUS, Some DFU_ABORT, Some DFU_DETACH}"
    and n: "1088 < unat (wLength (usb_req s))" and b: "length (ctl_buffer s) = 1024"
  shows "\<exists>s'. block (usb_control_setup_read C H # replicate 16 (usb_control_send_chunk H)) s =
    Stopped OutOfBounds s'"
proof -
  let ?s0 = "s\<lparr>dataoff := 0\<rparr>"
  from class_no_reply [of ?s0 C H] t r obtain s1 where
    1: "usb_control_request_dispatch C H ?s0 = Done USBD_REQ_HANDLED s1"
      "datasize s1 = wLength (usb_req s)" "dataoff s1 = 0" "ctl_buffer s1 = ctl_buffer s"
    by (auto simp: ctl_buffer_def)
  let ?s2 = "s1\<lparr>usb_needs_zlp := needs_zlp (datasize s1) (wLength (usb_req s)) max_packet\<rparr>"
  have "\<exists>s'. usb_control_send_chunk H ?s2 = Done () s' \<and> dataoff s' = dataoff ?s2 + 64 \<and>
      datasize s' = datasize ?s2 - 64 \<and> ctl_buffer s' = ctl_buffer ?s2"
    by (rule chunk_advances [OF H]) (use 1 n b in \<open>simp_all add: ctl_buffer_def\<close>)
  then obtain s3 where 3: "usb_control_send_chunk H ?s2 = Done () s3" "dataoff s3 = 64"
    "datasize s3 = wLength (usb_req s) - 64" "ctl_buffer s3 = ctl_buffer s"
    using 1 by (auto simp: ctl_buffer_def)
  have "wLength (usb_req s) \<noteq> 0" using n by auto
  then have "usb_control_setup_read C H s = Done () s3"
    using 1 3(1) by (simp add: usb_control_setup_read_def bindc_def getc_def modc_def give_def)
  moreover have "\<exists>s'. block (replicate (Suc 15) (usb_control_send_chunk H)) s3 = Stopped OutOfBounds s'"
  proof (rule chunks_reach_end [OF H])
    have "unat (wLength (usb_req s) - 64) = unat (wLength (usb_req s)) - 64"
      using n by (simp add: unat_sub word_le_nat_alt)
    with 3 n show "64 * 15 + 64 < unat (datasize s3)" by simp
  qed (use 3 b in simp_all)
  ultimately show ?thesis by (auto simp: bindc_Done numeral_eq_Suc)
qed

section \<open>Bus reset\<close>

interpretation lv: bystander "last_stored a" "\<lambda>w b. w = W32 \<and> b = a" for a
proof
  show "last_stored a (Loaded w b v # h) = last_stored a h" for w b v h by simp
  show "last_stored a (Stored w b v # h) = last_stored a h" if "\<not> (w = W32 \<and> b = a)" for w b v h
    using that by (cases w) auto
qed

lemma last_SET_REG: "SET_REG H a v h = Done u h' \<Longrightarrow> last_stored a h' = Some (ucast v)"
  by (auto simp: SET_REG_def store_def split: option.splits)

lemma lv_toggles:
  assumes "a \<noteq> USB_EP_REG ep"
  shows "keeps (\<lambda>h. last_stored a h = v) (USB_SET_EP_RX_STAT H ep st)"
    "keeps (\<lambda>h. last_stored a h = v) (USB_SET_EP_TX_STAT H ep st)"
    "keeps (\<lambda>h. last_stored a h = v) (USB_CLR_EP_RX_DTOG H ep)"
    "keeps (\<lambda>h. last_stored a h = v) (USB_CLR_EP_TX_DTOG H ep)"
    "keeps (\<lambda>h. last_stored a h = v) (USB_SET_EP_ADDR H ep x)"
    "keeps (\<lambda>h. last_stored a h = v) (USB_SET_EP_TYPE H ep x)"
  unfolding USB_SET_EP_RX_STAT_def USB_SET_EP_TX_STAT_def USB_CLR_EP_RX_DTOG_def
    USB_CLR_EP_TX_DTOG_def USB_SET_EP_ADDR_def USB_SET_EP_TYPE_def
    TOG_SET_REG_BIT_MSK_AND_SET_def GET_REG_def SET_REG_def
  using assms by (intro keeps_bindc keeps_give lv.leaves_load lv.leaves_store; simp)+

lemma ubus_cmd_Done:
  "bindc (ubus c) f s = Done y s'' \<longleftrightarrow>
   (\<exists>x h. c (io (dfu_part s)) = Done x h \<and> f x (s\<lparr>dfu_part := (dfu_part s)\<lparr>io := h\<rparr>\<rparr>) = Done y s'')"
  by (auto simp: bindc_eq_Done ubus_Done)

lemma modc_cmd_Done: "bindc (modc g) f s = Done y s'' \<longleftrightarrow> f () (g s) = Done y s''"
  by (simp add: bindc_def modc_def)

lemma getc_cmd_Done: "bindc (getc g) f s = Done y s'' \<longleftrightarrow> f (g s) s = Done y s''"
  by (simp add: bindc_def getc_def)

lemma reset_run:
  assumes "usb_reset H s = Done u s'"
  shows "block
    [CLR_REG_BIT H USB_ISTR_REG USB_ISTR_RESET, USB_SET_EP_ADDR H 0 0,
     USB_SET_EP_TYPE H 0 USB_EP_TYPE_CONTROL, USB_SET_EP_TX_ADDR H 0 0x40,
     USB_CLR_EP_TX_DTOG H 0, USB_SET_EP_TX_STAT H 0 USB_EP_TX_STAT_NAK,
     USB_SET_EP_RX_ADDR H 0 0x80, USB_SET_EP_RX_COUNT H 0 0x8800, USB_CLR_EP_RX_DTOG H 0,
     USB_SET_EP_RX_STAT H 0 USB_EP_RX_STAT_VALID, SET_REG H USB_DADDR_REG 0x80]
    (io (dfu_part s)) = Done () (io (dfu_part s')) \<and> usb_pm_top s' = 0xC0"
  using assms
  by (auto simp: usb_reset_def usbd_ep_setup_def Let_def bindc_assoc block_append ubus_cmd_Done
      modc_cmd_Done getc_cmd_Done give_def typelookup_def set_ep_rx_bufsize_def rx_bufsize_def
      USBD_PM_TOP_def USB_DADDR_EF_def bindc_Done ubus_Done)

lemma btable_set_Done:
  assumes "pma_hw H" and "btable_set H 0 k v h = Done u h'"
  shows "\<exists>bt. h' = Stored W32 (btable_entry 0 0 k) (ucast v) # Loaded W32 USB_BTABLE_REG bt # h"
proof -
  from assms(2) obtain b g where g: "GET_REG H USB_BTABLE_REG h = Done b g"
    "SET_REG H (btable_entry b 0 k) v g = Done u h'" by (auto simp: btable_set_def bindc_eq_Done)
  from btable_value [OF assms(1) g(1)] g show ?thesis
    by (auto simp: GET_REG_def SET_REG_def bindc_def load_def store_def give_def split: option.splits)
qed

lemma reset_layout:
  assumes H: "pma_hw H" and e: "usb_reset H s = Done u s'"
  shows "usb_pm_top s' = 0xC0"
    and "last_stored (btable_entry 0 0 0) (io (dfu_part s')) = Some 0x40"
    and "last_stored (btable_entry 0 0 4) (io (dfu_part s')) = Some 0x80"
    and "last_stored (btable_entry 0 0 6) (io (dfu_part s')) = Some 0x8800"
    and "last_stored USB_DADDR_REG (io (dfu_part s')) = Some 0x80"
proof -
  from reset_run [OF e] obtain h1 h2 h3 h4 h5 h6 h7 where
    1: "USB_SET_EP_TX_ADDR H 0 0x40 h1 = Done () h2" and
    2: "block [USB_CLR_EP_TX_DTOG H 0, USB_SET_EP_TX_STAT H 0 USB_EP_TX_STAT_NAK] h2 = Done () h3" and
    3: "USB_SET_EP_RX_ADDR H 0 0x80 h3 = Done () h4" and
    4: "USB_SET_EP_RX_COUNT H 0 0x8800 h4 = Done () h5" and
    5: "block [USB_CLR_EP_RX_DTOG H 0, USB_SET_EP_RX_STAT H 0 USB_EP_RX_STAT_VALID] h5 = Done () h6" and
    6: "SET_REG H USB_DADDR_REG 0x80 h6 = Done () (io (dfu_part s'))"
    by (auto simp: bindc_eq_Done give_def)
  have ne: "btable_entry 0 0 k \<noteq> USB_EP_REG 0" "btable_entry 0 0 k \<noteq> USB_DADDR_REG"
    if "k = 0 \<or> k = 4 \<or> k = 6" for k
    using that by (auto simp: btable_entry_def reg_defs)
  have k2: "last_stored a h3 = last_stored a h2" "last_stored a h6 = last_stored a h5"
    if "a \<noteq> USB_EP_REG 0" for a
    by (rule lv.unchanged [OF lv.leaves_list 2] lv.unchanged [OF lv.leaves_list 5];
      simp add: lv_toggles [OF that])+
  note s3 = btable_set_Done [OF H 1 [unfolded USB_SET_EP_TX_ADDR_def]]
    btable_set_Done [OF H 3 [unfolded USB_SET_EP_RX_ADDR_def]]
    btable_set_Done [OF H 4 [unfolded USB_SET_EP_RX_COUNT_def]]
  have d: "io (dfu_part s') = Stored W32 USB_DADDR_REG 0x80 # h6"
    using 6 by (auto simp: SET_REG_def store_def split: option.splits)
  have e: "btable_entry 0 0 0 \<noteq> btable_entry 0 0 4" "btable_entry 0 0 0 \<noteq> btable_entry 0 0 6"
    "btable_entry 0 0 4 \<noteq> btable_entry 0 0 6" by (simp_all add: btable_entry_def)
  show "usb_pm_top s' = 0xC0" using reset_run [OF \<open>usb_reset H s = Done u s'\<close>] ..
  show "last_stored USB_DADDR_REG (io (dfu_part s')) = Some 0x80" by (simp add: d)
  show "last_stored (btable_entry 0 0 0) (io (dfu_part s')) = Some 0x40"
    "last_stored (btable_entry 0 0 4) (io (dfu_part s')) = Some 0x80"
    "last_stored (btable_entry 0 0 6) (io (dfu_part s')) = Some 0x8800"
    using s3 e k2 [OF ne(1)] ne(2) by (auto simp: d)
qed

end
