(* ===== verification/PropsUsb.thy ===== *)
theory PropsUsb
  imports BoardSim UsbCtl
begin

text \<open>
  The properties of the USB control endpoint: the register macros, the packet memory, the
  data stages, the replies and the bus reset, each with a concrete instance.
\<close>

section \<open>Receiving\<close>

text \<open>The states of the control endpoint: from start-up by polls.\<close>

inductive usb_reach :: "config \<Rightarrow> hw \<Rightarrow> usb \<Rightarrow> bool" for C :: config and H :: hw where
  boot: "usb_reach C H (usb_boot h)"
| poll: "usb_reach C H s \<Longrightarrow> do_usb_poll C H s = Done x s' \<Longrightarrow> usb_reach C H s'"

interpretation anyp: write_policy "\<lambda>_. True"
  by unfold_locales simp_all

lemma usb_reach_ok:
  assumes "pma_hw H" "stable_count H" "top_page_faults H" and "usb_reach C H s"
  shows "usb_base s \<and> out_ok s"
  using assms(4)
proof (induction rule: usb_reach.induct)
  case (boot h)
  then show ?case
    by (simp add: usb_base_boot) (simp add: out_ok_def receiving_def usb_boot_def)
next
  case (poll s x s')
  have "usb_safe (\<lambda>_. True) s'"
    by (rule keeps_Done [OF anyp.safe_poll [OF assms(1,3)] _ poll(2)])
      (use poll(3) in \<open>simp add: usb_safe_def list_all_iff\<close>)
  then show ?case
    using poll_keeps_bound [OF assms(1,2) _ _ poll(2)] poll(3) by (simp add: usb_safe_def)
qed

text \<open>
  C11: In every state the control endpoint reaches by polling, the buffers have their sizes,
  and while data is being received the amount received is at most the announced length,
  which is at most the size of the control buffer, provided the buffer table is at its place
  and the hardware does not change the byte count between the two reads of one expression.
\<close>

theorem received_within_announced:
  assumes "pma_hw H" "stable_count H" "top_page_faults H" and "usb_reach C H s"
  shows "length (ctl_buffer s) = DFU_TRANSFER_SIZE \<and> length (usb_force_nak s) = 8 \<and>
    (receiving s \<longrightarrow> unat (datasize s) \<le> unat (wLength (usb_req s)) \<and>
       unat (wLength (usb_req s)) \<le> DFU_TRANSFER_SIZE)"
  using usb_reach_ok [OF assms]
  by (auto simp: usb_base_def dfu_ok_def out_ok_def ctl_buffer_def)

lemma factory_poll: "\<exists>s. do_usb_poll flash_config factory_board (usb_boot []) = Done () s"
proof -
  have "factory_board h (Load W32 USB_ISTR_REG) = Some 0" for h
    by (simp add: factory_board_def reg_defs in_flash_def)
  moreover have "\<exists>v. factory_board h (Load W32 USB_CNTR_REG) = Some v" for h
    by (simp add: factory_board_def reg_defs)
  moreover have "factory_board h (Store W32 a v) = Some 0" for h a v
    by (simp add: factory_board_def)
  ultimately show ?thesis
    by (auto simp: do_usb_poll_def GET_REG_def ubus_def on_dfu_def bus_def zoom_def bindc_def
        load_def store_def give_def and32_def split: option.splits)
qed

lemma received_within_announced_witness:
  "\<exists>s. usb_reach flash_config factory_board s \<and> length (ctl_buffer s) = DFU_TRANSFER_SIZE"
proof -
  from factory_poll obtain s where "do_usb_poll flash_config factory_board (usb_boot []) = Done () s" ..
  with usb_reach.poll [OF usb_reach.boot] have r: "usb_reach flash_config factory_board s" by blast
  with received_within_announced [OF factory_hw(3,4,5) r] show ?thesis by blast
qed

text \<open>
  C24: Receiving one packet never leaves the control buffer: from a state that satisfies the
  bound it either faults on the bus or returns; a packet of the wrong length ends the
  transfer, otherwise the amount received grows by the packet length and keeps the bound.
\<close>

theorem receive_packet_bounds:
  assumes "pma_hw H" "stable_count H" and "usb_base s" "out_ok s" "receiving s"
  shows "case usb_control_recv_chunk H s of
     Done r s' \<Rightarrow> usb_base s' \<and> out_ok s' \<and>
       (case r of None \<Rightarrow> usb_fsm_state s' = IDLE
        | Some n \<Rightarrow> usb_fsm_state s' = usb_fsm_state s \<and> usb_req s' = usb_req s \<and>
            unat (datasize s') = unat (datasize s) + unat n)
   | Stopped r s' \<Rightarrow> r = BusFault"
  using assms by (rule recv_chunk_bounds)

definition out_stage :: usb where
  "out_stage = (usb_boot [])\<lparr>usb_fsm_state := DATA_OUT, usb_req := dnload_request 2 1024\<rparr>"

lemma out_stage_ok: "usb_base out_stage" "out_ok out_stage" "receiving out_stage"
  using usb_base_boot [of "[]"]
  by (simp_all add: out_stage_def usb_base_def out_ok_def receiving_def dnload_request_def
      usb_boot_def DFU_TRANSFER_SIZE_def)

lemma receive_packet_bounds_witness:
  "case usb_control_recv_chunk factory_board out_stage of
     Done r s' \<Rightarrow> usb_base s' \<and> out_ok s' | Stopped r s' \<Rightarrow> r = BusFault"
  using receive_packet_bounds [OF factory_hw(3,4) out_stage_ok]
  by (simp split: result.splits)

section \<open>Sending\<close>

text \<open>
  C12: The IN data stage sends the reply as its packets: as many steps as the reply has
  packets hand exactly these packets to the endpoint, in order, and end the data stage. The
  packets concatenate to the reply, none is longer than 64 bytes, all but the last have 64
  bytes, and a reply of a multiple of 64 bytes ends with an empty packet exactly when the
  zero-length-packet flag is set.
\<close>

theorem reply_sent_in_packets:
  assumes "reply_in_buffer s" "pending s \<noteq> []"
    and "usb_needs_zlp s \<noteq> 0 \<longrightarrow> length (pending s) mod 64 = 0"
    and "ps = in_packets (pending s) (usb_needs_zlp s \<noteq> 0)"
    and "block (replicate (length ps) (usb_control_send_chunk H)) s = Done u s'"
  shows "write_packets H ps (io (dfu_part s)) = Done () (io (dfu_part s')) \<and>
    usb_fsm_state s' = LAST_DATA_IN \<and> concat ps = pending s \<and>
    (\<forall>p \<in> set ps. length p \<le> max_packet) \<and> (\<forall>p \<in> set (butlast ps). length p = max_packet) \<and>
    (length (pending s) mod 64 = 0 \<longrightarrow> (last ps = [] \<longleftrightarrow> usb_needs_zlp s \<noteq> 0))"
proof -
  let ?z = "usb_needs_zlp s \<noteq> 0"
  have "\<forall>p \<in> set ps. length p \<le> max_packet" "\<forall>p \<in> set (butlast ps). length p = max_packet"
    using in_packets_size [of _ "pending s" ?z] in_packets_butlast [of _ "pending s" ?z] assms(2-4)
    by auto
  then show ?thesis
    using send_chunks_write [OF assms(1,4,5)] in_packets_concat [of "pending s" ?z]
      in_packets_last [OF assms(2), of ?z] assms(4) by simp
qed

definition in_stage :: usb where
  "in_stage = (usb_boot [])\<lparr>usb_fsm_state := DATA_IN, datasize := 100\<rparr>"

text \<open>A peripheral whose registers read zero\<close>

definition zero_board :: hw where
  "zero_board h x = Some 0"

lemma zero_tx_free: "tx_free zero_board"
  by (simp add: tx_free_def zero_board_def USB_EP_TX_STAT_def USB_EP_TX_STAT_VALID_def)

lemma reply_sent_in_packets_witness:
  "\<exists>s'. block (replicate 2 (usb_control_send_chunk zero_board)) in_stage = Done () s' \<and>
    write_packets zero_board [replicate 64 0, replicate 36 0] [] = Done () (io (dfu_part s'))"
proof -
  have l: "length (ctl_buffer in_stage) = 1024" "unat (dataoff in_stage) = 0" "unat (datasize in_stage) = 100"
    "usb_needs_zlp in_stage = 0" "ctl_buffer in_stage = replicate 1024 0" "io (dfu_part in_stage) = []"
    by (simp_all add: in_stage_def usb_boot_def ctl_buffer_def dfu_init_def DFU_TRANSFER_SIZE_def)
  have r: "reply_in_buffer in_stage" by (simp add: reply_in_buffer_def l)
  have ps: "[replicate 64 0, replicate 36 0] = in_packets (pending in_stage) (usb_needs_zlp in_stage \<noteq> 0)"
    by (simp add: pending_def l in_packets.simps)
  have p: "pending in_stage \<noteq> []" by (simp add: pending_def l)
  obtain s1 where s1: "usb_control_send_chunk zero_board in_stage = Done () s1"
    "dataoff s1 = dataoff in_stage + 64" "datasize s1 = datasize in_stage - 64"
    "ctl_buffer s1 = ctl_buffer in_stage"
    using chunk_advances [OF zero_tx_free, of in_stage] by (auto simp: l)
  have r1: "reply_in_buffer s1"
    by (simp add: s1 reply_in_buffer_def l) (simp add: in_stage_def usb_boot_def)
  obtain s2 where s2: "usb_control_send_chunk zero_board s1 = Done () s2"
    using send_chunk_finishes [OF zero_tx_free r1] by blast
  have "block (replicate (length [replicate 64 0, replicate 36 (0 :: u8)])
      (usb_control_send_chunk zero_board)) in_stage = Done () s2"
    by (simp add: bindc_def s1 s2 give_def)
  from reply_sent_in_packets [OF r p _ ps this] this show ?thesis by (simp add: l numeral_2_eq_2)
qed

text \<open>
  C29: A class request that prepares no reply (CLRSTATUS, ABORT, DETACH), sent as an IN
  request with a length above 1088, makes the control endpoint send from beyond the end of
  the control buffer: the reply length stays at the length the host announced, and the
  seventeenth packet is read outside the buffer.
\<close>

theorem class_reply_leaves_buffer:
  assumes "tx_free H" and "bmRequestType (usb_req s) = 0xA1"
    and "dfu_req_of (bRequest (usb_req s)) \<in> {Some DFU_CLRSTATUS, Some DFU_ABORT, Some DFU_DETACH}"
    and "1088 < unat (wLength (usb_req s))" and "length (ctl_buffer s) = DFU_TRANSFER_SIZE"
  shows "\<exists>s'. block (usb_control_setup_read C H # replicate 16 (usb_control_send_chunk H)) s =
    Stopped OutOfBounds s'"
  using assms by (intro class_reply_overruns) (simp_all add: DFU_TRANSFER_SIZE_def)

definition clrstatus_in :: usb where
  "clrstatus_in = (usb_boot [])\<lparr>usb_req :=
     \<lparr>bmRequestType = 0xA1, bRequest = 4, wValue = 0, wIndex = 0, wLength = 4096\<rparr>\<rparr>"

lemma class_reply_leaves_buffer_witness:
  "\<exists>s'. block (usb_control_setup_read flash_config zero_board #
      replicate 16 (usb_control_send_chunk zero_board)) clrstatus_in = Stopped OutOfBounds s'"
proof -
  have "bmRequestType (usb_req clrstatus_in) = 0xA1"
    "dfu_req_of (bRequest (usb_req clrstatus_in)) \<in> {Some DFU_CLRSTATUS, Some DFU_ABORT, Some DFU_DETACH}"
    "1088 < unat (wLength (usb_req clrstatus_in))" "length (ctl_buffer clrstatus_in) = DFU_TRANSFER_SIZE"
    by (simp_all add: clrstatus_in_def dfu_req_of_def usb_boot_def ctl_buffer_def dfu_init_def)
  from class_reply_leaves_buffer [OF zero_tx_free this] show ?thesis .
qed

section \<open>Registers and packet memory\<close>

text \<open>
  C28: The status macros for endpoint registers, through the documented effect of a write
  (ones invert toggle bits, zeros clear the CTR bits): setting the receive or transmit status
  to a value changes exactly that field, and clearing a CTR bit clears exactly that bit,
  whatever the register held.
\<close>

theorem endpoint_macros:
  "(USB_SET_EP_RX_STAT H ep (st AND USB_EP_RX_STAT) h = Done () h1 \<longrightarrow>
      (\<exists>r w. h1 = Stored W32 (USB_EP_REG ep) w # Loaded W32 (USB_EP_REG ep) r # h \<and>
        ep_write (ucast r) (ucast w) = (ucast r AND NOT USB_EP_RX_STAT) OR (st AND USB_EP_RX_STAT))) \<and>
   (USB_SET_EP_TX_STAT H ep (st AND USB_EP_TX_STAT) h = Done () h1 \<longrightarrow>
      (\<exists>r w. h1 = Stored W32 (USB_EP_REG ep) w # Loaded W32 (USB_EP_REG ep) r # h \<and>
        ep_write (ucast r) (ucast w) = (ucast r AND NOT USB_EP_TX_STAT) OR (st AND USB_EP_TX_STAT))) \<and>
   (USB_CLR_EP_RX_CTR H ep h = Done () h1 \<longrightarrow>
      (\<exists>r w. h1 = Stored W32 (USB_EP_REG ep) w # Loaded W32 (USB_EP_REG ep) r # h \<and>
        ep_write (ucast r) (ucast w) = ucast r AND NOT USB_EP_RX_CTR)) \<and>
   (USB_CLR_EP_TX_CTR H ep h = Done () h1 \<longrightarrow>
      (\<exists>r w. h1 = Stored W32 (USB_EP_REG ep) w # Loaded W32 (USB_EP_REG ep) r # h \<and>
        ep_write (ucast r) (ucast w) = ucast r AND NOT USB_EP_TX_CTR))"
proof -
  have u: "ucast (ucast (v :: u16) :: u32) = v" for v by simp
  have rd: "\<exists>r w. h1 = Stored W32 a w # Loaded W32 a r # h \<and> ucast w = f (ucast r :: u16)"
    if "bindc (GET_REG H a) (\<lambda>v. SET_REG H a (f v)) h = Done () h1" for a f
    using that u
    by (auto simp: bindc_def GET_REG_def SET_REG_def load_def store_def give_def
        split: option.splits result.splits)
  show ?thesis
    unfolding USB_SET_EP_RX_STAT_def USB_SET_EP_TX_STAT_def USB_CLR_EP_RX_CTR_def
      USB_CLR_EP_TX_CTR_def TOG_SET_REG_BIT_MSK_AND_SET_def CLR_REG_BIT_MSK_AND_SET_def
    by (intro conjI impI; drule rd)
      (auto simp: ep_set_rx_stat ep_set_tx_stat ep_clr_rx_ctr ep_clr_tx_ctr)
qed

lemma endpoint_macros_witness:
  "\<exists>r w. USB_SET_EP_RX_STAT zero_board 0 (0x3000 AND USB_EP_RX_STAT) [] =
      Done () [Stored W32 (USB_EP_REG 0) w, Loaded W32 (USB_EP_REG 0) r] \<and>
    ep_write (ucast r) (ucast w) = (ucast r AND NOT USB_EP_RX_STAT) OR (0x3000 AND USB_EP_RX_STAT)"
proof -
  obtain h1 where e: "USB_SET_EP_RX_STAT zero_board 0 (0x3000 AND USB_EP_RX_STAT) [] = Done () h1"
    using tx_free_answers [OF zero_tx_free]
    by (simp add: USB_SET_EP_RX_STAT_def TOG_SET_REG_BIT_MSK_AND_SET_def GET_REG_def SET_REG_def
        bindc_def load_def store_def give_def zero_board_def)
  from conjunct1 [OF endpoint_macros [of zero_board 0 "0x3000" "[]" h1], rule_format, OF e] e
  show ?thesis by blast
qed

text \<open>
  C20: The unrolled copies between RAM and packet memory do what the copy of one half word
  at a time does: two bytes per word, low byte first, an odd last byte alone, the same
  accesses in the same order.
\<close>

theorem packet_copies_reference:
  assumes "unat len \<le> length buf"
  shows "st_usbfs_copy_to_pm H base buf len = store_words H base 0 (pm_words (take (unat len) buf)) \<and>
    st_usbfs_copy_from_pm H base len = load_pm H base 0 (unat len div 2) (odd (unat len))"
  using copy_to_reference [OF assms] copy_from_reference by blast

lemma packet_copies_reference_witness:
  "st_usbfs_copy_to_pm zero_board 0x40006000 [1, 2, 3, 4, 5] 5 =
    store_words zero_board 0x40006000 0 [le16 1 2, le16 3 4, 5]"
proof -
  have n: "unat (5 :: u16) = length [1, 2, 3, 4, 5 :: u8]" by simp
  have "pm_words [1, 2, 3, 4, 5] = [le16 1 2, le16 3 4, 5]" by simp
  with packet_copies_reference [of 5 "[1, 2, 3, 4, 5]" zero_board "0x40006000"] show ?thesis
    by (simp only: n take_all_iff [THEN iffD2] order_refl simp_thms)
qed

text \<open>
  C34: A packet survives the packet memory: where the memory holds the half words of a packet
  as the copy to it lays them out, the copy from it returns exactly the bytes of the packet.
\<close>

theorem packet_roundtrip:
  assumes "holds_packet H base (pm_words xs)" and "length xs < 65536"
  shows "\<exists>h'. st_usbfs_copy_from_pm H base (of_nat (length xs)) h = Done xs h'"
  using assms by (rule copy_from_packet)

definition packet_board :: hw where
  "packet_board h x = (case x of
       Load W16 a \<Rightarrow> Some (if a = 0x40006080 then 0x0201 else if a = 0x40006084 then 3 else 0)
     | Load W8 a \<Rightarrow> Some (if a = 0x40006084 then 3 else 1)
     | _ \<Rightarrow> Some 0)"

lemma packet_roundtrip_witness:
  "\<exists>h'. st_usbfs_copy_from_pm packet_board 0x40006080 3 [] = Done [1, 2, 3] h'"
proof -
  have "holds_packet packet_board 0x40006080 (pm_words [1, 2, 3])"
    by (auto simp: holds_packet_def less_Suc_eq PMA_WORD_def packet_board_def le16_def lo8_def)
  from packet_roundtrip [OF this, of "[]"] show ?thesis by simp
qed

section \<open>Enumeration\<close>

text \<open>
  C27: A bus reset, when it returns, leaves the packet memory laid out for endpoint 0: its
  transmit buffer at 0x40 and its receive buffer at 0x80, behind the buffer table, with the
  next free address at 0xC0, the receive count word 0x8800, and the device answering at
  address 0.
\<close>

theorem bus_reset_layout:
  assumes "pma_hw H" and "usb_reset H s = Done u s'"
  shows "usb_pm_top s' = 0xC0 \<and>
    last_stored (btable_entry 0 0 0) (io (dfu_part s')) = Some 0x40 \<and>
    last_stored (btable_entry 0 0 4) (io (dfu_part s')) = Some 0x80 \<and>
    last_stored (btable_entry 0 0 6) (io (dfu_part s')) = Some 0x8800 \<and>
    last_stored USB_DADDR_REG (io (dfu_part s')) = Some 0x80"
  using reset_layout [OF assms] by blast

lemma zero_reset: "\<exists>s'. usb_reset zero_board (usb_boot []) = Done () s'"
proof -
  have s: "store32 zero_board a v h = Done () (Stored W32 a v # h)"
    "load32 zero_board a h = Done 0 (Loaded W32 a 0 # h)" for a v h
    by (simp_all add: store_def load_def zero_board_def)
  show ?thesis
    by (simp add: usb_reset_def usbd_ep_setup_def Let_def typelookup_def ubus_def on_dfu_def bus_def
        zoom_def bindc_def modc_def getc_def give_def CLR_REG_BIT_def SET_REG_def GET_REG_def
        USB_SET_EP_ADDR_def USB_SET_EP_TYPE_def USB_SET_EP_TX_ADDR_def USB_CLR_EP_TX_DTOG_def
        USB_SET_EP_TX_STAT_def USB_SET_EP_RX_ADDR_def USB_CLR_EP_RX_DTOG_def USB_SET_EP_RX_STAT_def
        TOG_SET_REG_BIT_MSK_AND_SET_def btable_set_def set_ep_rx_bufsize_def USB_SET_EP_RX_COUNT_def s)
qed

lemma bus_reset_layout_witness:
  "\<exists>s'. usb_reset zero_board (usb_boot []) = Done () s' \<and> usb_pm_top s' = 0xC0"
proof -
  from zero_reset obtain s' where e: "usb_reset zero_board (usb_boot []) = Done () s'" ..
  have "pma_hw zero_board" by (simp add: pma_hw_def zero_board_def)
  from bus_reset_layout [OF this e] e show ?thesis by blast
qed

text \<open>
  C32: The host gets the strings the build declares: a request for one of the five string
  indices in US English returns a descriptor whose length byte and reply length are the
  number of bytes sent, followed by the characters in UTF-16, in the configured build and
  for every serial number the start-up code can produce.
\<close>

theorem string_requests:
  assumes "0 < i" "i \<le> 5" and "wIndex (usb_req s) = USB_LANGID_ENGLISH_US"
    and "length (ctl_buffer s) = DFU_TRANSFER_SIZE"
    and "strlen (usb_strings flash_config (serial_no s) ! (i - 1)) = Some n"
    and "i = 3 \<longrightarrow> n \<le> 24"
  shows "\<exists>s'. get_string_descriptor flash_config i s = Done USBD_REQ_HANDLED s' \<and>
    unat (datasize s') = 2 * n + 2 \<and>
    take (2 * n + 2) (ctl_buffer s') =
      [of_nat (2 * n + 2), USB_DT_STRING] @ wide (take n (usb_strings flash_config (serial_no s) ! (i - 1)))"
proof -
  have "i \<in> {1, 2, 3, 4, 5}" using assms(1,2) by auto
  then have "i \<noteq> 3 \<Longrightarrow> length (usb_strings flash_config (serial_no s) ! (i - 1)) \<le> 126"
    by (auto simp: usb_strings_def cstr_def version_str_def flash_config_def)
  then have n: "n \<le> 126" using strlen_SomeD [OF assms(5)] assms(6) by force
  have i: "i \<noteq> 0xEE" "i - 1 < length (usb_strings flash_config (serial_no s))"
    using assms(1,2) by (auto simp: usb_strings_def)
  have l: "length (take n (usb_strings flash_config (serial_no s) ! (i - 1))) = n"
    using strlen_SomeD [OF assms(5)] by simp
  from string_descriptor_reply [OF assms(1) i assms(3,5) n] assms(4) l show ?thesis
    by (simp add: DFU_TRANSFER_SIZE_def string_reply_def)
qed

lemma string_requests_witness:
  "\<exists>s'. get_string_descriptor flash_config 1 ((usb_boot [])\<lparr>usb_req :=
      (usb_req (usb_boot []))\<lparr>wIndex := 0x409\<rparr>\<rparr>) = Done USBD_REQ_HANDLED s' \<and>
    unat (datasize s') = 16 \<and> take 16 (ctl_buffer s') = [16, 3] @ wide (map of_char ''ESTELAR'')"
proof -
  let ?s = "(usb_boot [])\<lparr>usb_req := (usb_req (usb_boot []))\<lparr>wIndex := 0x409\<rparr>\<rparr>"
  have a: "usb_strings flash_config (serial_no ?s) ! (1 - 1) = map of_char ''ESTELAR'' @ [0]"
    by (simp add: usb_strings_def cstr_def)
  have "strlen (map of_char ''ESTELAR'' @ [0]) = Some 7" by (simp add: of_char_def)
  moreover have "length (ctl_buffer ?s) = DFU_TRANSFER_SIZE" "wIndex (usb_req ?s) = USB_LANGID_ENGLISH_US"
    by (simp_all add: ctl_buffer_def usb_boot_def dfu_init_def USB_LANGID_ENGLISH_US_def)
  moreover have "take 7 (map of_char ''ESTELAR'' @ [0 :: u8]) = map of_char ''ESTELAR''" by simp
  ultimately show ?thesis
    using string_requests [of 1 ?s 7, unfolded a] by (simp add: USB_DT_STRING_def)
qed

section \<open>Descriptors\<close>

text \<open>How a host takes a configuration apart: by the length byte of each descriptor.\<close>

function descriptor_walk :: "u8 list \<Rightarrow> (u8 \<times> u8 list) list option" where
  "descriptor_walk bs =
     (if bs = [] then Some []
      else if length bs < 2 \<or> unat (bs ! 0) < 2 \<or> length bs < unat (bs ! 0) then None
      else map_option (Cons (bs ! 1, take (unat (bs ! 0)) bs)) (descriptor_walk (drop (unat (bs ! 0)) bs)))"
  by pat_completeness auto
termination
  by (relation "measure length") auto

declare descriptor_walk.simps [simp del]

lemma descriptor_walk_append:
  assumes "2 \<le> length d" and "unat (d ! 0) = length d"
  shows "descriptor_walk (d @ bs) = map_option (Cons (d ! 1, d)) (descriptor_walk bs)"
  using assms by (subst descriptor_walk.simps) (auto simp: nth_append)


end
