(* ===== verification/UsbPeriph.thy ===== *)
theory UsbPeriph
  imports UsbSafe Views
begin

text \<open>
  The USB peripheral and the host behind it, as the reference manual documents them (RM0008,
  23.4): endpoint register 0 with its toggle and write-zero bits, the packet memory, and the
  transactions a host carries out on the control endpoint. As for the flash controller,
  the device is a fold over the bus history, and a conforming bus is a hypothesis,
  \<open>usb_hw\<close>. The host is a script of transactions with pauses; it repeats a transaction the
  endpoint does not accept. Its transactions fall between two polls, each of which ends with
  a store to \<open>USB_CNTR\<close>.
\<close>

section \<open>The fields of an endpoint register\<close>

definition rx_stat :: "u16 \<Rightarrow> u16" where "rx_stat r = r AND USB_EP_RX_STAT"
definition tx_stat :: "u16 \<Rightarrow> u16" where "tx_stat r = r AND USB_EP_TX_STAT"
definition rx_ctr :: "u16 \<Rightarrow> bool" where "rx_ctr r \<longleftrightarrow> r AND USB_EP_RX_CTR \<noteq> 0"
definition tx_ctr :: "u16 \<Rightarrow> bool" where "tx_ctr r \<longleftrightarrow> r AND USB_EP_TX_CTR \<noteq> 0"
definition is_setup :: "u16 \<Rightarrow> bool" where "is_setup r \<longleftrightarrow> r AND USB_EP_SETUP \<noteq> 0"

definition put_rx :: "u16 \<Rightarrow> u16 \<Rightarrow> u16" where
  "put_rx st r = (r AND NOT USB_EP_RX_STAT) OR (st AND USB_EP_RX_STAT)"

definition put_tx :: "u16 \<Rightarrow> u16 \<Rightarrow> u16" where
  "put_tx st r = (r AND NOT USB_EP_TX_STAT) OR (st AND USB_EP_TX_STAT)"

definition clr_rx :: "u16 \<Rightarrow> u16" where "clr_rx r = r AND NOT USB_EP_RX_CTR"
definition clr_tx :: "u16 \<Rightarrow> u16" where "clr_tx r = r AND NOT USB_EP_TX_CTR"

lemma ctr_bits:
  "rx_ctr r \<longleftrightarrow> bit r 15" "tx_ctr r \<longleftrightarrow> bit r 7" "is_setup r \<longleftrightarrow> bit r 11"
  using and_exp_eq_0_iff_not_bit [of r 15] and_exp_eq_0_iff_not_bit [of r 7]
    and_exp_eq_0_iff_not_bit [of r 11]
  by (simp_all add: rx_ctr_def tx_ctr_def is_setup_def ep_bits)

lemmas ep_fields = rx_stat_def tx_stat_def ctr_bits put_rx_def put_tx_def clr_rx_def clr_tx_def

lemma rx_stat_sets [simp]:
  "rx_stat (put_rx st r) = st AND USB_EP_RX_STAT" "rx_stat (put_tx st r) = rx_stat r"
  "rx_stat (clr_rx r) = rx_stat r" "rx_stat (clr_tx r) = rx_stat r"
  by (rule word16_eqI,
    auto simp: ep_fields ep_bits bit_or_iff bit_and_iff bit_not_iff)+

lemma tx_stat_sets [simp]:
  "tx_stat (put_tx st r) = st AND USB_EP_TX_STAT" "tx_stat (put_rx st r) = tx_stat r"
  "tx_stat (clr_rx r) = tx_stat r" "tx_stat (clr_tx r) = tx_stat r"
  by (rule word16_eqI,
    auto simp: ep_fields ep_bits bit_or_iff bit_and_iff bit_not_iff)+

lemma ctr_sets [simp]:
  "rx_ctr (put_rx st r) = rx_ctr r" "rx_ctr (put_tx st r) = rx_ctr r"
  "\<not> rx_ctr (clr_rx r)" "rx_ctr (clr_tx r) = rx_ctr r"
  "tx_ctr (put_rx st r) = tx_ctr r" "tx_ctr (put_tx st r) = tx_ctr r"
  "\<not> tx_ctr (clr_tx r)" "tx_ctr (clr_rx r) = tx_ctr r"
  by (auto simp: ep_fields ep_bits bit_or_iff bit_and_iff bit_not_iff)

section \<open>The peripheral\<close>

text \<open>
  Endpoint register 0, the packet memory by bus address, the address register, the packets
  the host has received, the latest first, and whether a bus reset waits to be handled.
\<close>

record periph =
  ep0r :: u16
  pma :: "u32 \<Rightarrow> u16"
  daddr :: u16
  host_got :: "u8 list list"
  resetting :: bool

text \<open>The transactions of a host on the control endpoint, and the reset of the bus.\<close>

datatype transaction = BusReset | Setup "u8 list" | Out "u8 list" | In

text \<open>The host's coming transactions; \<open>None\<close> is a pause.\<close>

type_synonym host = "transaction option list"

definition pma_slot :: "u32 \<Rightarrow> bool" where
  "pma_slot a \<longleftrightarrow> 0x40006000 \<le> a \<and> a < 0x40006400"

text \<open>Words at a base address, four bytes of address space each.\<close>

primrec pma_put :: "u32 \<Rightarrow> u16 list \<Rightarrow> (u32 \<Rightarrow> u16) \<Rightarrow> u32 \<Rightarrow> u16" where
  "pma_put base [] m = m"
| "pma_put base (w # ws) m = pma_put (base + 4) ws (m(base := w))"

primrec pma_get :: "u32 \<Rightarrow> nat \<Rightarrow> (u32 \<Rightarrow> u16) \<Rightarrow> u16 list" where
  "pma_get base 0 m = []"
| "pma_get base (Suc n) m = m base # pma_get (base + 4) n m"

text \<open>The buffers of endpoint 0, by the entries of the buffer table.\<close>

definition tx_base :: "periph \<Rightarrow> u32" where
  "tx_base F = USB_PMA_BASE + ucast (pma F (btable_entry 0 0 0)) * 2"

definition rx_base :: "periph \<Rightarrow> u32" where
  "rx_base F = USB_PMA_BASE + ucast (pma F (btable_entry 0 0 4)) * 2"

text \<open>What the host receives when the endpoint sends.\<close>

definition tx_packet :: "periph \<Rightarrow> u8 list" where
  "tx_packet F =
     (let n = unat (pma F (btable_entry 0 0 2) AND 0x3ff) in
      take n (concat (map bytes16 (pma_get (tx_base F) ((n + 1) div 2) (pma F)))))"

text \<open>The device takes part in transactions: no bus reset is pending, the function is enabled.\<close>

definition listening :: "periph \<Rightarrow> bool" where
  "listening F \<longleftrightarrow> \<not> resetting F \<and> daddr F AND USB_DADDR_EF \<noteq> 0"

text \<open>
  A SETUP is taken unless the endpoint is disabled or an earlier packet waits for the
  firmware; an OUT needs the receiver, an IN the transmitter to be VALID.
\<close>

definition accepts :: "periph \<Rightarrow> transaction \<Rightarrow> bool" where
  "accepts F t = (case t of
       BusReset \<Rightarrow> \<not> resetting F
     | Setup bs \<Rightarrow> listening F \<and> rx_stat (ep0r F) \<noteq> USB_EP_RX_STAT_DISABLED \<and> \<not> rx_ctr (ep0r F)
     | Out bs \<Rightarrow> listening F \<and> rx_stat (ep0r F) = USB_EP_RX_STAT_VALID \<and> \<not> rx_ctr (ep0r F)
     | In \<Rightarrow> listening F \<and> tx_stat (ep0r F) = USB_EP_TX_STAT_VALID \<and> \<not> tx_ctr (ep0r F))"

text \<open>A packet received: its words, and its length in the low bits of the count.\<close>

definition deliver :: "u8 list \<Rightarrow> periph \<Rightarrow> periph" where
  "deliver bs F = F\<lparr>pma := (pma_put (rx_base F) (pm_words bs) (pma F))
     (btable_entry 0 0 6 := (pma F (btable_entry 0 0 6) AND 0xFC00) OR of_nat (length bs))\<rparr>"

text \<open>
  After a transaction the direction's status is NAK and its CTR bit set; a SETUP makes both
  directions NAK and both data toggles one; the SETUP bit tells the kind of the last packet.
  A bus reset clears the endpoint register and the address.
\<close>

definition transact :: "transaction \<Rightarrow> periph \<Rightarrow> periph" where
  "transact t F = (case t of
       BusReset \<Rightarrow> F\<lparr>ep0r := 0, daddr := 0, resetting := True\<rparr>
     | Setup bs \<Rightarrow> (deliver bs F)\<lparr>ep0r := put_rx USB_EP_RX_STAT_NAK (put_tx USB_EP_TX_STAT_NAK (ep0r F))
         OR USB_EP_RX_CTR OR USB_EP_SETUP OR USB_EP_RX_DTOG OR USB_EP_TX_DTOG\<rparr>
     | Out bs \<Rightarrow> (deliver bs F)\<lparr>ep0r := (put_rx USB_EP_RX_STAT_NAK (ep0r F) XOR USB_EP_RX_DTOG)
         AND NOT USB_EP_SETUP OR USB_EP_RX_CTR\<rparr>
     | In \<Rightarrow> F\<lparr>ep0r := (put_tx USB_EP_TX_STAT_NAK (ep0r F) XOR USB_EP_TX_DTOG) OR USB_EP_TX_CTR,
         host_got := tx_packet F # host_got F\<rparr>)"

lemma listening_sets [simp]:
  "listening (F\<lparr>ep0r := r\<rparr>) = listening F" "listening (F\<lparr>pma := m\<rparr>) = listening F"
  "listening (F\<lparr>host_got := g\<rparr>) = listening F" "t \<noteq> BusReset \<Longrightarrow> listening (transact t F) = listening F"
  by (cases t; simp add: listening_def transact_def deliver_def)+

fun sie :: "periph \<times> host \<Rightarrow> periph \<times> host" where
  "sie (F, []) = (F, [])"
| "sie (F, None # r) = (F, r)"
| "sie (F, Some t # r) = (if accepts F t then (transact t F, r) else (F, Some t # r))"

text \<open>A store of the firmware.\<close>

definition usb_write :: "u32 \<Rightarrow> u16 \<Rightarrow> periph \<Rightarrow> periph" where
  "usb_write a v F =
     (if a = USB_EP_REG 0 then F\<lparr>ep0r := ep_write (ep0r F) v\<rparr>
      else if a = USB_DADDR_REG then F\<lparr>daddr := v\<rparr>
      else if a = USB_ISTR_REG then F\<lparr>resetting := resetting F \<and> v AND USB_ISTR_RESET \<noteq> 0\<rparr>
      else if pma_slot a then F\<lparr>pma := (pma F)(a := v)\<rparr>
      else F)"

fun usb_run :: "periph \<times> host \<Rightarrow> history \<Rightarrow> periph \<times> host" where
  "usb_run E [] = E"
| "usb_run E (Loaded w a v # h) = usb_run E h"
| "usb_run E (Stored w a v # h) =
     (if a = USB_CNTR_REG then sie (usb_run E h)
      else case usb_run E h of (F, sc) \<Rightarrow> (usb_write a (ucast v) F, sc))"

text \<open>
  The interrupt status: a bus reset, a transaction of endpoint 0 to be handled, and its
  direction. The reset bit is cleared by writing zero to it.
\<close>

definition istr_bits :: "periph \<Rightarrow> u16" where
  "istr_bits F =
     (if resetting F then USB_ISTR_RESET else 0) OR
     (if rx_ctr (ep0r F) then USB_ISTR_CTR OR USB_ISTR_DIR
      else if tx_ctr (ep0r F) then USB_ISTR_CTR else 0)"

text \<open>
  A conforming bus. The buffer table is at 0, its reset value. Of the interrupt status the
  bits CTR, RESET, DIR and EP_ID are given; the suspend, wake-up and frame bits may be
  anything.
\<close>

definition usb_hw :: "hw \<Rightarrow> periph \<times> host \<Rightarrow> bool" where
  "usb_hw H E \<longleftrightarrow> (\<forall>h. let F = fst (usb_run E h) in
     (\<exists>v. H h (Load W32 USB_ISTR_REG) = Some v \<and> ucast v AND 0x841F = istr_bits F) \<and>
     H h (Load W32 (USB_EP_REG 0)) = Some (ucast (ep0r F)) \<and>
     (\<forall>ep. ep < 8 \<longrightarrow> H h (Load W32 (USB_EP_REG ep)) \<noteq> None) \<and>
     H h (Load W32 USB_BTABLE_REG) = Some 0 \<and>
     H h (Load W32 USB_CNTR_REG) \<noteq> None \<and>
     (\<forall>a. pma_slot a \<longrightarrow>
        H h (Load W32 a) = Some (ucast (pma F a)) \<and> H h (Load W16 a) = Some (ucast (pma F a)) \<and>
        H h (Load W8 a) = Some (ucast (lo8 (pma F a)))) \<and>
     (\<forall>w a v. usb_range a \<longrightarrow> H h (Store w a v) \<noteq> None))"

interpretation uv: bystander "usb_run E" "\<lambda>w a. usb_range a" for E
proof
  fix w a v h assume "\<not> usb_range a"
  then have "a \<noteq> USB_EP_REG 0" "a \<noteq> USB_DADDR_REG" "a \<noteq> USB_CNTR_REG" "a \<noteq> USB_ISTR_REG"
    using usb_range_regs usb_range_ep by metis+
  moreover from \<open>\<not> usb_range a\<close> have "\<not> pma_slot a"
    by (auto simp: usb_range_def pma_slot_def word_le_nat_alt word_less_nat_alt)
  ultimately show "usb_run E (Stored w a v # h) = usb_run E h"
    by (simp add: usb_write_def split: prod.split)
qed simp

section \<open>The other devices\<close>

text \<open>
  The stores outside the peripheral and the two lamps on port C: all the other devices
  depend on.
\<close>

definition own :: "u32 \<Rightarrow> bool" where
  "own a \<longleftrightarrow> usb_range a \<or> a = GPIO_BSRR GPIOC"

lemma usb_range_own [simp]: "usb_range a \<Longrightarrow> own a"
  by (simp add: own_def)

primrec foreign :: "history \<Rightarrow> history" where
  "foreign [] = []"
| "foreign (e # h) = (case e of
      Stored w a v \<Rightarrow> (if own a then foreign h else e # foreign h)
    | Loaded w a v \<Rightarrow> foreign h)"

lemma foreign_foreign [simp]: "foreign (foreign h) = foreign h"
  by (induction h) (auto split: event.splits)

text \<open>A device whose state is a fold over its own stores.\<close>

locale device = bystander +
  assumes view_cong: "view h = view g \<Longrightarrow> view (Stored w a v # h) = view (Stored w a v # g)"
    and apart: "touches w a \<Longrightarrow> \<not> own a"
begin

lemma view_foreign [simp]: "view (foreign h) = view h"
proof (induction h)
  case (Cons e h)
  show ?case
  proof (cases e)
    case (Stored w a v)
    then show ?thesis
      using Cons apart [of w a] view_store [of w a v h] view_cong [of "foreign h" h w a v]
      by (cases "own a"; cases "touches w a") auto
  qed (simp add: view_load Cons)
qed simp

end

lemma not_own [simp]:
  "\<not> own (GPIO_BSRR SPI_SRAM_PORT)" "\<not> own SPI2_DR" "\<not> own FLASH_KEYR"
  "\<not> own FLASH_AR" "\<not> own FLASH_CR" "\<not> own stack_word"
  "\<not> own 0xE000ED0C" "in_flash a \<Longrightarrow> \<not> own a"
  by (auto simp: own_def usb_range_def reg_defs SPI_SRAM_PORT_def GPIOC_def in_flash_def word_less_nat_alt)

lemma not_own_usb [simp]: "\<not> own a \<Longrightarrow> \<not> usb_range a"
  by (simp add: own_def)

interpretation sd: device "sram_run S0" touches_sram for S0
proof
  fix w a v h g assume "sram_run S0 h = sram_run S0 g"
  then show "sram_run S0 (Stored w a v # h) = sram_run S0 (Stored w a v # g)"
    by (cases w) simp_all
next
  fix w a assume "touches_sram w a"
  then show "\<not> own a" by (cases w) auto
qed

interpretation pd: device "fpec_run F0" touches_fpec for F0
proof
  fix w a v h g assume "fpec_run F0 h = fpec_run F0 g"
  then show "fpec_run F0 (Stored w a v # h) = fpec_run F0 (Stored w a v # g)"
    by (cases w) simp_all
next
  fix w a assume "touches_fpec w a"
  then show "\<not> own a" by (cases w) auto
qed

interpretation kd: device "stack_run w0" "\<lambda>w a. a = stack_word" for w0
  by unfold_locales auto

end
