(* ===== verification/UsbEndpoint.thy ===== *)
theory UsbEndpoint
  imports UsbPeriph UsbOut
begin

text \<open>
  What the endpoint primitives of \<open>usb.c\<close> do to the peripheral: each register macro, and
  from them reading and writing a packet.
\<close>

section \<open>Two views of the history\<close>

text \<open>The stores to the other devices, and the peripheral with the host.\<close>

definition uview :: "periph \<times> host \<Rightarrow> history \<Rightarrow> history \<times> periph \<times> host" where
  "uview E h = (foreign h, usb_run E h)"

lemma uview_Loaded [simp]: "uview E (Loaded w a v # h) = uview E h"
  by (simp add: uview_def)

lemma uview_Stored:
  "usb_range a \<Longrightarrow> a \<noteq> USB_CNTR_REG \<Longrightarrow> uview E h = (G, F, sc) \<Longrightarrow>
   uview E (Stored w a v # h) = (G, usb_write a (ucast v) F, sc)"
  by (simp add: uview_def)

lemma eff_load:
  assumes "\<And>h. fst (usb_run E h) = F \<Longrightarrow> H h (Load w a) = Some v"
  shows "effect (uview E) (load H w a) (G, F, sc) v (G, F, sc)"
  unfolding effect_def
proof (intro allI impI)
  fix h assume h: "uview E h = (G, F, sc)"
  then have "H h (Load w a) = Some v" by (intro assms) (simp add: uview_def)
  with h show "\<exists>h'. load H w a h = Done v h' \<and> uview E h' = (G, F, sc)"
    by (simp add: load_def)
qed

lemma eff_store:
  assumes "usb_hw H E" and "usb_range a" and "a \<noteq> USB_CNTR_REG"
  shows "effect (uview E) (store H w a v) (G, F, sc) () (G, usb_write a (ucast v) F, sc)"
  by (rule effect_store)
    (use assms in \<open>auto simp: uview_Stored usb_hw_def Let_def\<close>)

section \<open>Registers\<close>

lemma eff_load_ep:
  assumes "usb_hw H E"
  shows "effect (uview E) (load32 H (USB_EP_REG 0)) (G, F, sc) (ucast (ep0r F)) (G, F, sc)"
  by (rule eff_load) (use assms in \<open>auto simp: usb_hw_def Let_def\<close>)

lemma eff_get_reg:
  assumes "effect (uview E) (load32 H a) V (ucast (v :: u16)) V'"
  shows "effect (uview E) (GET_REG H a) V v V'"
  unfolding GET_REG_def by (rule effect_bindc [OF assms]) (simp add: effect_give)

lemma eff_set_ep:
  assumes "usb_hw H E"
  shows "effect (uview E) (SET_REG H (USB_EP_REG 0) v) (G, F, sc) ()
    (G, F\<lparr>ep0r := ep_write (ep0r F) v\<rparr>, sc)"
  unfolding SET_REG_def
  using eff_store [OF assms, of "USB_EP_REG 0" W32 "ucast v" G F sc]
  by (simp add: usb_write_def) (simp add: reg_defs)

lemmas eff_get_ep = eff_get_reg [OF eff_load_ep]

text \<open>Read, modify, write of the endpoint register.\<close>

lemma eff_modify_ep:
  assumes "usb_hw H E" and "ep_write (ep0r F) (f (ep0r F)) = r"
  shows "effect (uview E) (bindc (GET_REG H (USB_EP_REG 0)) (\<lambda>v. SET_REG H (USB_EP_REG 0) (f v)))
    (G, F, sc) () (G, F\<lparr>ep0r := r\<rparr>, sc)"
  by (rule effect_bindc [OF eff_get_ep [OF assms(1)]])
    (use eff_set_ep [OF assms(1), of "f (ep0r F)" G F sc] assms(2) in simp)

lemma eff_rx_stat:
  assumes "usb_hw H E" and "st AND USB_EP_RX_STAT = st"
  shows "effect (uview E) (USB_SET_EP_RX_STAT H 0 st) (G, F, sc) ()
    (G, F\<lparr>ep0r := put_rx st (ep0r F)\<rparr>, sc)"
  unfolding USB_SET_EP_RX_STAT_def TOG_SET_REG_BIT_MSK_AND_SET_def put_rx_def
  by (rule eff_modify_ep [OF assms(1)]) (use ep_set_rx_stat [of "ep0r F" st] assms(2) in simp)

lemma eff_tx_stat:
  assumes "usb_hw H E" and "st AND USB_EP_TX_STAT = st"
  shows "effect (uview E) (USB_SET_EP_TX_STAT H 0 st) (G, F, sc) ()
    (G, F\<lparr>ep0r := put_tx st (ep0r F)\<rparr>, sc)"
  unfolding USB_SET_EP_TX_STAT_def TOG_SET_REG_BIT_MSK_AND_SET_def put_tx_def
  by (rule eff_modify_ep [OF assms(1)]) (use ep_set_tx_stat [of "ep0r F" st] assms(2) in simp)

lemma eff_clr_rx:
  assumes "usb_hw H E"
  shows "effect (uview E) (USB_CLR_EP_RX_CTR H 0) (G, F, sc) () (G, F\<lparr>ep0r := clr_rx (ep0r F)\<rparr>, sc)"
  unfolding USB_CLR_EP_RX_CTR_def CLR_REG_BIT_MSK_AND_SET_def clr_rx_def
  by (rule eff_modify_ep [OF assms(1)]) (rule ep_clr_rx_ctr)

lemma eff_clr_tx:
  assumes "usb_hw H E"
  shows "effect (uview E) (USB_CLR_EP_TX_CTR H 0) (G, F, sc) () (G, F\<lparr>ep0r := clr_tx (ep0r F)\<rparr>, sc)"
  unfolding USB_CLR_EP_TX_CTR_def CLR_REG_BIT_MSK_AND_SET_def clr_tx_def
  by (rule eff_modify_ep [OF assms(1)]) (rule ep_clr_tx_ctr)

section \<open>The packet memory\<close>

lemma pma_slot_entry [simp]: "k \<in> {0, 2, 4, 6} \<Longrightarrow> pma_slot (btable_entry 0 0 k)"
  by (auto simp: pma_slot_def btable_entry_def reg_defs)

lemma pma_slot_range: "pma_slot a \<Longrightarrow> usb_range a"
  by (simp add: pma_slot_def usb_range_def word_le_nat_alt word_less_nat_alt)

lemma pma_slot_apart: "pma_slot a \<Longrightarrow> a \<noteq> USB_CNTR_REG \<and> a \<noteq> USB_EP_REG 0 \<and> a \<noteq> USB_DADDR_REG \<and> a \<noteq> USB_ISTR_REG"
  by (auto simp: pma_slot_def reg_defs)

lemma eff_load_slot:
  assumes "usb_hw H E" and "pma_slot a"
  shows "effect (uview E) (load32 H a) (G, F, sc) (ucast (pma F a)) (G, F, sc)"
    and "effect (uview E) (load H W16 a) (G, F, sc) (ucast (pma F a)) (G, F, sc)"
    and "effect (uview E) (load H W8 a) (G, F, sc) (ucast (lo8 (pma F a))) (G, F, sc)"
  by (rule eff_load; use assms in \<open>auto simp: usb_hw_def Let_def\<close>)+

lemma eff_store_slot:
  assumes "usb_hw H E" and "pma_slot a"
  shows "effect (uview E) (store H w a v) (G, F, sc) () (G, F\<lparr>pma := (pma F)(a := ucast v)\<rparr>, sc)"
  using eff_store [OF assms(1) pma_slot_range [OF assms(2)], of w v G F sc] pma_slot_apart [OF assms(2)]
    assms(2) by (simp add: usb_write_def)

lemma eff_btable:
  assumes "usb_hw H E" and "k \<in> {0, 2, 4, 6}"
  shows "effect (uview E) (btable_get H 0 k) (G, F, sc) (pma F (btable_entry 0 0 k)) (G, F, sc)"
    and "effect (uview E) (btable_set H 0 k v) (G, F, sc) ()
      (G, F\<lparr>pma := (pma F)(btable_entry 0 0 k := v)\<rparr>, sc)"
proof -
  have b: "effect (uview E) (GET_REG H USB_BTABLE_REG) (G, F, sc) 0 (G, F, sc)"
    by (rule eff_get_reg, rule eff_load) (use assms(1) in \<open>auto simp: usb_hw_def Let_def\<close>)
  note slot = pma_slot_entry [OF assms(2)]
  show "effect (uview E) (btable_get H 0 k) (G, F, sc) (pma F (btable_entry 0 0 k)) (G, F, sc)"
    unfolding btable_get_def
    by (rule effect_bindc [OF b], rule eff_get_reg, rule eff_load_slot(1) [OF assms(1) slot])
  show "effect (uview E) (btable_set H 0 k v) (G, F, sc) ()
      (G, F\<lparr>pma := (pma F)(btable_entry 0 0 k := v)\<rparr>, sc)"
    unfolding btable_set_def SET_REG_def
    using eff_store_slot [OF assms(1) slot, of W32 "ucast v" G F sc]
    by (intro effect_bindc [OF b]) simp
qed

text \<open>The addresses a packet of \<open>n\<close> words occupies.\<close>

definition pma_room :: "u32 \<Rightarrow> nat \<Rightarrow> bool" where
  "pma_room base n \<longleftrightarrow> 0x40006000 \<le> unat base \<and> unat base + 4 * n \<le> 0x40006400"

lemma pma_room_slot: "pma_room base n \<Longrightarrow> 0 < n \<Longrightarrow> pma_slot base"
  by (auto simp: pma_room_def pma_slot_def word_le_nat_alt word_less_nat_alt)

lemma pma_room_next: "pma_room base (Suc n) \<Longrightarrow> pma_room (base + 4) n"
  using unat_add_u32 [of base 4] by (simp add: pma_room_def)

lemma PMA_WORD_Suc: "PMA_WORD base (Suc i) = PMA_WORD (base + 4) i"
  by (simp add: PMA_WORD_def algebra_simps)

lemma store_words_shift: "store_words H base (idx + k) ws = store_words H (base + 4 * of_nat k) idx ws"
proof (induction ws arbitrary: idx)
  case (Cons w ws)
  have "PMA_WORD base (idx + k) = PMA_WORD (base + 4 * of_nat k) idx"
    by (simp add: PMA_WORD_def algebra_simps)
  then show ?case using Cons [of "Suc idx"] by simp
qed simp

lemma eff_store_words:
  assumes "usb_hw H E"
  shows "pma_room base (length ws) \<Longrightarrow> effect (uview E) (store_words H base 0 ws) (G, F, sc) ()
    (G, F\<lparr>pma := pma_put base ws (pma F)\<rparr>, sc)"
proof (induction ws arbitrary: base F)
  case (Cons w ws)
  have s: "effect (uview E) (store16 H (PMA_WORD base 0) w) (G, F, sc) ()
      (G, F\<lparr>pma := (pma F)(base := w)\<rparr>, sc)"
    using eff_store_slot [OF assms pma_room_slot [OF Cons.prems], of W16 "ucast w" G F sc]
    by (simp add: store16_def PMA_WORD_def)
  have "effect (uview E) (store_words H base (Suc 0) ws) (G, F\<lparr>pma := (pma F)(base := w)\<rparr>, sc) ()
      (G, F\<lparr>pma := pma_put (base + 4) ws ((pma F)(base := w))\<rparr>, sc)"
    using Cons.IH [of "base + 4" "F\<lparr>pma := (pma F)(base := w)\<rparr>"] pma_room_next [of base] Cons.prems
      store_words_shift [of H base 0 1 ws] by (simp del: fun_upd_apply)
  then show ?case by (simp del: fun_upd_apply) (rule effect_bindc [OF s])
qed (simp add: effect_give)

lemma load_pm_shift: "load_pm H base (idx + k) n t = load_pm H (base + 4 * of_nat k) idx n t"
proof (induction n arbitrary: idx)
  case 0
  then show ?case by (simp add: PMA_WORD_def algebra_simps)
next
  case (Suc n)
  have "PMA_WORD base (idx + k) = PMA_WORD (base + 4 * of_nat k) idx"
    by (simp add: PMA_WORD_def algebra_simps)
  then show ?case using Suc [of "Suc idx"] by simp
qed

lemma eff_load_pm:
  assumes "usb_hw H E"
  shows "pma_room base (length (pm_words xs)) \<Longrightarrow>
    pma_get base (length (pm_words xs)) (pma F) = pm_words xs \<Longrightarrow>
    effect (uview E) (load_pm H base 0 (length xs div 2) (odd (length xs))) (G, F, sc) xs (G, F, sc)"
proof (induction xs arbitrary: base rule: pm_words.induct)
  case (1 a b xs)
  have l: "effect (uview E) (load16 H (PMA_WORD base 0)) (G, F, sc) (le16 a b) (G, F, sc)"
    using eff_load_slot(2) [OF assms pma_room_slot [OF "1.prems"(1)], of G F sc] "1.prems"(2)
    unfolding load16_def by (intro effect_bindc) (simp_all add: PMA_WORD_def, simp only: ucast_up_down effect_give)
  have "effect (uview E) (load_pm H (base + 4) 0 (length xs div 2) (odd (length xs))) (G, F, sc) xs (G, F, sc)"
    using "1.IH" [of "base + 4"] "1.prems" pma_room_next [of base] by simp
  then have r: "effect (uview E) (load_pm H base (Suc 0) (length xs div 2) (odd (length xs))) (G, F, sc) xs (G, F, sc)"
    using load_pm_shift [of H base 0 1] by simp
  show ?case
    by (simp, rule effect_bindc [OF l], rule effect_bindc [OF r]) (simp add: effect_give bytes16_le16)
next
  case (2 a)
  have "effect (uview E) (load8 H (PMA_WORD base 0)) (G, F, sc) a (G, F, sc)"
    using eff_load_slot(3) [OF assms pma_room_slot [OF "2.prems"(1)], of G F sc] "2.prems"(2)
    unfolding load8_def by (intro effect_bindc) (simp_all add: PMA_WORD_def lo8_def, simp only: ucast_up_down effect_give)
  then show ?case by (simp, rule effect_bindc) (simp add: effect_give)
qed (simp add: effect_give)

section \<open>The buffers of endpoint 0\<close>

text \<open>The layout the bus reset establishes: 64 bytes to send from 0x40, to receive from 0x80.\<close>

definition pma_layout :: "periph \<Rightarrow> bool" where
  "pma_layout F \<longleftrightarrow> pma F (btable_entry 0 0 0) = 0x40 \<and> pma F (btable_entry 0 0 4) = 0x80"

lemma layout_bases:
  assumes "pma_layout F"
  shows "tx_base F = 0x40006080" "rx_base F = 0x40006100"
  using assms by (simp_all add: pma_layout_def tx_base_def rx_base_def reg_defs)

lemma layout_ep [simp]: "pma_layout (F\<lparr>ep0r := r\<rparr>) = pma_layout F"
  by (simp add: pma_layout_def)

lemma layout_ext [simp]: "pma_layout (F\<lparr>host_got := x\<rparr>) = pma_layout F"
  by (simp add: pma_layout_def)

lemma pma_put_other:
  "pma_room base (length ws) \<Longrightarrow> unat a < unat base \<or> unat base + 4 * length ws \<le> unat a \<Longrightarrow>
   pma_put base ws m a = m a"
proof (induction ws arbitrary: base m)
  case (Cons w ws)
  have "unat (base + 4) = unat base + 4"
    using Cons.prems(1) unat_add_u32 [of base 4] by (simp add: pma_room_def)
  then have "pma_put (base + 4) ws (m(base := w)) a = (m(base := w)) a"
    using Cons.IH [of "base + 4"] pma_room_next [of base] Cons.prems by auto
  moreover have "a \<noteq> base" using Cons.prems by auto
  ultimately show ?case by simp
qed simp

lemma pma_get_cong:
  "pma_room base n \<Longrightarrow> (\<And>a. unat base \<le> unat a \<Longrightarrow> m a = m' a) \<Longrightarrow> pma_get base n m = pma_get base n m'"
proof (induction n arbitrary: base)
  case (Suc n)
  have "unat (base + 4) = unat base + 4"
    using Suc.prems(1) unat_add_u32 [of base 4] by (simp add: pma_room_def)
  then have "pma_get (base + 4) n m = pma_get (base + 4) n m'"
    using Suc.IH [of "base + 4"] pma_room_next [of base] Suc.prems by simp
  then show ?case using Suc.prems(2) by simp
qed simp

lemma pma_get_put: "pma_room base (length ws) \<Longrightarrow> pma_get base (length ws) (pma_put base ws m) = ws"
proof (induction ws arbitrary: base m)
  case (Cons w ws)
  have "unat (base + 4) = unat base + 4" and r: "pma_room (base + 4) (length ws)"
    using Cons.prems unat_add_u32 [of base 4] pma_room_next [of base] by (simp_all add: pma_room_def)
  then have "pma_put (base + 4) ws (m(base := w)) base = w"
    using pma_put_other [OF r, of base] by simp
  then show ?case using Cons.IH [OF r] by simp
qed simp

lemma count_bits:
  fixes c n :: u16
  assumes "n \<le> 0x3ff"
  shows "((c AND 0xFC00) OR n) AND 0x3ff = n"
proof (rule bit_word_eqI)
  fix k assume "k < LENGTH(16)"
  then have k: "k \<in> {0, 1, 2, 3, 4, 5, 6, 7, 8, 9, 10, 11, 12, 13, 14, 15}" by (intro upto_16) simp
  have "n < 2 ^ 10" using assms by (simp add: word_less_nat_alt word_le_nat_alt)
  then have "take_bit 10 n = n"
    by (simp add: word_unat_eq_iff unsigned_take_bit_eq take_bit_nat_eq_self_iff word_less_nat_alt)
  then have "bit n k \<longleftrightarrow> k < 10 \<and> bit n k" by (metis bit_take_bit_iff)
  with k show "bit (((c AND 0xFC00) OR n) AND 0x3ff) k = bit n k"
    by (auto simp: bit_or_iff bit_and_iff)
qed

text \<open>A packet the host has sent.\<close>

definition rx_packet :: "u8 list \<Rightarrow> periph \<Rightarrow> bool" where
  "rx_packet bs F \<longleftrightarrow> length bs \<le> 64 \<and>
     pma F (btable_entry 0 0 6) AND 0x3ff = of_nat (length bs) \<and>
     pma_get (rx_base F) (length (pm_words bs)) (pma F) = pm_words bs"

lemma room_64: "n \<le> 64 \<Longrightarrow> pma_room 0x40006080 ((n + 1) div 2)" "n \<le> 64 \<Longrightarrow> pma_room 0x40006100 ((n + 1) div 2)"
  by (simp_all add: pma_room_def)

lemma entries_below:
  "unat (btable_entry 0 0 0) < 0x40006080" "unat (btable_entry 0 0 2) < 0x40006080"
  "unat (btable_entry 0 0 4) < 0x40006080" "unat (btable_entry 0 0 6) < 0x40006080"
  by (simp_all add: btable_entry_def reg_defs)

lemma entries_apart:
  "btable_entry 0 0 0 \<noteq> btable_entry 0 0 2" "btable_entry 0 0 4 \<noteq> btable_entry 0 0 2"
  "btable_entry 0 0 0 \<noteq> btable_entry 0 0 6" "btable_entry 0 0 4 \<noteq> btable_entry 0 0 6"
  by (simp_all add: btable_entry_def reg_defs)

lemma deliver_layout:
  assumes "pma_layout F" and "length bs \<le> 64"
  shows "pma_layout (deliver bs F)" "rx_packet bs (deliver bs F)"
    and "ep0r (deliver bs F) = ep0r F" "daddr (deliver bs F) = daddr F" "host_got (deliver bs F) = host_got F"
proof -
  note room = room_64(2) [OF assms(2), folded length_pm_words]
  note base = layout_bases [OF assms(1)]
  have p: "pma_put 0x40006100 (pm_words bs) (pma F) a = pma F a" if "unat a < 0x40006080" for a
    by (rule pma_put_other [OF room]) (use that in simp)
  show l: "pma_layout (deliver bs F)"
    using assms(1) by (simp add: pma_layout_def deliver_def base entries_apart p entries_below)
  have n: "(of_nat (length bs) :: u16) \<le> 0x3ff"
    using assms(2) by (simp add: word_le_nat_alt unat_of_nat take_bit_eq_mod)
  have "pma_get 0x40006100 (length (pm_words bs)) (pma (deliver bs F)) =
      pma_get 0x40006100 (length (pm_words bs)) (pma_put 0x40006100 (pm_words bs) (pma F))"
    by (rule pma_get_cong [OF room]) (use entries_below in \<open>auto simp: deliver_def base\<close>)
  with pma_get_put [OF room] count_bits [OF n] assms(2) show "rx_packet bs (deliver bs F)"
    unfolding rx_packet_def layout_bases [OF l] by (simp add: deliver_def)
qed (simp_all add: deliver_def)

lemma rx_packet_ep [simp]: "rx_packet bs (F\<lparr>ep0r := r\<rparr>) = rx_packet bs F"
  by (simp add: rx_packet_def rx_base_def)

section \<open>Reading and writing a packet\<close>

lemma eff_fetch:
  assumes H: "usb_hw H E" and F: "pma_layout F" "rx_packet bs F" and len: "length bs \<le> unat len"
  shows "effect (uview E) (ep_fetch H 0 len) (G, F, sc) (of_nat (length bs), bs)
    (G, F\<lparr>ep0r := clr_rx (ep0r F)\<rparr>, sc)"
proof -
  have b: "length bs \<le> 64" using F(2) by (simp add: rx_packet_def)
  have c: "effect (uview E) (USB_GET_EP_RX_COUNT H 0) (G, F, sc) (pma F (btable_entry 0 0 6)) (G, F, sc)"
    unfolding USB_GET_EP_RX_COUNT_def by (rule eff_btable(1) [OF H]) simp
  have n: "pma F (btable_entry 0 0 6) AND 0x3ff = of_nat (length bs)"
    "unat (of_nat (length bs) :: u16) = length bs"
    using F(2) b by (simp_all add: rx_packet_def unat_of_nat take_bit_eq_mod)
  have e: "len = of_nat (length bs)" if "\<not> of_nat (length bs) < len"
    using that len n(2) by (simp add: word_less_nat_alt word_unat_eq_iff)
  have l: "effect (uview E) (rx_length H 0 len) (G, F, sc) (of_nat (length bs)) (G, F, sc)"
    unfolding rx_length_def
  proof (rule effect_bindc [OF c])
    show "effect (uview E) (if pma F (btable_entry 0 0 6) AND 0x3ff < len
        then bindc (USB_GET_EP_RX_COUNT H 0) (\<lambda>c'. give (c' AND 0x3ff)) else give len)
        (G, F, sc) (of_nat (length bs)) (G, F, sc)"
    proof (cases "of_nat (length bs) < len")
      case True
      have "effect (uview E) (bindc (USB_GET_EP_RX_COUNT H 0) (\<lambda>c'. give (c' AND 0x3ff)))
          (G, F, sc) (pma F (btable_entry 0 0 6) AND 0x3ff) (G, F, sc)"
        by (rule effect_bindc [OF c]) (rule effect_give)
      with True show ?thesis by (simp add: n)
    next
      case False
      with e show ?thesis by (simp add: n effect_give)
    qed
  qed
  have a: "effect (uview E) (USB_GET_EP_RX_BUFF H 0) (G, F, sc) 0x40006100 (G, F, sc)"
    unfolding USB_GET_EP_RX_BUFF_def
    by (rule effect_bindc [OF eff_btable(1) [OF H]])
      (use F(1) in \<open>simp_all add: pma_layout_def reg_defs effect_give\<close>)
  have r: "effect (uview E) (st_usbfs_copy_from_pm H 0x40006100 (of_nat (length bs))) (G, F, sc) bs (G, F, sc)"
    unfolding copy_from_reference n(2)
    by (rule eff_load_pm [OF H])
      (use F(2) room_64(2) [OF b] in \<open>simp_all add: rx_packet_def layout_bases [OF F(1)] length_pm_words\<close>)
  show ?thesis unfolding ep_fetch_def
    by (rule effect_bindc [OF l], rule effect_bindc [OF a], rule effect_bindc [OF r],
        rule effect_bindc [OF eff_clr_rx [OF H]], rule effect_give)
qed

lemma masked_ep: "ucast (r :: u16) AND ucast (m :: u16) = (ucast (k :: u16) :: u32) \<longleftrightarrow> r AND m = k"
  by (metis ucast_up_down(1) unsigned_and_eq)

text \<open>The peripheral after the firmware has handed a packet over.\<close>

definition tx_ready :: "u8 list \<Rightarrow> periph \<Rightarrow> periph" where
  "tx_ready bs F = F\<lparr>pma := (pma_put (tx_base F) (pm_words bs) (pma F))(btable_entry 0 0 2 := of_nat (length bs)),
     ep0r := put_tx USB_EP_TX_STAT_VALID (ep0r F)\<rparr>"

lemma eff_write_packet:
  assumes H: "usb_hw H E" and F: "pma_layout F" "tx_stat (ep0r F) \<noteq> USB_EP_TX_STAT_VALID"
    and l: "length bs \<le> 64"
  shows "effect (uview E) (usbd_ep_write_packet H 0 bs (of_nat (length bs))) (G, F, sc)
    (of_nat (length bs)) (G, tx_ready bs F, sc)"
proof -
  have n: "unat (of_nat (length bs) :: u16) = length bs" using l by (simp add: unat_of_nat take_bit_eq_mod)
  have c: "\<not> ucast (ep0r F) AND ucast USB_EP_TX_STAT = (ucast USB_EP_TX_STAT_VALID :: u32)"
    using F(2) by (simp add: masked_ep tx_stat_def)
  have a: "effect (uview E) (USB_GET_EP_TX_BUFF H 0) (G, F, sc) 0x40006080 (G, F, sc)"
    unfolding USB_GET_EP_TX_BUFF_def
    by (rule effect_bindc [OF eff_btable(1) [OF H]])
      (use F(1) in \<open>simp_all add: pma_layout_def reg_defs effect_give\<close>)
  have w: "effect (uview E) (st_usbfs_copy_to_pm H 0x40006080 bs (of_nat (length bs))) (G, F, sc) ()
      (G, F\<lparr>pma := pma_put 0x40006080 (pm_words bs) (pma F)\<rparr>, sc)"
    using eff_store_words [OF H, of "0x40006080" "pm_words bs"] room_64(1) [OF l] n
    by (simp add: copy_to_reference length_pm_words)
  have v: "USB_EP_TX_STAT_VALID AND USB_EP_TX_STAT = USB_EP_TX_STAT_VALID"
    by (simp add: ep_bits USB_EP_TX_STAT_VALID_def)
  let ?F1 = "F\<lparr>pma := pma_put 0x40006080 (pm_words bs) (pma F)\<rparr>"
  let ?F2 = "F\<lparr>pma := (pma_put 0x40006080 (pm_words bs) (pma F))(btable_entry 0 0 2 := of_nat (length bs))\<rparr>"
  have s: "effect (uview E) (USB_SET_EP_TX_COUNT H 0 (of_nat (length bs))) (G, ?F1, sc) () (G, ?F2, sc)"
    using eff_btable(2) [OF H, of 2 "of_nat (length bs)" G ?F1 sc] unfolding USB_SET_EP_TX_COUNT_def by simp
  have t: "effect (uview E) (USB_SET_EP_TX_STAT H 0 USB_EP_TX_STAT_VALID) (G, ?F2, sc) () (G, tx_ready bs F, sc)"
    using eff_tx_stat [OF H v, of G ?F2 sc] by (simp add: tx_ready_def layout_bases [OF F(1)])
  have b: "effect (uview E) (block [st_usbfs_copy_to_pm H 0x40006080 bs (of_nat (length bs)),
      USB_SET_EP_TX_COUNT H 0 (of_nat (length bs)), USB_SET_EP_TX_STAT H 0 USB_EP_TX_STAT_VALID])
      (G, F, sc) () (G, tx_ready bs F, sc)"
    by (rule effect_block_Cons [OF w], rule effect_block_Cons [OF s], rule effect_block_Cons [OF t],
        rule effect_block_Nil)
  have "effect (uview E) (bindc (USB_GET_EP_TX_BUFF H 0) (\<lambda>vPM. bindc (block
        [st_usbfs_copy_to_pm H vPM bs (of_nat (length bs)), USB_SET_EP_TX_COUNT H 0 (of_nat (length bs)),
         USB_SET_EP_TX_STAT H 0 USB_EP_TX_STAT_VALID]) (\<lambda>_. give (of_nat (length bs)))))
      (G, F, sc) (of_nat (length bs)) (G, tx_ready bs F, sc)"
    by (rule effect_bindc [OF a], rule effect_bindc [OF b], rule effect_give)
  then show ?thesis unfolding usbd_ep_write_packet_def Let_def and_zero_eq zero_and_eq
    by (intro effect_bindc [OF eff_load_ep [OF H]]) (simp only: c if_False)
qed

text \<open>What was handed over is what the host receives.\<close>

lemma words_of_bytes: "take (length bs) (concat (map bytes16 (pm_words bs))) = bs"
proof -
  have "lo8 (ucast a) = a" for a :: u8 by (rule bit_word_eqI) (simp add: lo8_def bit_ucast_iff)
  then show ?thesis by (induction bs rule: pm_words.induct) (simp_all add: bytes16_def)
qed

lemma tx_ready_packet:
  assumes "pma_layout F" and "length bs \<le> 64"
  shows "tx_packet (tx_ready bs F) = bs" "pma_layout (tx_ready bs F)"
proof -
  note room = room_64(1) [OF assms(2), folded length_pm_words]
  note base = layout_bases [OF assms(1)]
  have p: "pma_put 0x40006080 (pm_words bs) (pma F) a = pma F a" if "unat a < 0x40006080" for a
    by (rule pma_put_other [OF room]) (use that in simp)
  show l: "pma_layout (tx_ready bs F)"
    using assms(1) by (simp add: pma_layout_def tx_ready_def base entries_apart p entries_below)
  have n: "(of_nat (length bs) :: u16) \<le> 0x3ff" "unat (of_nat (length bs) :: u16) = length bs"
    using assms(2) by (simp_all add: word_le_nat_alt unat_of_nat take_bit_eq_mod)
  have k: "(of_nat (length bs) :: u16) AND 0x3ff = of_nat (length bs)" using count_bits [OF n(1), of 0] by simp
  have "pma_get 0x40006080 (length (pm_words bs)) (pma (tx_ready bs F)) =
      pma_get 0x40006080 (length (pm_words bs)) (pma_put 0x40006080 (pm_words bs) (pma F))"
    by (rule pma_get_cong [OF room]) (use entries_below in \<open>auto simp: tx_ready_def base\<close>)
  with pma_get_put [OF room] have
    g: "pma_get 0x40006080 (length (pm_words bs)) (pma (tx_ready bs F)) = pm_words bs" by simp
  have c: "unat (pma (tx_ready bs F) (btable_entry 0 0 2) AND 0x3ff) = length bs"
    using k n(2) by (simp add: tx_ready_def)
  show "tx_packet (tx_ready bs F) = bs"
    unfolding tx_packet_def Let_def c layout_bases [OF l] length_pm_words [symmetric] g
    by (rule words_of_bytes)
qed

end
