(* ===== verification/UsbPolls.thy ===== *)
theory UsbPolls
  imports UsbEndpoint
begin

text \<open>
  Polls against a host. \<open>ends\<close> is the total-correctness judgement on the views of the state;
  \<open>serves\<close> says what the device has done when the host has carried out a list of
  transactions, with pauses anywhere, over as many polls as the script takes.
\<close>

section \<open>Total correctness on a view\<close>

definition view_result :: "('s \<Rightarrow> 'v) \<Rightarrow> ('s, 'a) result \<Rightarrow> ('v, 'a) result" where
  "view_result run r = (case r of Done x s \<Rightarrow> Done x (run s) | Stopped q s \<Rightarrow> Stopped q (run s))"

definition ends :: "('s \<Rightarrow> 'v) \<Rightarrow> ('s, 'a) cmd \<Rightarrow> 'v \<Rightarrow> (('v, 'a) result \<Rightarrow> bool) \<Rightarrow> bool" where
  "ends run c V Q \<longleftrightarrow> (\<forall>s. run s = V \<longrightarrow> Q (view_result run (c s)))"

lemma ends_effect: "effect run c V x V' \<longleftrightarrow> ends run c V (\<lambda>r. r = Done x V')"
proof -
  have "(\<exists>s'. c s = Done x s' \<and> run s' = V') \<longleftrightarrow> view_result run (c s) = Done x V'" for s
    by (cases "c s") (auto simp: view_result_def)
  then show ?thesis by (simp add: effect_def ends_def)
qed

lemma ends_weaken: "ends run c V Q \<Longrightarrow> (\<And>r. Q r \<Longrightarrow> Q' r) \<Longrightarrow> ends run c V Q'"
  by (simp add: ends_def)

lemma ends_bind:
  assumes "ends run c V Q1" and "\<And>x V'. Q1 (Done x V') \<Longrightarrow> ends run (f x) V' Q"
    and "\<And>q V'. Q1 (Stopped q V') \<Longrightarrow> Q (Stopped q V')"
  shows "ends run (bindc c f) V Q"
  unfolding ends_def
proof (intro allI impI)
  fix s assume s: "run s = V"
  show "Q (view_result run (bindc c f s))"
  proof (cases "c s")
    case (Done x s')
    with assms(1) s have "Q1 (Done x (run s'))" by (auto simp: ends_def view_result_def dest: spec [of _ s])
    from assms(2) [OF this] Done show ?thesis by (simp add: ends_def bindc_def)
  next
    case (Stopped q s')
    with assms(1) s have "Q1 (Stopped q (run s'))" by (auto simp: ends_def view_result_def dest: spec [of _ s])
    from assms(3) [OF this] Stopped show ?thesis by (simp add: bindc_def view_result_def)
  qed
qed

lemma ends_after: "effect run c V x V' \<Longrightarrow> ends run (f x) V' Q \<Longrightarrow> ends run (bindc c f) V Q"
  unfolding ends_effect by (erule ends_bind) auto

lemma ends_give: "Q (Done x V) \<Longrightarrow> ends run (give x) V Q"
  by (simp add: ends_def give_def view_result_def)

lemma ends_block_after:
  "effect run c V () V' \<Longrightarrow> ends run (block cs) V' Q \<Longrightarrow> ends run (block (c # cs)) V Q"
  unfolding block.simps by (rule ends_after)

lemma effect_getc:
  "(\<And>s. run s = V \<Longrightarrow> f s = v) \<Longrightarrow> effect run (getc f) V v V"
  by (simp add: effect_def getc_def)

lemma effect_modc:
  "(\<And>s. run s = V \<Longrightarrow> run (f s) = V') \<Longrightarrow> effect run (modc f) V () V'"
  by (simp add: effect_def modc_def)

section \<open>The view of the device\<close>

text \<open>The state with only the stores to the other devices in its history, and the peripheral.\<close>

definition with_io :: "history \<Rightarrow> usb \<Rightarrow> usb" where
  "with_io h s = s\<lparr>dfu_part := (dfu_part s)\<lparr>io := h\<rparr>\<rparr>"

definition seen :: "usb \<Rightarrow> usb" where
  "seen s = with_io (foreign (io (dfu_part s))) s"

definition urun :: "periph \<times> host \<Rightarrow> usb \<Rightarrow> usb \<times> periph \<times> host" where
  "urun E s = (seen s, usb_run E (io (dfu_part s)))"

lemma io_with_io [simp]: "io (dfu_part (with_io h s)) = h"
  by (simp add: with_io_def)

lemma io_seen: "io (dfu_part (seen s)) = foreign (io (dfu_part s))"
  by (simp add: seen_def)

lemma with_io_fields [simp]:
  "usb_fsm_state (with_io h s) = usb_fsm_state s" "datasize (with_io h s) = datasize s"
  "dataoff (with_io h s) = dataoff s" "usb_needs_zlp (with_io h s) = usb_needs_zlp s"
  "usb_req (with_io h s) = usb_req s" "usb_force_nak (with_io h s) = usb_force_nak s"
  "usb_complete_cb (with_io h s) = usb_complete_cb s" "ctl_buffer (with_io h s) = ctl_buffer s"
  "serial_no (with_io h s) = serial_no s" "usb_base (with_io h s) = usb_base s"
  by (simp_all add: with_io_def ctl_buffer_def usb_base_def)

lemma seen_fields [simp]:
  "usb_fsm_state (seen s) = usb_fsm_state s" "datasize (seen s) = datasize s"
  "dataoff (seen s) = dataoff s" "usb_needs_zlp (seen s) = usb_needs_zlp s"
  "usb_req (seen s) = usb_req s" "usb_force_nak (seen s) = usb_force_nak s"
  "usb_complete_cb (seen s) = usb_complete_cb s" "ctl_buffer (seen s) = ctl_buffer s"
  "serial_no (seen s) = serial_no s" "usb_base (seen s) = usb_base s"
  by (simp_all add: seen_def)

lemma urunD: "urun E s = (T, P) \<Longrightarrow> T = seen s \<and> P = usb_run E (io (dfu_part s))"
  by (simp add: urun_def)

lemma eff_get:
  assumes "\<And>s. f (seen s) = f s" and "effect (urun E) (g (f T)) (T, P) y V"
  shows "effect (urun E) (bindc (getc f) g) (T, P) y V"
proof (rule effect_bindc)
  show "effect (urun E) (getc f) (T, P) (f T) (T, P)"
    by (rule effect_getc) (auto simp: urun_def assms(1))
qed (rule assms(2))

lemma ends_get:
  assumes "\<And>s. f (seen s) = f s" and "ends (urun E) (g (f T)) (T, P) Q"
  shows "ends (urun E) (bindc (getc f) g) (T, P) Q"
proof (rule ends_after)
  show "effect (urun E) (getc f) (T, P) (f T) (T, P)"
    by (rule effect_getc) (auto simp: urun_def assms(1))
qed (rule assms(2))

lemma eff_mod:
  assumes "\<And>s. seen (f s) = f (seen s)" and "\<And>s. io (dfu_part (f s)) = io (dfu_part s)"
  shows "effect (urun E) (modc f) (T, P) () (f T, P)"
  by (rule effect_modc) (auto simp: urun_def assms)

lemma eff_ubus:
  assumes "effect (uview E) c (io (dfu_part T), P) x (io (dfu_part T), P')"
  shows "effect (urun E) (ubus c) (T, P) x (T, P')"
  unfolding effect_def
proof (intro allI impI)
  fix s assume s: "urun E s = (T, P)"
  then have "uview E (io (dfu_part s)) = (io (dfu_part T), P)"
    using urunD by (fastforce simp: uview_def io_seen)
  with assms obtain h where h: "c (io (dfu_part s)) = Done x h" "uview E h = (io (dfu_part T), P')"
    by (auto simp: effect_def)
  from h(1) have "ubus c s = Done x (with_io h s)" by (simp add: ubus_Done with_io_def)
  moreover have "urun E (with_io h s) = (T, P')"
    using h(2) s by (auto simp: urun_def uview_def seen_def with_io_def)
  ultimately show "\<exists>s'. ubus c s = Done x s' \<and> urun E s' = (T, P')" by blast
qed

text \<open>A command of the class code that makes no access.\<close>

lemma eff_on_dfu:
  assumes "\<And>h. c ((dfu_part T)\<lparr>io := h\<rparr>) = Done x (D\<lparr>io := h\<rparr>)"
  shows "effect (urun E) (on_dfu c) (T, P) x (T\<lparr>dfu_part := D\<lparr>io := io (dfu_part T)\<rparr>\<rparr>, P)"
  unfolding effect_def
proof (intro allI impI)
  fix s assume "urun E s = (T, P)"
  then have T: "T = seen s" and P: "P = usb_run E (io (dfu_part s))" by (simp_all add: urun_def)
  have "(dfu_part T)\<lparr>io := io (dfu_part s)\<rparr> = dfu_part s"
    by (simp add: T seen_def with_io_def)
  then have c: "c (dfu_part s) = Done x (D\<lparr>io := io (dfu_part s)\<rparr>)"
    using assms [of "io (dfu_part s)"] by simp
  let ?s = "s\<lparr>dfu_part := D\<lparr>io := io (dfu_part s)\<rparr>\<rparr>"
  have "on_dfu c s = Done x ?s" using c by (simp add: on_dfu_def zoom_def)
  moreover have "urun E ?s = (T\<lparr>dfu_part := D\<lparr>io := io (dfu_part T)\<rparr>\<rparr>, P)"
    by (simp add: urun_def T P seen_def with_io_def)
  ultimately show "\<exists>s'. on_dfu c s = Done x s' \<and>
      urun E s' = (T\<lparr>dfu_part := D\<lparr>io := io (dfu_part T)\<rparr>\<rparr>, P)" by blast
qed

section \<open>One poll\<close>

text \<open>What a poll does about the transaction the peripheral has completed.\<close>

definition handler :: "config \<Rightarrow> hw \<Rightarrow> periph \<Rightarrow> (usb, unit) cmd" where
  "handler C H F =
     (if rx_ctr (ep0r F)
      then (if is_setup (ep0r F) then usbd_control_setup C H else usbd_control_out C H)
      else if tx_ctr (ep0r F) then block [ubus (USB_CLR_EP_TX_CTR H 0), usbd_control_in C H]
      else skip)"

lemma eff_cntr:
  assumes "usb_hw H E"
  shows "effect (uview E) (and32 H USB_CNTR_REG m) (G, P) () (G, sie P)"
  unfolding effect_def
proof (intro allI impI)
  fix h assume h: "uview E h = (G, P)"
  have "H h (Load W32 USB_CNTR_REG) \<noteq> None" using assms unfolding usb_hw_def Let_def by blast
  then obtain v where l: "H h (Load W32 USB_CNTR_REG) = Some v" by blast
  let ?h = "Loaded W32 USB_CNTR_REG v # h"
  have "H ?h (Store W32 USB_CNTR_REG (v AND m)) \<noteq> None"
    using assms usb_range_regs(1) unfolding usb_hw_def Let_def by blast
  with l have "and32 H USB_CNTR_REG m h = Done () (Stored W32 USB_CNTR_REG (v AND m) # ?h)"
    by (auto simp: and32_def load_def store_def bindc_def)
  moreover have "uview E (Stored W32 USB_CNTR_REG (v AND m) # ?h) = (G, sie P)"
    using h by (simp add: uview_def)
  ultimately show "\<exists>h'. and32 H USB_CNTR_REG m h = Done () h' \<and> uview E h' = (G, sie P)" by blast
qed

lemma eff_clear_istr:
  assumes "usb_hw H E" and "NOT m AND USB_ISTR_RESET \<noteq> 0"
  shows "effect (urun E) (if b then ubus (CLR_REG_BIT H USB_ISTR_REG m) else skip) (T, P) () (T, P)"
proof -
  obtain F sc where P: "P = (F, sc)" by (cases P)
  have "usb_write USB_ISTR_REG (NOT m) F = F"
    using assms(2) by (simp add: usb_write_def reg_defs)
  then have "effect (uview E) (CLR_REG_BIT H USB_ISTR_REG m) (G, P) () (G, P)" for G
    using eff_store [OF assms(1) usb_range_regs(2), of W32 "ucast (NOT m)" G F sc]
    unfolding CLR_REG_BIT_def SET_REG_def P by simp (simp add: reg_defs)
  then show ?thesis by (simp add: eff_ubus effect_give)
qed

lemma reset_bit_kept:
  "NOT USB_ISTR_SUSP AND USB_ISTR_RESET \<noteq> 0" "NOT USB_ISTR_WKUP AND USB_ISTR_RESET \<noteq> 0"
  "NOT USB_ISTR_SOF AND USB_ISTR_RESET \<noteq> 0"
  by (simp_all add: USB_ISTR_SUSP_def USB_ISTR_WKUP_def USB_ISTR_SOF_def USB_ISTR_RESET_def)

lemma istr_facts:
  fixes i :: u16
  assumes "i AND 0x841F = istr_bits F"
  shows "i AND USB_ISTR_RESET \<noteq> 0 \<longleftrightarrow> resetting F"
    and "i AND USB_ISTR_CTR \<noteq> 0 \<longleftrightarrow> rx_ctr (ep0r F) \<or> tx_ctr (ep0r F)"
    and "i AND USB_ISTR_DIR \<noteq> 0 \<longleftrightarrow> rx_ctr (ep0r F)" and "i AND USB_ISTR_EP_ID = 0"
proof -
  have a: "i AND m = (i AND 0x841F) AND m" if "0x841F AND m = m" for m
    using that by (simp add: and.assoc)
  show "i AND USB_ISTR_RESET \<noteq> 0 \<longleftrightarrow> resetting F" "i AND USB_ISTR_EP_ID = 0"
    "i AND USB_ISTR_CTR \<noteq> 0 \<longleftrightarrow> rx_ctr (ep0r F) \<or> tx_ctr (ep0r F)"
    "i AND USB_ISTR_DIR \<noteq> 0 \<longleftrightarrow> rx_ctr (ep0r F)"
    using a [of USB_ISTR_RESET] a [of USB_ISTR_CTR] a [of USB_ISTR_DIR] a [of USB_ISTR_EP_ID]
    by (auto simp: assms istr_bits_def USB_ISTR_RESET_def USB_ISTR_CTR_def USB_ISTR_DIR_def USB_ISTR_EP_ID_def)
qed

lemma poll_ends:
  assumes H: "usb_hw H E" and n: "\<not> resetting F" and h: "ends (urun E) (handler C H F) (T, F, sc) Q1"
    and d: "\<And>T' P'. Q1 (Done () (T', P')) \<Longrightarrow> Q (Done () (T', sie P'))"
    and q: "\<And>r V. Q1 (Stopped r V) \<Longrightarrow> Q (Stopped r V)"
  shows "ends (urun E) (do_usb_poll C H) (T, F, sc) Q"
  unfolding ends_def
proof (intro allI impI)
  fix s assume s: "urun E s = (T, F, sc)"
  let ?h = "io (dfu_part s)"
  have "F = fst (usb_run E ?h)" using s by (auto simp: urun_def)
  then obtain v where v: "H ?h (Load W32 USB_ISTR_REG) = Some v" "ucast v AND 0x841F = istr_bits F"
    using H unfolding usb_hw_def Let_def by blast
  let ?i = "ucast v :: u16"
  let ?s = "with_io (Loaded W32 USB_ISTR_REG v # ?h) s"
  have g: "ubus (GET_REG H USB_ISTR_REG) s = Done ?i ?s"
    using v(1) by (simp add: ubus_Done GET_REG_def load_def bindc_def give_def with_io_def)
  have s': "urun E ?s = (T, F, sc)" using s by (simp add: urun_def seen_def with_io_def)
  note i = istr_facts [OF v(2)]
  let ?mid = "if ?i AND USB_ISTR_CTR \<noteq> 0
        then (let ep = ucast (?i AND USB_ISTR_EP_ID) in
          if ?i AND USB_ISTR_DIR \<noteq> 0
          then bindc (ubus (load32 H (USB_EP_REG ep))) (\<lambda>r.
                 if r AND ucast USB_EP_SETUP \<noteq> 0
                 then usbd_control_setup C H else usbd_control_out C H)
          else block [ubus (USB_CLR_EP_TX_CTR H ep), usbd_control_in C H])
        else skip"
  let ?rest = "[if ?i AND USB_ISTR_SUSP \<noteq> 0 then ubus (CLR_REG_BIT H USB_ISTR_REG USB_ISTR_SUSP) else skip,
        if ?i AND USB_ISTR_WKUP \<noteq> 0 then ubus (CLR_REG_BIT H USB_ISTR_REG USB_ISTR_WKUP) else skip,
        if ?i AND USB_ISTR_SOF \<noteq> 0 then ubus (CLR_REG_BIT H USB_ISTR_REG USB_ISTR_SOF) else skip,
        ubus (and32 H USB_CNTR_REG (NOT USB_CNTR_SOFM))]"
  have run: "do_usb_poll C H s = block (?mid # ?rest) ?s"
    using g i(1) n by (simp only: do_usb_poll_def bindc_def [of "ubus (GET_REG H USB_ISTR_REG)"] result.case
        if_not_P not_not not_False_eq_True simp_thms)
  have su: "ucast (ep0r F) AND ucast USB_EP_SETUP \<noteq> (0 :: u32) \<longleftrightarrow> is_setup (ep0r F)"
    using masked_ep [of "ep0r F" USB_EP_SETUP 0] by (simp add: is_setup_def)
  have "ends (urun E) ?mid (T, F, sc) Q1"
  proof (cases "rx_ctr (ep0r F)")
    case True
    have l: "effect (urun E) (ubus (load32 H (USB_EP_REG 0))) (T, F, sc) (ucast (ep0r F)) (T, F, sc)"
      by (rule eff_ubus [OF eff_load_ep [OF H]])
    have "ends (urun E) (bindc (ubus (load32 H (USB_EP_REG 0))) (\<lambda>r.
        if r AND ucast USB_EP_SETUP \<noteq> 0 then usbd_control_setup C H else usbd_control_out C H)) (T, F, sc) Q1"
      by (rule ends_after [OF l]) (use h True in \<open>simp only: su handler_def if_True\<close>)
    with True show ?thesis by (simp add: i Let_def)
  next
    case False
    with h show ?thesis by (simp add: i Let_def handler_def split: if_splits)
  qed
  note mid = this
  have rest: "ends (urun E) (block ?rest) (T', P') Q" if "Q1 (Done () (T', P'))" for T' P'
    by (rule ends_block_after [OF eff_clear_istr [OF H reset_bit_kept(1)]],
        rule ends_block_after [OF eff_clear_istr [OF H reset_bit_kept(2)]],
        rule ends_block_after [OF eff_clear_istr [OF H reset_bit_kept(3)]],
        rule ends_block_after [OF eff_ubus [OF eff_cntr [OF H]]])
      (simp add: ends_give d [OF that])
  have "ends (urun E) (block (?mid # ?rest)) (T, F, sc) Q"
    unfolding block.simps(2) [of ?mid]
  proof (rule ends_bind [OF mid])
    fix x V assume "Q1 (Done x V)"
    then show "ends (urun E) (block ?rest) V Q" using rest by (cases V) simp
  qed (rule q)
  then show "Q (view_result (urun E) (do_usb_poll C H s))"
    unfolding run using s' by (simp only: ends_def)
qed

section \<open>Serving a host\<close>

type_synonym usb_view = "usb \<times> periph \<times> host"

text \<open>
  \<open>polled n V Q\<close>: in \<open>n\<close> polls the device comes from the view \<open>V\<close> to an outcome with \<open>Q\<close>,
  whatever else happens between the polls that the view does not show.
\<close>

primrec polled :: "config \<Rightarrow> hw \<Rightarrow> periph \<times> host \<Rightarrow> nat \<Rightarrow> usb_view \<Rightarrow>
    ((usb_view, unit) result \<Rightarrow> bool) \<Rightarrow> bool" where
  "polled C H E 0 V Q = Q (Done () V)"
| "polled C H E (Suc n) V Q = ends (urun E) (do_usb_poll C H) V (\<lambda>r. case r of
      Done _ V' \<Rightarrow> polled C H E n V' Q | Stopped q V' \<Rightarrow> Q (Stopped q V'))"

lemma polled_weaken:
  "polled C H E n V Q \<Longrightarrow> (\<And>r. Q r \<Longrightarrow> Q' r) \<Longrightarrow> polled C H E n V Q'"
proof (induction n arbitrary: V)
  case (Suc n)
  show ?case unfolding polled.simps
    by (rule ends_weaken [OF Suc.prems(1) [unfolded polled.simps]])
      (use Suc.IH Suc.prems(2) in \<open>auto split: result.splits\<close>)
qed simp

lemma polled_add:
  assumes "polled C H E m V Q1" and "\<And>V'. Q1 (Done () V') \<Longrightarrow> polled C H E n V' Q"
    and "\<And>q V'. Q1 (Stopped q V') \<Longrightarrow> Q (Stopped q V')"
  shows "polled C H E (m + n) V Q"
  using assms(1)
proof (induction m arbitrary: V)
  case 0
  with assms(2) show ?case by simp
next
  case (Suc m)
  show ?case unfolding add_Suc polled.simps
    by (rule ends_weaken [OF Suc.prems [unfolded polled.simps]])
      (use Suc.IH assms(3) in \<open>auto split: result.splits\<close>)
qed

lemma polled_first:
  assumes "effect (urun E) (do_usb_poll C H) V () V'" and "polled C H E n V' Q"
  shows "polled C H E (Suc n) V Q"
  unfolding polled.simps by (rule ends_weaken [OF assms(1) [unfolded ends_effect]]) (simp add: assms(2))

text \<open>The transactions of a script.\<close>

definition tokens :: "host \<Rightarrow> transaction list" where
  "tokens sc = List.map_filter (\<lambda>t. t) sc"

lemma tokens_simps [simp]:
  "tokens [] = []" "tokens (None # sc) = tokens sc" "tokens (Some t # sc) = t # tokens sc"
  "tokens (sc @ sc') = tokens sc @ tokens sc'"
  by (simp_all add: tokens_def List.map_filter_def)

lemma tokens_append:
  "tokens sc = ts @ us \<Longrightarrow> \<exists>s1 s2. sc = s1 @ s2 \<and> tokens s1 = ts \<and> tokens s2 = us"
proof (induction sc arbitrary: ts)
  case (Cons t sc)
  show ?case
  proof (cases t)
    case None
    with Cons obtain s1 s2 where "sc = s1 @ s2" "tokens s1 = ts" "tokens s2 = us" by fastforce
    with None show ?thesis by (intro exI [of _ "None # s1"] exI [of _ s2]) simp
  next
    case (Some x)
    show ?thesis
    proof (cases ts)
      case Nil
      with Cons.prems show ?thesis by (intro exI [of _ "[]"] exI [of _ "t # sc"]) simp
    next
      case (Cons y ys)
      with Cons.prems Some have "tokens sc = ys @ us" "y = x" by simp_all
      with Cons.IH obtain s1 s2 where "sc = s1 @ s2" "tokens s1 = ys" "tokens s2 = us" by blast
      with Some Cons \<open>y = x\<close> show ?thesis by (intro exI [of _ "Some x # s1"] exI [of _ s2]) simp
    qed
  qed
qed simp

text \<open>The polls a script takes: one for an entry, and one more to handle a bus reset.\<close>

definition turns_of :: "host \<Rightarrow> nat" where
  "turns_of sc = length sc + length (filter (\<lambda>t. t = Some BusReset) sc)"

lemma turns_of_simps [simp]:
  "turns_of [] = 0" "turns_of (None # sc) = Suc (turns_of sc)"
  "turns_of (Some t # sc) = (if t = BusReset then Suc (Suc (turns_of sc)) else Suc (turns_of sc))"
  "turns_of (sc @ sc') = turns_of sc + turns_of sc'"
  by (simp_all add: turns_of_def)

text \<open>Nothing waits to be handled; and the device listens.\<close>

definition nothing_due :: "periph \<Rightarrow> bool" where
  "nothing_due F \<longleftrightarrow> \<not> rx_ctr (ep0r F) \<and> \<not> tx_ctr (ep0r F) \<and> \<not> resetting F"

definition at_rest :: "periph \<Rightarrow> bool" where
  "at_rest F \<longleftrightarrow> \<not> rx_ctr (ep0r F) \<and> \<not> tx_ctr (ep0r F) \<and> listening F"

lemma rest_nothing_due: "at_rest F \<Longrightarrow> nothing_due F"
  by (simp add: at_rest_def nothing_due_def listening_def)

type_synonym device_state = "usb \<times> periph"

text \<open>The outcome, the host's remaining script \<open>rest\<close> set aside.\<close>

definition served :: "host \<Rightarrow> ((device_state, unit) result \<Rightarrow> bool) \<Rightarrow>
    (usb \<times> periph \<times> host, unit) result \<Rightarrow> bool" where
  "served rest Q r = (case r of
      Done _ (T, P) \<Rightarrow> \<exists>F. P = sie (F, rest) \<and> Q (Done () (T, F))
    | Stopped q (T, P) \<Rightarrow> Q (Stopped q (T, fst P)))"

definition serves :: "config \<Rightarrow> hw \<Rightarrow> periph \<times> host \<Rightarrow> transaction list \<Rightarrow> device_state \<Rightarrow>
    ((device_state, unit) result \<Rightarrow> bool) \<Rightarrow> bool" where
  "serves C H E ts A Q \<longleftrightarrow> (\<forall>sc rest. tokens sc = ts \<longrightarrow>
     polled C H E (turns_of sc) (fst A, sie (snd A, sc @ rest)) (served rest Q))"

lemma serves_weaken:
  assumes "serves C H E ts A Q" and "\<And>r. Q r \<Longrightarrow> Q' r"
  shows "serves C H E ts A Q'"
proof -
  have "served rest Q' r" if "served rest Q r" for rest r
    using that assms(2) by (auto simp: served_def split: result.splits prod.splits)
  note w = this
  show ?thesis unfolding serves_def
  proof (intro allI impI)
    fix sc rest assume "tokens sc = ts"
    with assms(1) have "polled C H E (turns_of sc) (fst A, sie (snd A, sc @ rest)) (served rest Q)"
      by (simp add: serves_def)
    then show "polled C H E (turns_of sc) (fst A, sie (snd A, sc @ rest)) (served rest Q')"
      by (rule polled_weaken) (rule w)
  qed
qed

lemma serves_append:
  assumes "serves C H E ts A Q1" and "\<And>B. Q1 (Done () B) \<Longrightarrow> serves C H E us B Q"
    and "\<And>q B. Q1 (Stopped q B) \<Longrightarrow> Q (Stopped q B)"
  shows "serves C H E (ts @ us) A Q"
  unfolding serves_def
proof (intro allI impI)
  fix sc rest assume "tokens sc = ts @ us"
  then obtain s1 s2 where s: "sc = s1 @ s2" "tokens s1 = ts" "tokens s2 = us"
    using tokens_append by blast
  have 1: "polled C H E (turns_of s1) (fst A, sie (snd A, s1 @ s2 @ rest)) (served (s2 @ rest) Q1)"
    using assms(1) s(2) by (simp add: serves_def)
  show "polled C H E (turns_of sc) (fst A, sie (snd A, sc @ rest)) (served rest Q)"
    unfolding s(1) turns_of_simps(4) append_assoc
  proof (rule polled_add [OF 1])
    fix V assume "served (s2 @ rest) Q1 (Done () V)"
    then obtain T F where V: "V = (T, sie (F, s2 @ rest))" "Q1 (Done () (T, F))"
      by (auto simp: served_def split: prod.splits)
    from assms(2) [OF V(2)] s(3) show "polled C H E (turns_of s2) V (served rest Q)"
      by (simp add: serves_def V(1))
  next
    fix q V assume "served (s2 @ rest) Q1 (Stopped q V)"
    with assms(3) show "served rest Q (Stopped q V)"
      by (auto simp: served_def split: prod.splits)
  qed
qed

text \<open>A poll with nothing to handle; the host then goes on.\<close>

lemma eff_idle_poll:
  assumes "usb_hw H E" and "nothing_due F"
  shows "effect (urun E) (do_usb_poll C H) (T, F, sc) () (T, sie (F, sc))"
proof -
  have "ends (urun E) (handler C H F) (T, F, sc) (\<lambda>r. r = Done () (T, F, sc))"
    using assms(2) by (simp add: handler_def nothing_due_def ends_give)
  from poll_ends [OF assms(1) _ this, of "\<lambda>r. r = Done () (T, sie (F, sc))"]
  show ?thesis using assms(2) by (simp add: ends_effect nothing_due_def)
qed

text \<open>Pauses.\<close>

lemma serves_pause:
  assumes H: "usb_hw H E" and F: "nothing_due F" and Q: "Q (Done () (T, F))"
  shows "serves C H E [] (T, F) Q"
proof -
  have "polled C H E (turns_of sc) (T, sie (F, sc @ rest)) (served rest Q)"
    if "tokens sc = []" for sc rest
    using that
  proof (induction sc)
    case Nil
    then show ?case using Q by (auto simp: served_def)
  next
    case (Cons t sc)
    then have t: "t = None" "tokens sc = []" by (cases t; simp)+
    from polled_first [OF eff_idle_poll [OF H F] Cons.IH [OF t(2)]] show ?case
      by (simp add: t(1))
  qed
  then show ?thesis by (simp add: serves_def)
qed

text \<open>One transaction, with pauses before it, from what happens when it comes.\<close>

lemma serves_one:
  assumes H: "usb_hw H E" and F: "nothing_due F"
    and one: "\<And>sc rest. tokens sc = [] \<Longrightarrow>
      polled C H E (turns_of (Some t # sc)) (T, sie (F, Some t # sc @ rest)) (served rest Q)"
  shows "serves C H E [t] (T, F) Q"
proof -
  have "polled C H E (turns_of sc) (T, sie (F, sc @ rest)) (served rest Q)"
    if "tokens sc = [t]" for sc rest
    using that
  proof (induction sc)
    case (Cons u sc)
    show ?case
    proof (cases u)
      case None
      with Cons have "polled C H E (turns_of sc) (T, sie (F, sc @ rest)) (served rest Q)" by simp
      from polled_first [OF eff_idle_poll [OF H F] this] None show ?thesis by simp
    next
      case (Some x)
      with Cons.prems one [of sc rest] show ?thesis by simp
    qed
  qed simp
  then show ?thesis by (simp add: serves_def)
qed

lemma serves_token:
  assumes H: "usb_hw H E" and F: "at_rest F" and t: "accepts F t" "t \<noteq> BusReset"
    and h: "\<And>sc. ends (urun E) (handler C H (transact t F)) (T, transact t F, sc) (\<lambda>r. case r of
        Done _ (T', F', sc') \<Rightarrow> sc' = sc \<and> at_rest F' \<and> Q (Done () (T', F'))
      | Stopped q (T', F', sc') \<Rightarrow> Q (Stopped q (T', F')))"
  shows "serves C H E [t] (T, F) Q"
proof (rule serves_one [OF H rest_nothing_due [OF F]])
  show "polled C H E (turns_of (Some t # sc)) (T, sie (F, Some t # sc @ rest)) (served rest Q)"
    if sc: "tokens sc = []" for sc rest
    unfolding turns_of_simps if_not_P [OF t(2)] polled.simps
  proof (rule ends_weaken)
    let ?Q1 = "\<lambda>r. case r of
        Done _ (T', P') \<Rightarrow> \<exists>F'. P' = sie (F', sc @ rest) \<and> at_rest F' \<and> Q (Done () (T', F'))
      | Stopped q (T', F', sc') \<Rightarrow> Q (Stopped q (T', F'))"
    show "ends (urun E) (do_usb_poll C H) (T, sie (F, Some t # sc @ rest)) ?Q1"
      unfolding sie.simps if_P [OF t(1)]
    proof (rule poll_ends [OF H _ h])
      have "listening (transact t F)" using F t(2) by (simp add: at_rest_def)
      then show "\<not> resetting (transact t F)" by (simp add: listening_def)
    qed auto
    have d: "polled C H E (turns_of sc) V (served rest Q)" if "?Q1 (Done x V)" for x V
    proof -
      from that obtain T' F' where V: "V = (T', sie (F', sc @ rest))" "at_rest F'" "Q (Done () (T', F'))"
        by (auto split: prod.splits)
      from serves_pause [where Q = Q and C = C, OF H rest_nothing_due [OF V(2)] V(3)] sc show ?thesis by (simp add: serves_def V(1))
    qed
    have s: "served rest Q (Stopped q V)" if "?Q1 (Stopped q V)" for q V
      using that by (auto simp: served_def split: prod.splits)
    show "case r of Done _ V' \<Rightarrow> polled C H E (turns_of sc) V' (served rest Q)
        | Stopped q V' \<Rightarrow> served rest Q (Stopped q V')" if r: "?Q1 r" for r
    proof (cases r)
      case (Done x V)
      with d [of x V] r show ?thesis by simp
    next
      case (Stopped q V)
      with s [of q V] r show ?thesis by simp
    qed
  qed
qed

lemma serves_step:
  assumes "usb_hw H E" and "at_rest F" and "accepts F t" "t \<noteq> BusReset"
    and h: "\<And>sc. effect (urun E) (handler C H (transact t F)) (T, transact t F, sc) () (T', F', sc)"
    and "at_rest F'" and "Q (Done () (T', F'))"
  shows "serves C H E [t] (T, F) Q"
proof (rule serves_token [OF assms(1-4)])
  fix sc
  show "ends (urun E) (handler C H (transact t F)) (T, transact t F, sc) (\<lambda>r. case r of
        Done _ (T', F', sc') \<Rightarrow> sc' = sc \<and> at_rest F' \<and> Q (Done () (T', F'))
      | Stopped q (T', F', sc') \<Rightarrow> Q (Stopped q (T', F')))"
    using h [of sc] unfolding ends_effect by (rule ends_weaken) (use assms(6,7) in simp)
qed

lemma serves_Cons:
  assumes "serves C H E [t] A Q1" and "\<And>B. Q1 (Done () B) \<Longrightarrow> serves C H E ts B Q"
    and "\<And>q B. Q1 (Stopped q B) \<Longrightarrow> Q (Stopped q B)"
  shows "serves C H E (t # ts) A Q"
  using serves_append [OF assms] by simp

text \<open>
  From a device with nothing to handle: the first poll lets the host begin, the script takes
  its turns.
\<close>

lemma serves_polls:
  assumes "serves C H E (tokens sc) (T, F) Q" and "usb_hw H E" and "nothing_due F"
  shows "polled C H E (Suc (turns_of sc)) (T, F, sc) (served [] Q)"
proof (rule polled_first [OF eff_idle_poll [OF assms(2,3)]])
  show "polled C H E (turns_of sc) (T, sie (F, sc)) (served [] Q)"
    using assms(1) [unfolded serves_def, rule_format, of sc "[]"] by simp
qed

lemma serves_stops:
  assumes "serves C H E (tokens sc) (T, F) Q" and "usb_hw H E" and "nothing_due F"
    and n: "turns_of sc < n" and Q: "\<And>r. Q r \<Longrightarrow> \<exists>T F'. r = Stopped q (T, F') \<and> R T"
  shows "polled C H E n (T, F, sc) (\<lambda>r. \<exists>T P. r = Stopped q (T, P) \<and> R T)"
proof -
  have s: "\<exists>T P. r = Stopped q (T, P) \<and> R T" if "served [] Q r" for r
    using that Q by (fastforce simp: served_def split: result.splits prod.splits)
  from n obtain k where n: "n = Suc (turns_of sc) + k" by (auto dest: less_imp_Suc_add)
  show ?thesis unfolding n
    by (rule polled_add [OF serves_polls [OF assms(1-3)]]) (auto dest: s)
qed

section \<open>A loop that polls\<close>

text \<open>
  The polls of a loop: from a state with the view \<open>V\<close>, as many turns as there are polls. A turn
  is a command on a larger state that does to the view what the poll does.
\<close>

lemma polled_loop:
  assumes turn: "\<And>c V Q. c \<in> set cs \<Longrightarrow> ends (urun E) (do_usb_poll C H) V Q \<Longrightarrow> ends view c V Q"
    and "polled C H E (length cs) V Q"
  shows "ends view (block cs) V Q"
  using assms
proof (induction cs arbitrary: V)
  case Nil
  then show ?case by (simp add: ends_give)
next
  case (Cons c cs)
  have e: "ends view c V (\<lambda>r. case r of
      Done _ V' \<Rightarrow> polled C H E (length cs) V' Q | Stopped q V' \<Rightarrow> Q (Stopped q V'))"
    using Cons.prems by simp
  show ?case unfolding block.simps
    by (rule ends_bind [OF e]) (use Cons in auto)
qed

end
