(* ===== verification/DfuApart.thy ===== *)
theory DfuApart
  imports Views DfuStates
begin

text \<open>
  The class code and the devices it does not drive: what the requests and the completion of
  a status request do to the view of another device, which is nothing. The contract
  \<open>flash_bystander\<close> says which stores of the class code the device has to be deaf to.
\<close>

text \<open>
  The half words a data block is programmed to, the wrapped ranges of the guard included,
  lie in the application area or next to the ends of the address space.
\<close>

lemma programmed_place:
  assumes b: "in_bounds b n" and n: "unat n \<le> 1024" and i: "i < unat n div 2"
  shows "unat (b + 2 * of_nat i) < 0x08020000 \<or> 0xFFFFFC00 \<le> unat (b + 2 * of_nat i)"
proof -
  have i2: "2 * i < 1024" "2 * i < unat n" using i n by linarith+
  have u: "unat (b + of_nat (2 * i)) = (unat b + 2 * i) mod 2 ^ 32"
    using i2 by (simp add: unat_word_ariths take_bit_eq_mod mod_add_right_eq)
  show ?thesis
  proof (cases "unat b + 2 * i < 2 ^ 32")
    case True
    then have "unat (b + of_nat (2 * i)) = unat b + 2 * i" using u by simp
    with in_bounds_exact [OF n, of b] b n i2 show ?thesis by auto
  next
    case False
    then have "(unat b + 2 * i) mod 2 ^ 32 = (unat b + 2 * i) - 2 ^ 32"
      using unat_u32_less [of b] i2 by (simp add: le_mod_geq)
    moreover have "unat b + 2 * i - 2 ^ 32 < 1024"
      using i2(1) unat_u32_less [of b] by simp
    ultimately have "unat (b + of_nat (2 * i)) < 1024" using u by linarith
    then show ?thesis by simp
  qed
qed

lemma host_blocks_sizes: "d \<in> set (host_blocks xs) \<Longrightarrow> 0 < length d \<and> length d \<le> 1024"
proof (induction xs rule: host_blocks.induct)
  case (1 xs)
  then show ?case by (cases "xs = []") (auto simp: host_blocks.simps [of xs] host_blocks.simps [of "[]"])
qed

locale flash_bystander = bystander +
  assumes regs_apart: "a \<in> {FLASH_KEYR, FLASH_CR, FLASH_AR, stack_word, 0xE000ED0C} \<Longrightarrow> \<not> touches W32 a"
    and halves_apart: "unat a < 0x08020000 \<or> 0xFFFFFC00 \<le> unat a \<Longrightarrow> \<not> touches W16 a"
begin

abbreviation holds :: "'a \<Rightarrow> dfu \<Rightarrow> bool" where
  "holds G s \<equiv> dfu_ok s \<and> view (io s) = G"

lemma programmed_apart:
  "in_bounds b n \<Longrightarrow> unat n \<le> 1024 \<Longrightarrow> i < unat n div 2 \<Longrightarrow> \<not> touches W16 (b + 2 * of_nat i)"
  by (rule halves_apart) (rule programmed_place)

lemmas regs_deaf [simp] = regs_apart [of FLASH_KEYR, simplified] regs_apart [of FLASH_CR, simplified]
  regs_apart [of FLASH_AR, simplified] regs_apart [of stack_word, simplified]
  regs_apart [of "0xE000ED0C", simplified]

lemma class_bus: "keeps (\<lambda>h. view h = G) c \<Longrightarrow> keeps (holds G) (bus c)"
  unfolding bus_def by (rule keeps_zoom) simp_all

lemma class_safewrite: "keeps (holds G) (safewrite C H)"
proof -
  have o: "keeps (\<lambda>h. view h = G) (check_do_erase H e)" for e
    unfolding check_do_erase_def flash_wait_for_last_operation_def
    by (intro keeps_if keeps_bindc keeps_give keeps_for_step leaves_list leaves_scan leaves_erase)
      (auto intro!: leaves_erase leaves_unlock leaves_scan keeps_rules
        leaves_and32 leaves_or32 leaves_bus)
  show ?thesis unfolding safewrite_def
    by (intro keeps_if keeps_bindc keeps_getc keeps_give class_bus keeps_modc o) simp
qed

lemma class_erase_if_needed: "keeps (\<lambda>h. view h = G) (erase_if_needed H p)"
  unfolding erase_if_needed_def
  by (intro keeps_if keeps_bindc keeps_give leaves_scan leaves_erase) simp_all

lemma class_program:
  assumes "in_bounds b n" and "unat n \<le> 1024"
  shows "keeps (\<lambda>h. view h = G) (flash_program_buffer H b data (unat n))"
  by (rule leaves_program) (use programmed_apart [OF assms] in simp_all)

lemma class_write_block:
  assumes "in_bounds b n" and "unat n \<le> 1024"
  shows "keeps (\<lambda>h. view h = G)
    (block [erase_if_needed H b, flash_program_buffer H b data (unat n)])"
  by (rule leaves_list) (simp add: class_erase_if_needed class_program [OF assms])

lemma class_dnload: "keeps (holds G) (if b = 0 then dnload_command C H else dnload_block C H)"
proof -
  have c: "keeps (holds G) (dnload_command C H)"
    unfolding dnload_command_def
    by (intro keeps_if keeps_bindc keeps_getc keeps_give class_bus class_safewrite keeps_modc
        class_erase_if_needed) simp
  have d: "keeps (holds G) (dnload_block C H)"
    unfolding dnload_block_def
  proof (rule keeps_bindc [OF class_safewrite], rule keeps_bind_getc)
    fix s assume "holds G s"
    then have n: "unat (ucast (prog_len s) :: u32) \<le> 1024"
      by (simp add: dfu_ok_def DFU_TRANSFER_SIZE_def)
    show "keeps (holds G)
      (case (block_address (prog_addr s) (prog_blocknum s), prog_len s, prog_buf s) of
        (baseaddr, n, data) \<Rightarrow> if in_bounds baseaddr (ucast n)
         then bus (block [erase_if_needed H baseaddr, flash_program_buffer H baseaddr data (unat n)])
         else skip)"
      using class_bus [OF class_write_block [OF _ n]] by (simp add: keeps_give)
  qed
  from c d show ?thesis by (rule keeps_if)
qed

lemma class_complete: "keeps (holds G) (usbdfu_getstatus_complete C H req)"
proof -
  have l: "keeps (\<lambda>h. view h = G) (flash_unlock H)" "keeps (\<lambda>h. view h = G) (flash_lock H)"
    "keeps (\<lambda>h. view h = G) (block [clear_reboot_flags H, full_system_reset H])"
    unfolding flash_lock_def clear_reboot_flags_def full_system_reset_def flash_wait_for_last_operation_def
    by (simp_all add: leaves_unlock keeps_halt keeps_give
        leaves_spin leaves_and32 leaves_or32 leaves_store keeps_bindc)
  have st: "keeps (holds G) (set_state STATE_DFU_DNLOAD_IDLE)"
    unfolding set_state_def by (rule keeps_modc) (simp add: dfu_ok_state)
  have "keeps (holds G) (block
         [bus (flash_unlock H),
          bindc (getc prog_blocknum) (\<lambda>b. if b = 0 then dnload_command C H else dnload_block C H),
          bus (flash_lock H), set_state STATE_DFU_DNLOAD_IDLE])"
    by (rule keeps_block) (auto intro!: class_bus l st keeps_bindc keeps_getc class_dnload)
  moreover note class_bus [OF l(3)]
  ultimately show ?thesis
    by (intro keepsI) (auto simp: complete_cases give_def split: if_splits dest: keeps_Done keeps_Stopped)
qed

lemma class_exchange:
  assumes "holds G s" and "0 < length data" "length data \<le> 1024"
    and "dfu_exchange C H bn data s = Done u s'"
  shows "holds G s'"
proof -
  from assms exchange_unfold [of s data]
  have "usbdfu_getstatus_complete C H getstatus_request (busy_state bn data s) = Done u s'"
    and b: "holds G (busy_state bn data s)"
    by (simp_all add: busy_state_def)
  from keeps_Done [OF class_complete b this(1)] show ?thesis .
qed

lemma class_blocks:
  "holds G s \<Longrightarrow> (\<And>d. d \<in> set ds \<Longrightarrow> 0 < length d \<and> length d \<le> 1024) \<Longrightarrow>
   dfu_blocks C H bn ds s = Done u s' \<Longrightarrow> holds G s'"
proof (induction ds arbitrary: bn s)
  case (Cons d ds)
  from Cons.prems(3) obtain u1 s1 where
    1: "dfu_exchange C H bn d s = Done u1 s1" "dfu_blocks C H (bn + 1) ds s1 = Done u s'"
    by (auto simp: bindc_def split: result.splits)
  have "holds G s1" by (rule class_exchange [OF Cons.prems(1) _ _ 1(1)]) (use Cons.prems(2) in auto)
  then show ?case by (rule Cons.IH [OF _ _ 1(2)]) (use Cons.prems(2) in auto)
qed (simp add: give_def)

lemma class_download:
  assumes "holds G s" and "dfu_download C H a img s = Done u s'"
  shows "holds G s'"
proof -
  from assms(2) obtain u1 s1 u2 where
    1: "dfu_exchange C H 0 (CMD_SETADDR # bytes32 a) s = Done u1 s1"
      "dfu_blocks C H 2 (host_blocks img) s1 = Done u2 s'"
    by (auto simp: dfu_download_def bindc_def give_def split: result.splits)
  have "holds G s1" by (rule class_exchange [OF assms(1) _ _ 1(1)]) (simp_all add: bytes32_def)
  from class_blocks [OF this host_blocks_sizes 1(2)] show ?thesis .
qed

end

interpretation sa: flash_bystander "sram_run S0" touches_sram for S0
proof
  show "\<not> touches_sram W32 a" if "a \<in> {FLASH_KEYR, FLASH_CR, FLASH_AR, stack_word, 0xE000ED0C}" for a
    using that by (auto simp: reg_defs SPI_SRAM_PORT_def)
  show "\<not> touches_sram W16 a" if "unat a < 0x08020000 \<or> 0xFFFFFC00 \<le> unat a" for a
    using that by (auto simp: reg_defs)
qed

end
