(* ===== verification/UsbTransfer.thy ===== *)
theory UsbTransfer
  imports UsbPolls UsbCtl DfuApart
begin

text \<open>
  Control transfers on the endpoint, transaction by transaction: what the firmware does when
  the host has sent a SETUP, a data packet or has fetched one, in each state of the transfer
  machine, and from them the three kinds of transfer a download consists of.
\<close>

section \<open>The peripheral after a transaction\<close>

lemma transact_setup:
  assumes "pma_layout F" and "length bs \<le> 64" and "\<not> tx_ctr (ep0r F)"
  defines "F' \<equiv> transact (Setup bs) F"
  shows "pma_layout F'" "rx_packet bs F'" "rx_ctr (ep0r F')" "is_setup (ep0r F')"
    "rx_stat (ep0r F') = USB_EP_RX_STAT_NAK" "tx_stat (ep0r F') = USB_EP_TX_STAT_NAK"
    "\<not> tx_ctr (ep0r F')" "host_got F' = host_got F" "daddr F' = daddr F"
proof -
  note d = deliver_layout [OF assms(1,2)]
  show "pma_layout F'" "rx_packet bs F'" "host_got F' = host_got F" "daddr F' = daddr F"
    using d by (simp_all add: F'_def transact_def)
  show "rx_ctr (ep0r F')" "is_setup (ep0r F')" "\<not> tx_ctr (ep0r F')"
    using assms(3)
    by (simp_all add: F'_def transact_def ep_fields ep_bits bit_or_iff bit_and_iff bit_not_iff)
  show "rx_stat (ep0r F') = USB_EP_RX_STAT_NAK"
    by (rule word16_eqI) (auto simp: F'_def transact_def ep_fields ep_bits
        USB_EP_RX_STAT_NAK_def USB_EP_TX_STAT_NAK_def bit_or_iff bit_and_iff bit_not_iff)
  show "tx_stat (ep0r F') = USB_EP_TX_STAT_NAK"
    by (rule word16_eqI) (auto simp: F'_def transact_def ep_fields ep_bits
        USB_EP_RX_STAT_NAK_def USB_EP_TX_STAT_NAK_def bit_or_iff bit_and_iff bit_not_iff)
qed

lemma transact_out:
  assumes "pma_layout F" and "length bs \<le> 64" and "\<not> tx_ctr (ep0r F)"
  defines "F' \<equiv> transact (Out bs) F"
  shows "pma_layout F'" "rx_packet bs F'" "rx_ctr (ep0r F')" "\<not> is_setup (ep0r F')"
    "rx_stat (ep0r F') = USB_EP_RX_STAT_NAK" "tx_stat (ep0r F') = tx_stat (ep0r F)"
    "\<not> tx_ctr (ep0r F')" "host_got F' = host_got F" "daddr F' = daddr F"
proof -
  note d = deliver_layout [OF assms(1,2)]
  show "pma_layout F'" "rx_packet bs F'" "host_got F' = host_got F" "daddr F' = daddr F"
    using d by (simp_all add: F'_def transact_def)
  show "rx_ctr (ep0r F')" "\<not> is_setup (ep0r F')" "\<not> tx_ctr (ep0r F')"
    using assms(3)
    by (simp_all add: F'_def transact_def ep_fields ep_bits bit_or_iff bit_and_iff bit_not_iff bit_xor_iff)
  show "rx_stat (ep0r F') = USB_EP_RX_STAT_NAK"
    by (rule word16_eqI) (auto simp: F'_def transact_def ep_fields ep_bits
        USB_EP_RX_STAT_NAK_def bit_or_iff bit_and_iff bit_not_iff bit_xor_iff)
  show "tx_stat (ep0r F') = tx_stat (ep0r F)"
    by (rule word16_eqI) (auto simp: F'_def transact_def ep_fields ep_bits
        USB_EP_RX_STAT_NAK_def bit_or_iff bit_and_iff bit_not_iff bit_xor_iff)
qed

lemma transact_in:
  assumes "pma_layout F" and "\<not> rx_ctr (ep0r F)"
  defines "F' \<equiv> transact In F"
  shows "pma_layout F'" "\<not> rx_ctr (ep0r F')" "tx_ctr (ep0r F')"
    "rx_stat (ep0r F') = rx_stat (ep0r F)" "tx_stat (ep0r F') = USB_EP_TX_STAT_NAK"
    "host_got F' = tx_packet F # host_got F" "daddr F' = daddr F"
proof -
  show "pma_layout F'" "host_got F' = tx_packet F # host_got F" "daddr F' = daddr F"
    using assms(1) by (simp_all add: F'_def transact_def)
  show "\<not> rx_ctr (ep0r F')" "tx_ctr (ep0r F')"
    using assms(2)
    by (simp_all add: F'_def transact_def ep_fields ep_bits bit_or_iff bit_and_iff bit_not_iff bit_xor_iff)
  show "tx_stat (ep0r F') = USB_EP_TX_STAT_NAK"
    by (rule word16_eqI) (auto simp: F'_def transact_def ep_fields ep_bits
        USB_EP_TX_STAT_NAK_def bit_or_iff bit_and_iff bit_not_iff bit_xor_iff)
  show "rx_stat (ep0r F') = rx_stat (ep0r F)"
    by (rule word16_eqI) (auto simp: F'_def transact_def ep_fields ep_bits
        USB_EP_TX_STAT_NAK_def bit_or_iff bit_and_iff bit_not_iff bit_xor_iff)
qed

lemma stat_masks [simp]:
  "USB_EP_RX_STAT_NAK AND USB_EP_RX_STAT = USB_EP_RX_STAT_NAK"
  "USB_EP_RX_STAT_VALID AND USB_EP_RX_STAT = USB_EP_RX_STAT_VALID"
  "USB_EP_TX_STAT_VALID AND USB_EP_TX_STAT = USB_EP_TX_STAT_VALID"
  "USB_EP_RX_STAT_NAK \<noteq> USB_EP_RX_STAT_VALID" "USB_EP_TX_STAT_NAK \<noteq> USB_EP_TX_STAT_VALID"
  "USB_EP_RX_STAT_VALID \<noteq> USB_EP_RX_STAT_DISABLED" "USB_EP_RX_STAT_NAK \<noteq> USB_EP_RX_STAT_DISABLED"
  by (simp_all add: ep_bits USB_EP_RX_STAT_NAK_def USB_EP_RX_STAT_VALID_def USB_EP_TX_STAT_VALID_def
      USB_EP_TX_STAT_NAK_def USB_EP_RX_STAT_DISABLED_def)

section \<open>Primitives on the state\<close>

definition nak :: "u8 \<Rightarrow> usb \<Rightarrow> usb" where
  "nak n T = T\<lparr>usb_force_nak := (usb_force_nak T)[0 := n]\<rparr>"

lemma nak_fields [simp]:
  "usb_fsm_state (nak n T) = usb_fsm_state T" "datasize (nak n T) = datasize T"
  "usb_req (nak n T) = usb_req T" "usb_complete_cb (nak n T) = usb_complete_cb T"
  "dfu_part (nak n T) = dfu_part T" "ctl_buffer (nak n T) = ctl_buffer T"
  "length (usb_force_nak (nak n T)) = length (usb_force_nak T)"
  "usb_base (nak n T) = usb_base T" "usb_needs_zlp (nak n T) = usb_needs_zlp T"
  "usb_force_nak T \<noteq> [] \<Longrightarrow> usb_force_nak (nak n T) ! 0 = n"
  by (simp_all add: nak_def ctl_buffer_def usb_base_def)

lemma eff_nak:
  assumes H: "usb_hw H E" and T: "usb_force_nak T \<noteq> []"
  shows "effect (urun E) (usbd_ep_nak_set H 0 n) (T, F, sc) ()
    (nak n T, F\<lparr>ep0r := put_rx (if n \<noteq> 0 then USB_EP_RX_STAT_NAK else USB_EP_RX_STAT_VALID) (ep0r F)\<rparr>, sc)"
proof -
  let ?c = "\<lambda>m. if m \<le> unat (0 :: u8) then halt OutOfBounds
      else bindc (modc (\<lambda>s. s\<lparr>usb_force_nak := (usb_force_nak s)[unat (0 :: u8) := n]\<rparr>)) (\<lambda>_.
        ubus (USB_SET_EP_RX_STAT H 0 (if n \<noteq> 0 then USB_EP_RX_STAT_NAK else USB_EP_RX_STAT_VALID)))"
  have m: "effect (urun E) (modc (nak n)) (T, F, sc) () (nak n T, F, sc)"
    by (rule eff_mod) (simp_all add: nak_def seen_def with_io_def)
  have r: "effect (urun E) (ubus (USB_SET_EP_RX_STAT H 0 st)) (nak n T, F, sc) ()
      (nak n T, F\<lparr>ep0r := put_rx st (ep0r F)\<rparr>, sc)" if "st AND USB_EP_RX_STAT = st" for st
    by (rule eff_ubus [OF eff_rx_stat [OF H that]])
  have mr: "effect (urun E) (bindc (modc (nak n)) (\<lambda>_. ubus (USB_SET_EP_RX_STAT H 0 st))) (T, F, sc) ()
      (nak n T, F\<lparr>ep0r := put_rx st (ep0r F)\<rparr>, sc)" if "st AND USB_EP_RX_STAT = st" for st
    by (rule effect_bindc [OF m]) (rule r [OF that])
  have "effect (urun E) (?c (length (usb_force_nak T))) (T, F, sc) ()
    (nak n T, F\<lparr>ep0r := put_rx (if n \<noteq> 0 then USB_EP_RX_STAT_NAK else USB_EP_RX_STAT_VALID) (ep0r F)\<rparr>, sc)"
    using T mr by (auto simp: nak_def [abs_def])
  then have "effect (urun E) (bindc (getc (\<lambda>s. length (usb_force_nak s))) ?c) (T, F, sc) ()
    (nak n T, F\<lparr>ep0r := put_rx (if n \<noteq> 0 then USB_EP_RX_STAT_NAK else USB_EP_RX_STAT_VALID) (ep0r F)\<rparr>, sc)"
    by (intro eff_get) simp_all
  then show ?thesis by (simp add: usbd_ep_nak_set_def)
qed

lemma eff_read_packet:
  assumes H: "usb_hw H E" and F: "pma_layout F" "rx_packet bs F" "rx_stat (ep0r F) \<noteq> USB_EP_RX_STAT_VALID"
    and T: "usb_force_nak T \<noteq> []" and len: "length bs \<le> unat len"
  shows "effect (urun E) (usbd_ep_read_packet H 0 len) (T, F, sc) (of_nat (length bs), bs)
    (T, F\<lparr>ep0r := (if usb_force_nak T ! 0 = 0 then put_rx USB_EP_RX_STAT_VALID (clr_rx (ep0r F))
        else clr_rx (ep0r F))\<rparr>, sc)" (is "effect _ _ _ _ ?V")
proof -
  let ?F = "F\<lparr>ep0r := clr_rx (ep0r F)\<rparr>"
  have c: "\<not> ucast (ep0r F) AND ucast USB_EP_RX_STAT = (ucast USB_EP_RX_STAT_VALID :: u32)"
    using F(3) by (simp add: masked_ep rx_stat_def)
  have f: "effect (urun E) (ubus (ep_fetch H 0 len)) (T, F, sc) (of_nat (length bs), bs) (T, ?F, sc)"
    by (rule eff_ubus [OF eff_fetch [OF H F(1,2) len]])
  have v: "effect (urun E) (ubus (USB_SET_EP_RX_STAT H 0 USB_EP_RX_STAT_VALID)) (T, ?F, sc) ()
      (T, ?F\<lparr>ep0r := put_rx USB_EP_RX_STAT_VALID (ep0r ?F)\<rparr>, sc)"
    by (rule eff_ubus [OF eff_rx_stat [OF H stat_masks(2)]])
  have r: "effect (urun E) (ep_rearm H 0) (T, ?F, sc) () ?V"
    unfolding ep_rearm_def by (rule eff_get) (use T v in \<open>simp_all add: effect_give\<close>)
  have "effect (urun E) (bindc (ubus (ep_fetch H 0 len)) (\<lambda>(n, bs). bindc (ep_rearm H 0) (\<lambda>_. give (n, bs))))
      (T, F, sc) (of_nat (length bs), bs) ?V"
    by (rule effect_bindc [OF f]) (simp only: prod.case, rule effect_bindc [OF r], rule effect_give)
  then show ?thesis unfolding usbd_ep_read_packet_def
    by (intro effect_bindc [OF eff_ubus [OF eff_load_ep [OF H]]]) (simp only: c if_False)
qed

definition fill :: "nat \<Rightarrow> u8 list \<Rightarrow> usb \<Rightarrow> usb" where
  "fill off bs T = T\<lparr>dfu_part := (dfu_part T)\<lparr>usbd_control_buffer :=
     overwrite off bs (usbd_control_buffer (dfu_part T))\<rparr>\<rparr>"

lemma fill_fields [simp]:
  "usb_fsm_state (fill off bs T) = usb_fsm_state T" "datasize (fill off bs T) = datasize T"
  "usb_req (fill off bs T) = usb_req T" "usb_complete_cb (fill off bs T) = usb_complete_cb T"
  "usb_force_nak (fill off bs T) = usb_force_nak T" "io (dfu_part (fill off bs T)) = io (dfu_part T)"
  "usb_base (fill off bs T) = usb_base T" "usb_needs_zlp (fill off bs T) = usb_needs_zlp T"
  "length (ctl_buffer (fill off bs T)) = length (ctl_buffer T)"
  by (simp_all add: fill_def usb_base_def ctl_buffer_def)

lemma eff_put_ctl:
  assumes "off + length bs \<le> length (ctl_buffer T)"
  shows "effect (urun E) (put_ctl off bs) (T, P) () (fill off bs T, P)"
  unfolding put_ctl_def
proof (rule eff_get)
  have "effect (urun E) (on_dfu (modc (\<lambda>d. d\<lparr>usbd_control_buffer := overwrite off bs (usbd_control_buffer d)\<rparr>)))
      (T, P) () (T\<lparr>dfu_part := ((dfu_part T)\<lparr>usbd_control_buffer :=
        overwrite off bs (usbd_control_buffer (dfu_part T))\<rparr>)\<lparr>io := io (dfu_part T)\<rparr>\<rparr>, P)"
    by (rule eff_on_dfu) (simp add: modc_def)
  then show "effect (urun E)
      (if off + length bs \<le> length (ctl_buffer T)
       then on_dfu (modc (\<lambda>d. d\<lparr>usbd_control_buffer := overwrite off bs (usbd_control_buffer d)\<rparr>))
       else halt OutOfBounds) (T, P) () (fill off bs T, P)"
    using assms by (simp add: fill_def)
qed simp

lemma eff_modify:
  assumes "\<And>s h. f (with_io h s) = with_io h (f s)"
  shows "effect (urun E) (modc f) (T, P) () (f T, P)"
proof (rule eff_mod)
  fix s :: usb
  have "s = with_io (io (dfu_part s)) s" by (simp add: with_io_def)
  then have "f s = with_io (io (dfu_part s)) (f s)" using assms [of "io (dfu_part s)" s] by metis
  then show "io (dfu_part (f s)) = io (dfu_part s)" by (metis io_with_io)
  then show "seen (f s) = f (seen s)" by (simp add: seen_def assms)
qed

lemma eff_set_fsm: "effect (urun E) (set_fsm q) (T, P) () (T\<lparr>usb_fsm_state := q\<rparr>, P)"
  unfolding set_fsm_def by (rule eff_modify) (simp add: with_io_def)

lemma eff_set_datasize: "effect (urun E) (set_datasize n) (T, P) () (T\<lparr>datasize := n\<rparr>, P)"
  unfolding set_datasize_def by (rule eff_modify) (simp add: with_io_def)

lemma eff_write:
  assumes "usb_hw H E" and "pma_layout F" and "tx_stat (ep0r F) \<noteq> USB_EP_TX_STAT_VALID"
    and "length bs \<le> 64"
  shows "effect (urun E) (bindc (ubus (usbd_ep_write_packet H 0 bs (of_nat (length bs)))) (\<lambda>_. skip))
    (T, F, sc) () (T, tx_ready bs F, sc)"
  by (rule effect_bindc [OF eff_ubus [OF eff_write_packet [OF assms]]]) (rule effect_give)

section \<open>The SETUP\<close>

definition setup_state :: "usb_setup_data \<Rightarrow> usb \<Rightarrow> usb" where
  "setup_state r T = (nak 1 (T\<lparr>usb_complete_cb := False\<rparr>))\<lparr>usb_req := r\<rparr>"

definition setup_periph :: "periph \<Rightarrow> periph" where
  "setup_periph F = F\<lparr>ep0r := clr_rx (put_rx USB_EP_RX_STAT_NAK (ep0r F))\<rparr>"

lemma setup_ends:
  assumes H: "usb_hw H E" and T: "usb_force_nak T \<noteq> []"
    and F: "pma_layout F" "rx_packet (bytes_of_setup r) F"
    and c: "ends (urun E) (if wLength r = 0 \<or> bmRequestType r AND USB_REQ_TYPE_DIRECTION \<noteq> 0
        then usb_control_setup_read C H else usb_control_setup_write H)
      (setup_state r T, setup_periph F, sc) Q"
  shows "ends (urun E) (usbd_control_setup C H) (T, F, sc) Q"
proof -
  let ?T1 = "T\<lparr>usb_complete_cb := False\<rparr>"
  let ?F1 = "F\<lparr>ep0r := put_rx USB_EP_RX_STAT_NAK (ep0r F)\<rparr>"
  have 1: "effect (urun E) (modc (\<lambda>s. s\<lparr>usb_complete_cb := False\<rparr>)) (T, F, sc) () (?T1, F, sc)"
    by (rule eff_modify) (simp add: with_io_def)
  have 2: "effect (urun E) (usbd_ep_nak_set H 0 1) (?T1, F, sc) () (nak 1 ?T1, ?F1, sc)"
    using eff_nak [OF H, of ?T1 1 F sc] T by simp
  have 3: "effect (urun E) (usbd_ep_read_packet H 0 sizeof_setup) (nak 1 ?T1, ?F1, sc)
      (8, bytes_of_setup r) (nak 1 ?T1, setup_periph F, sc)"
    using eff_read_packet [OF H, of ?F1 "bytes_of_setup r" "nak 1 ?T1" sizeof_setup sc] F T
    by (simp add: setup_periph_def sizeof_setup_def nak_def)
  have 4: "effect (urun E) (modc (\<lambda>s. s\<lparr>usb_req := setup_of_bytes
        (overwrite 0 (bytes_of_setup r) (bytes_of_setup (usb_req s)))\<rparr>))
      (nak 1 ?T1, setup_periph F, sc) () (setup_state r T, setup_periph F, sc)"
    using eff_modify [of "\<lambda>s. s\<lparr>usb_req := setup_of_bytes
        (overwrite 0 (bytes_of_setup r) (bytes_of_setup (usb_req s)))\<rparr>" E "nak 1 ?T1" "(setup_periph F, sc)"]
    by (simp add: with_io_def setup_state_def overwrite_0)
  have 5: "ends (urun E) (bindc (getc usb_req) (\<lambda>req.
         if wLength req = 0 \<or> bmRequestType req AND USB_REQ_TYPE_DIRECTION \<noteq> 0
         then usb_control_setup_read C H
         else usb_control_setup_write H)) (setup_state r T, setup_periph F, sc) Q"
    by (rule ends_get) (use c in \<open>simp_all add: setup_state_def\<close>)
  show ?thesis unfolding usbd_control_setup_def
    by (rule ends_after [OF 1], rule ends_after [OF 2], rule ends_after [OF 3], simp only: prod.case,
        rule ends_after [OF 4]) (use 5 in \<open>simp add: sizeof_setup_def\<close>)
qed

text \<open>An OUT transfer with data gets ready to receive.\<close>

definition out_state :: "usb \<Rightarrow> usb" where
  "out_state T = nak 0 (T\<lparr>datasize := 0, usb_fsm_state :=
     (if 64 < unat (wLength (usb_req T)) then DATA_OUT else LAST_DATA_OUT)\<rparr>)"

lemma eff_setup_write:
  assumes H: "usb_hw H E" and T: "usb_force_nak T \<noteq> []" and n: "unat (wLength (usb_req T)) \<le> 1024"
  shows "effect (urun E) (usb_control_setup_write H) (T, F, sc) ()
    (out_state T, F\<lparr>ep0r := put_rx USB_EP_RX_STAT_VALID (ep0r F)\<rparr>, sc)"
  unfolding usb_control_setup_write_def
proof (rule eff_get)
  let ?q = "if 64 < unat (wLength (usb_req T)) then DATA_OUT else LAST_DATA_OUT"
  have "effect (urun E) (block [set_datasize 0, set_fsm ?q, usbd_ep_nak_set H 0 0]) (T, F, sc) ()
      (out_state T, F\<lparr>ep0r := put_rx USB_EP_RX_STAT_VALID (ep0r F)\<rparr>, sc)"
    by (rule effect_block_Cons [OF eff_set_datasize], rule effect_block_Cons [OF eff_set_fsm],
        rule effect_block_Cons [OF _ effect_block_Nil])
      (use eff_nak [OF H, of "T\<lparr>datasize := 0, usb_fsm_state := ?q\<rparr>" 0 F sc] T in
        \<open>simp add: out_state_def\<close>)
  then show "effect (urun E) (if DFU_TRANSFER_SIZE < unat (wLength (usb_req T)) then stall_transaction H
      else block [set_datasize 0,
        set_fsm (if max_packet < unat (wLength (usb_req T)) then DATA_OUT else LAST_DATA_OUT),
        usbd_ep_nak_set H 0 0]) (T, F, sc) ()
      (out_state T, F\<lparr>ep0r := put_rx USB_EP_RX_STAT_VALID (ep0r F)\<rparr>, sc)"
    using n by (simp add: DFU_TRANSFER_SIZE_def)
qed simp

section \<open>A data packet\<close>

definition chunk_state :: "u8 list \<Rightarrow> usb \<Rightarrow> usb" where
  "chunk_state bs T = (fill (unat (datasize T)) bs T)\<lparr>datasize := datasize T + of_nat (length bs)\<rparr>"

definition rearmed :: "periph \<Rightarrow> periph" where
  "rearmed F = F\<lparr>ep0r := put_rx USB_EP_RX_STAT_VALID (clr_rx (ep0r F))\<rparr>"

lemma eff_recv_chunk:
  assumes H: "usb_hw H E" and F: "pma_layout F" "rx_packet bs F" "rx_stat (ep0r F) \<noteq> USB_EP_RX_STAT_VALID"
    and T: "usb_base T" "out_ok T" "receiving T" "usb_force_nak T ! 0 = 0"
    and n: "length bs = min 64 (unat (wLength (usb_req T)) - unat (datasize T))"
  shows "effect (urun E) (usb_control_recv_chunk H) (T, F, sc) (Some (of_nat (length bs)))
    (chunk_state bs T, rearmed F, sc)"
proof -
  define k where "k = (word_of_int (min 64 (uint (wLength (usb_req T)) - uint (datasize T))) :: u16)"
  note b = out_ok_packet [OF T(2,3), folded k_def]
  have k: "k = of_nat (length bs)" using b(1) n by (simp add: word_unat_eq_iff unat_of_nat take_bit_eq_mod)
  have ne: "usb_force_nak T \<noteq> []" using T(1) by (auto simp: usb_base_def)
  have 1: "effect (urun E) (usbd_ep_read_packet H 0 k) (T, F, sc) (k, bs) (T, rearmed F, sc)"
    using eff_read_packet [OF H F ne, of k sc] T(4) b(1) n by (simp add: k rearmed_def)
  have "unat (datasize T) + length bs \<le> length (ctl_buffer T)"
    using T(1) b(1,2,4) n by (simp add: usb_base_def dfu_ok_def ctl_buffer_def DFU_TRANSFER_SIZE_def)
  note 2 = eff_put_ctl [OF this, of E "(rearmed F, sc)"]
  have 3: "effect (urun E) (modc (\<lambda>s. s\<lparr>datasize := datasize s + k\<rparr>))
      (fill (unat (datasize T)) bs T, rearmed F, sc) () (chunk_state bs T, rearmed F, sc)"
    using eff_modify [of "\<lambda>s. s\<lparr>datasize := datasize s + k\<rparr>" E "fill (unat (datasize T)) bs T" "(rearmed F, sc)"]
    by (simp add: with_io_def chunk_state_def k)
  have 4: "effect (urun E) (bindc (usbd_ep_read_packet H 0 k) (\<lambda>(n, bs).
     bindc (put_ctl (unat (datasize T)) bs) (\<lambda>_.
       if n \<noteq> k then bindc (stall_transaction H) (\<lambda>_. give None)
       else bindc (modc (\<lambda>s. s\<lparr>datasize := datasize s + n\<rparr>)) (\<lambda>_. give (Some k)))))
     (T, F, sc) (Some k) (chunk_state bs T, rearmed F, sc)"
    by (rule effect_bindc [OF 1], simp only: prod.case, rule effect_bindc [OF 2],
        simp only: not_not simp_thms if_False) (rule effect_bindc [OF 3], rule effect_give)
  have p: "(word_of_int (min (int max_packet) (uint (wLength (usb_req T)) - uint (datasize T))) :: u16) = k"
    by (simp add: k_def)
  show ?thesis unfolding usb_control_recv_chunk_def k [symmetric]
    by (rule eff_get, simp) (simp only: prod.case p, rule 4)
qed

section \<open>The class code below the transfers\<close>

interpretation ua: flash_bystander "usb_run E" "\<lambda>w a. usb_range a" for E
proof
  show "\<not> usb_range a" if "a \<in> {FLASH_KEYR, FLASH_CR, FLASH_AR, stack_word, 0xE000ED0C}" for a
    using that by auto
  show "\<not> usb_range a" if "unat a < 0x08020000 \<or> 0xFFFFFC00 \<le> unat a" for a
    using that by (auto simp: usb_range_def)
qed

text \<open>The state of the class code, its history reduced to the stores to other devices.\<close>

definition dview :: "dfu \<Rightarrow> dfu" where
  "dview d = d\<lparr>io := foreign (io d)\<rparr>"

lemma dfu_part_seen: "dfu_part (seen s) = dview (dfu_part s)"
  by (simp add: seen_def with_io_def dview_def)

text \<open>A command of the class code that leaves the peripheral alone.\<close>

lemma ends_on_dfu:
  assumes k: "\<And>P. keeps (\<lambda>d. dfu_ok d \<and> usb_run E (io d) = P) c" and ok: "dfu_ok (dfu_part T)"
    and c: "ends dview c (dfu_part T) Qd"
  shows "ends (urun E) (on_dfu c) (T, P) (\<lambda>r. case r of
      Done x (T', P') \<Rightarrow> P' = P \<and> T' = T\<lparr>dfu_part := dfu_part T'\<rparr> \<and> Qd (Done x (dfu_part T'))
    | Stopped q (T', P') \<Rightarrow> P' = P \<and> Qd (Stopped q (dfu_part T')))"
  unfolding ends_def
proof (intro allI impI)
  fix s assume s: "urun E s = (T, P)"
  then have T: "T = seen s" and P: "usb_run E (io (dfu_part s)) = P" by (simp_all add: urun_def)
  have d: "dview (dfu_part s) = dfu_part T" by (simp add: T dfu_part_seen)
  have dok: "dfu_ok (dfu_part s)" using ok unfolding d [symmetric] by (simp add: dview_def)
  from c d have r: "Qd (view_result dview (c (dfu_part s)))" by (simp add: ends_def)
  show "case view_result (urun E) (on_dfu c s) of
      Done x (T', P') \<Rightarrow> P' = P \<and> T' = T\<lparr>dfu_part := dfu_part T'\<rparr> \<and> Qd (Done x (dfu_part T'))
    | Stopped q (T', P') \<Rightarrow> P' = P \<and> Qd (Stopped q (dfu_part T'))"
  proof (cases "c (dfu_part s)")
    case (Done x d')
    then have "usb_run E (io d') = P" using keeps_Done [OF k [of P] _ Done] dok P by simp
    with r Done show ?thesis
      by (simp add: on_dfu_def zoom_def view_result_def urun_def T seen_def with_io_def dview_def)
  next
    case (Stopped q d')
    then have "usb_run E (io d') = P" using keeps_Stopped [OF k [of P] _ Stopped] dok P by simp
    with r Stopped show ?thesis
      by (simp add: on_dfu_def zoom_def view_result_def urun_def T seen_def with_io_def dview_def)
  qed
qed

text \<open>The dispatch of a class request that needs no access.\<close>

definition class_state :: "dfu \<Rightarrow> u16 \<Rightarrow> bool \<Rightarrow> usb \<Rightarrow> usb" where
  "class_state D n cb T = T\<lparr>dfu_part := D\<lparr>io := io (dfu_part T)\<rparr>, datasize := n,
     usb_complete_cb := usb_complete_cb T \<or> cb\<rparr>"

lemma eff_dispatch:
  assumes ty: "bmRequestType (usb_req T) AND 0x7F = 0x21"
    and c: "\<And>h. usbdfu_control_request C H (usb_req T) (wLength (usb_req T)) ((dfu_part T)\<lparr>io := h\<rparr>) =
      Done (USBD_REQ_HANDLED, n, cb) (D\<lparr>io := h\<rparr>)"
  shows "effect (urun E) (usb_control_request_dispatch C H) (T, P) USBD_REQ_HANDLED
    (class_state D n cb T, P)"
proof -
  let ?r = "usb_req T" and ?T1 = "T\<lparr>datasize := wLength (usb_req T)\<rparr>"
  let ?T2 = "?T1\<lparr>dfu_part := D\<lparr>io := io (dfu_part T)\<rparr>\<rparr>"
  have 1: "effect (urun E) (on_dfu (usbdfu_control_request C H ?r (wLength ?r))) (?T1, P)
      (USBD_REQ_HANDLED, n, cb) (?T2, P)"
    using eff_on_dfu [of "usbdfu_control_request C H ?r (wLength ?r)" ?T1 _ D E P] c by simp
  have 2: "effect (urun E) (modc (\<lambda>s. s\<lparr>datasize := n, usb_complete_cb := usb_complete_cb s \<or> cb\<rparr>)) (?T2, P) ()
      (class_state D n cb T, P)"
    using eff_modify [of "\<lambda>s. s\<lparr>datasize := n, usb_complete_cb := usb_complete_cb s \<or> cb\<rparr>" E ?T2 P]
    by (simp add: with_io_def class_state_def)
  have 3: "effect (urun E) (bindc (set_datasize (wLength ?r)) (\<lambda>_.
          bindc (on_dfu (usbdfu_control_request C H ?r (wLength ?r))) (\<lambda>(result, n, cb).
          bindc (modc (\<lambda>s. s\<lparr>datasize := n, usb_complete_cb := usb_complete_cb s \<or> cb\<rparr>)) (\<lambda>_.
          give result)))) (T, P) USBD_REQ_HANDLED (class_state D n cb T, P)"
    by (rule effect_bindc [OF eff_set_datasize], rule effect_bindc [OF 1], simp only: prod.case,
        rule effect_bindc [OF 2], rule effect_give)
  have "effect (urun E) (class_request C H) (T, P) USBD_REQ_HANDLED (class_state D n cb T, P)"
    unfolding class_request_def by (rule eff_get) (use 3 ty in simp_all)
  then show ?thesis unfolding usb_control_request_dispatch_def
    by (rule effect_bindc) (simp add: effect_give)
qed

section \<open>Between two transfers\<close>

definition between :: "usb \<Rightarrow> periph \<Rightarrow> bool" where
  "between T F \<longleftrightarrow> usb_base T \<and> pma_layout F \<and> at_rest F \<and>
     rx_stat (ep0r F) \<noteq> USB_EP_RX_STAT_DISABLED"

lemma between_nak: "between T F \<Longrightarrow> usb_force_nak T \<noteq> []"
  by (auto simp: between_def usb_base_def)

text \<open>A SETUP taken by the device.\<close>

lemma serves_setup:
  assumes H: "usb_hw H E" and b: "between T F"
    and c: "\<And>sc. ends (urun E) (if wLength r = 0 \<or> bmRequestType r AND USB_REQ_TYPE_DIRECTION \<noteq> 0
        then usb_control_setup_read C H else usb_control_setup_write H)
      (setup_state r T, setup_periph (transact (Setup (bytes_of_setup r)) F), sc)
      (\<lambda>r. case r of
        Done _ (T', F', sc') \<Rightarrow> sc' = sc \<and> at_rest F' \<and> Q (Done () (T', F'))
      | Stopped q (T', F', sc') \<Rightarrow> Q (Stopped q (T', F')))"
  shows "serves C H E [Setup (bytes_of_setup r)] (T, F) Q"
proof (rule serves_token [OF H])
  note t = transact_setup [of F "bytes_of_setup r"]
  show "at_rest F" "accepts F (Setup (bytes_of_setup r))"
    using b by (simp_all add: between_def accepts_def at_rest_def)
  have F: "pma_layout F" "\<not> tx_ctr (ep0r F)" using b by (simp_all add: between_def at_rest_def)
  show "ends (urun E) (handler C H (transact (Setup (bytes_of_setup r)) F))
      (T, transact (Setup (bytes_of_setup r)) F, sc) (\<lambda>r. case r of
        Done _ (T', F', sc') \<Rightarrow> sc' = sc \<and> at_rest F' \<and> Q (Done () (T', F'))
      | Stopped q (T', F', sc') \<Rightarrow> Q (Stopped q (T', F')))" for sc
    using setup_ends [OF H between_nak [OF b] t(1,2) c] F t(3,4) by (simp add: handler_def)
qed simp_all

lemma serves_setup_step:
  assumes H: "usb_hw H E" and b: "between T F"
    and c: "\<And>sc. effect (urun E) (if wLength r = 0 \<or> bmRequestType r AND USB_REQ_TYPE_DIRECTION \<noteq> 0
        then usb_control_setup_read C H else usb_control_setup_write H)
      (setup_state r T, setup_periph (transact (Setup (bytes_of_setup r)) F), sc) () (T', F', sc)"
    and "at_rest F'" and "Q (Done () (T', F'))"
  shows "serves C H E [Setup (bytes_of_setup r)] (T, F) Q"
  by (rule serves_setup [OF H b], rule ends_weaken [OF c [unfolded ends_effect]])
    (use assms(4,5) in simp)

lemma setup_periph_facts:
  fixes r :: usb_setup_data
  assumes "between T F"
  defines "F' \<equiv> setup_periph (transact (Setup (bytes_of_setup r)) F)"
  shows "pma_layout F'" "at_rest F'" "rx_stat (ep0r F') = USB_EP_RX_STAT_NAK"
    "tx_stat (ep0r F') = USB_EP_TX_STAT_NAK" "host_got F' = host_got F" "daddr F' = daddr F"
proof -
  have "pma_layout F" "\<not> tx_ctr (ep0r F)" and "listening F" using assms(1) by (simp_all add: between_def at_rest_def)
  from transact_setup [OF this(1) _ this(2), of "bytes_of_setup r"] this(3)
  show "pma_layout F'" "at_rest F'" "rx_stat (ep0r F') = USB_EP_RX_STAT_NAK"
    "tx_stat (ep0r F') = USB_EP_TX_STAT_NAK" "host_got F' = host_got F" "daddr F' = daddr F"
    by (simp_all add: F'_def setup_periph_def at_rest_def)
qed

end
