(* ===== verification/UsbDownload.thy ===== *)
theory UsbDownload
  imports UsbTransfer UsbIn
begin

text \<open>
  The transfers of a download on the wire: DNLOAD with its data stage, GETSTATUS with its
  reply and the completion that programs the flash, and the end of the session. The packets
  of a block do to the class code what the exchange of \<open>DfuSession\<close> does.
\<close>

section \<open>The data stage\<close>

definition open_rx :: "periph \<Rightarrow> bool" where
  "open_rx F \<longleftrightarrow> pma_layout F \<and> at_rest F \<and> rx_stat (ep0r F) = USB_EP_RX_STAT_VALID \<and>
     tx_stat (ep0r F) \<noteq> USB_EP_TX_STAT_VALID"

text \<open>The peripheral as the host sees it: the packets it has received and the device address.\<close>

definition host_view :: "periph \<Rightarrow> u8 list list \<times> u16" where
  "host_view F = (host_got F, daddr F)"

lemma host_view_ep [simp]: "host_view (F\<lparr>ep0r := r\<rparr>) = host_view F"
  by (simp add: host_view_def)

lemma host_view_tx_ready [simp]: "host_view (tx_ready bs F) = host_view F"
  by (simp add: host_view_def tx_ready_def)

lemma transact_out_open:
  assumes "open_rx F" and "length bs \<le> 64"
  shows "open_rx (rearmed (transact (Out bs) F))" "host_view (rearmed (transact (Out bs) F)) = host_view F"
    "accepts F (Out bs)"
proof -
  have F: "pma_layout F" "\<not> tx_ctr (ep0r F)" using assms(1) by (simp_all add: open_rx_def at_rest_def)
  from transact_out [OF F(1) assms(2) F(2)] assms(1)
  show "open_rx (rearmed (transact (Out bs) F))" "host_view (rearmed (transact (Out bs) F)) = host_view F"
    by (simp_all add: open_rx_def rearmed_def at_rest_def host_view_def)
  show "accepts F (Out bs)"
    using assms(1) by (simp add: accepts_def open_rx_def at_rest_def)
qed

text \<open>The state after the bytes \<open>xs\<close> of the data stage.\<close>

definition progress :: "u8 list \<Rightarrow> usb \<Rightarrow> usb" where
  "progress xs S = (fill 0 xs S)\<lparr>datasize := of_nat (length xs), usb_fsm_state :=
     (if 64 < unat (wLength (usb_req S)) - length xs then DATA_OUT else LAST_DATA_OUT)\<rparr>"

lemma overwrite_next:
  "length xs + length bs \<le> length buf \<Longrightarrow>
   overwrite (length xs) bs (overwrite 0 xs buf) = overwrite 0 (xs @ bs) buf"
  by (simp add: overwrite_eq add.commute)

lemma left_iff: "a \<le> n \<Longrightarrow> int n - int a \<le> int m \<longleftrightarrow> \<not> m < n - a"
  by auto

lemma unat_u16: "n < 65536 \<Longrightarrow> unat (of_nat n :: u16) = n"
  by (simp add: unat_of_nat take_bit_eq_mod)

text \<open>What a data stage starts from, and the packet that comes next.\<close>

definition stage :: "usb \<Rightarrow> bool" where
  "stage S \<longleftrightarrow> usb_base S \<and> usb_force_nak S ! 0 = 0 \<and> unat (wLength (usb_req S)) \<le> 1024"

definition next_packet :: "usb \<Rightarrow> u8 list \<Rightarrow> u8 list \<Rightarrow> bool" where
  "next_packet S xs bs \<longleftrightarrow> length xs \<le> unat (wLength (usb_req S)) \<and>
     length bs = min 64 (unat (wLength (usb_req S)) - length xs)"

lemma eff_data_packet:
  assumes H: "usb_hw H E" and S: "stage S" and b: "next_packet S xs bs" and F: "open_rx F"
  shows "effect (urun E) (usb_control_recv_chunk H) (progress xs S, transact (Out bs) F, sc)
    (Some (of_nat (length bs)))
    ((fill 0 (xs @ bs) S)\<lparr>datasize := of_nat (length (xs @ bs)), usb_fsm_state := usb_fsm_state (progress xs S)\<rparr>,
     rearmed (transact (Out bs) F), sc)"
proof -
  let ?n = "unat (wLength (usb_req S))" and ?T = "progress xs S"
  have l: "length bs \<le> 64" using b by (simp add: next_packet_def)
  have P: "pma_layout F" "\<not> tx_ctr (ep0r F)" using F by (simp_all add: open_rx_def at_rest_def)
  note t = transact_out [OF P(1) l P(2)]
  have x: "length xs \<le> ?n" "?n \<le> 1024" using S b by (simp_all add: stage_def next_packet_def)
  have u: "unat (of_nat (length xs) :: u16) = length xs"
    using x by (intro unat_u16) simp
  have T: "usb_base ?T" "out_ok ?T" "receiving ?T" "usb_force_nak ?T ! 0 = 0"
    using S x u by (simp_all add: progress_def stage_def usb_base_def fill_def out_ok_def receiving_def
        DFU_TRANSFER_SIZE_def)
  have n: "length bs = min 64 (unat (wLength (usb_req ?T)) - unat (datasize ?T))"
    using b u by (simp add: progress_def next_packet_def)
  have r: "rx_stat (ep0r (transact (Out bs) F)) \<noteq> USB_EP_RX_STAT_VALID" by (simp add: t(5))
  have "length (usbd_control_buffer (dfu_part S)) = 1024"
    using S by (simp add: stage_def usb_base_def dfu_ok_def DFU_TRANSFER_SIZE_def)
  then have "length xs + length bs \<le> length (usbd_control_buffer (dfu_part S))"
    using b x by (simp add: next_packet_def)
  note o = overwrite_next [OF this]
  have "chunk_state bs ?T = (fill 0 (xs @ bs) S)\<lparr>datasize := of_nat (length (xs @ bs)),
      usb_fsm_state := usb_fsm_state (progress xs S)\<rparr>"
    by (simp add: chunk_state_def progress_def u fill_def o)
  with eff_recv_chunk [OF H t(1,2) r T n, of sc] show ?thesis by simp
qed

text \<open>A packet with more than a packet's data still to come after it.\<close>

lemma serves_middle:
  assumes H: "usb_hw H E" and S: "stage S" and b: "next_packet S xs bs" and F: "open_rx F"
    and more: "64 < unat (wLength (usb_req S)) - length xs"
  shows "serves C H E [Out bs] (progress xs S, F) (\<lambda>r. \<exists>F'. r = Done () (progress (xs @ bs) S, F') \<and>
    open_rx F' \<and> host_view F' = host_view F)"
proof (rule serves_step [OF H])
  let ?n = "unat (wLength (usb_req S))" and ?P = "transact (Out bs) F"
  have l: "length bs = 64" using b more by (simp add: next_packet_def)
  note o = transact_out_open [OF F, of bs]
  have P: "pma_layout F" "\<not> tx_ctr (ep0r F)" using F by (simp_all add: open_rx_def at_rest_def)
  have t: "rx_ctr (ep0r ?P)" "\<not> is_setup (ep0r ?P)"
    using transact_out(3,4) [OF P(1) _ P(2), of bs] l by simp_all
  show "at_rest F" "accepts F (Out bs)" using F o(3) l by (simp_all add: open_rx_def)
  let ?T' = "(fill 0 (xs @ bs) S)\<lparr>datasize := of_nat (length (xs @ bs)), usb_fsm_state := DATA_OUT\<rparr>"
  have x: "length xs + 64 \<le> ?n" "?n \<le> 1024" using more S by (simp_all add: stage_def)
  have d: "usb_fsm_state (progress xs S) = DATA_OUT" using more by (simp add: progress_def)
  have left: "uint (wLength (usb_req ?T')) - uint (datasize ?T') \<le> int max_packet \<longleftrightarrow>
      \<not> 64 < ?n - length (xs @ bs)"
  proof -
    have "unat (datasize ?T') = length xs + 64" using unat_u16 [of "length (xs @ bs)"] x l by simp
    then have "uint (datasize ?T') = int (length xs + 64)" by (simp only: uint_nat)
    moreover have "uint (wLength (usb_req ?T')) = int ?n" by simp
    ultimately have e: "uint (wLength (usb_req ?T')) - uint (datasize ?T') = int ?n - int (length xs + 64)"
      by (simp only:)
    show ?thesis
      unfolding e using left_iff [OF x(1), of max_packet] by (simp only: max_packet_64 length_append l)
  qed
  have c: "effect (urun E) (bindc (getc (\<lambda>s. uint (wLength (usb_req s)) - uint (datasize s))) (\<lambda>left.
             if left \<le> int max_packet then set_fsm LAST_DATA_OUT else skip))
        (?T', rearmed ?P, sc) () (progress (xs @ bs) S, rearmed ?P, sc)" for sc
  proof (rule eff_get)
    show "effect (urun E) (if uint (wLength (usb_req ?T')) - uint (datasize ?T') \<le> int max_packet
        then set_fsm LAST_DATA_OUT else skip) (?T', rearmed ?P, sc) () (progress (xs @ bs) S, rearmed ?P, sc)"
      unfolding left using eff_set_fsm [of E LAST_DATA_OUT ?T' "(rearmed ?P, sc)"]
      by (simp add: progress_def effect_give)
  qed simp
  have "effect (urun E) (usbd_control_out C H) (progress xs S, ?P, sc) ()
      (progress (xs @ bs) S, rearmed ?P, sc)" for sc
    unfolding usbd_control_out_def using c
    by (intro eff_get) (simp_all add: d effect_bindc [OF eff_data_packet [OF H S b F, unfolded d]])
  then show "effect (urun E) (handler C H ?P) (progress xs S, ?P, sc) ()
      (progress (xs @ bs) S, rearmed ?P, sc)" for sc
    using t by (simp add: handler_def)
qed (use transact_out_open(1,2) [OF F, of bs] b in \<open>auto simp: open_rx_def next_packet_def\<close>)

text \<open>All the packets but the last.\<close>

lemma serves_data:
  assumes H: "usb_hw H E" and S: "stage S" and F: "open_rx F"
    and n: "unat (wLength (usb_req S)) = length (xs @ ys)"
    and last: "\<And>zs bs F'. zs @ bs = xs @ ys \<Longrightarrow> length bs \<le> 64 \<Longrightarrow> open_rx F' \<Longrightarrow>
      host_view F' = host_view F \<Longrightarrow> serves C H E (Out bs # post) (progress zs S, F') Q"
  shows "serves C H E (map Out (in_packets ys False) @ post) (progress xs S, F) Q"
  using F n last
proof (induction "length ys" arbitrary: ys xs F rule: less_induct)
  case less
  show ?case
  proof (cases "64 < length ys")
    case True
    let ?b = "take 64 ys" and ?r = "drop 64 ys"
    have b: "next_packet S xs ?b" and m: "64 < unat (wLength (usb_req S)) - length xs"
      using less.prems(2) True by (simp_all add: next_packet_def)
    have e: "map Out (in_packets ys False) @ post = Out ?b # (map Out (in_packets ?r False) @ post)"
      using True by (subst in_packets.simps) simp
    show ?thesis unfolding e
    proof (rule serves_Cons [OF serves_middle [OF H S b less.prems(1) m]])
      fix B assume "\<exists>F'. Done () B = (Done () (progress (xs @ ?b) S, F') :: (device_state, unit) result) \<and>
        open_rx F' \<and> host_view F' = host_view F"
      then obtain F' where B: "B = (progress (xs @ ?b) S, F')" and F': "open_rx F'" "host_view F' = host_view F"
        by auto
      show "serves C H E (map Out (in_packets ?r False) @ post) B Q"
        unfolding B
      proof (rule less.hyps)
        show "unat (wLength (usb_req S)) = length ((xs @ ?b) @ ?r)" using less.prems(2) by simp
        show "serves C H E (Out bs # post) (progress zs S, F'') Q"
          if "zs @ bs = (xs @ ?b) @ ?r" "length bs \<le> 64" "open_rx F''" "host_view F'' = host_view F'" for zs bs F''
          using that F'(2) by (intro less.prems(3)) simp_all
      qed (use True F' in simp_all)
    qed simp
  next
    case False
    then have "in_packets ys False = [ys]" by (subst in_packets.simps) simp
    moreover have "serves C H E (Out ys # post) (progress xs S, F) Q"
      using False less.prems by (intro less.prems(3)) simp_all
    ultimately show ?thesis by simp
  qed
qed

section \<open>The status stage without a reply\<close>

text \<open>A SET_ADDRESS takes effect here, after the host has fetched the empty packet.\<close>

definition addressed :: "usb_setup_data \<Rightarrow> periph \<Rightarrow> periph" where
  "addressed r F = (if bmRequestType r = 0 \<and> bRequest r = USB_REQ_SET_ADDRESS
     then F\<lparr>daddr := (wValue r AND USB_DADDR_ADDR) OR USB_DADDR_EF\<rparr> else F)"

lemma addressed_fields [simp]:
  "ep0r (addressed r F) = ep0r F" "pma (addressed r F) = pma F" "host_got (addressed r F) = host_got F"
  "pma_layout (addressed r F) = pma_layout F" "listening F \<Longrightarrow> listening (addressed r F)"
proof -
  have "(x OR USB_DADDR_EF) AND USB_DADDR_EF = USB_DADDR_EF" for x
    by (simp add: bit_eq_iff bit_and_iff bit_or_iff)
  then have "(x OR USB_DADDR_EF) AND USB_DADDR_EF \<noteq> 0" for x
    by (simp add: USB_DADDR_EF_def)
  then show "listening F \<Longrightarrow> listening (addressed r F)" by (simp add: addressed_def listening_def)
qed (simp_all add: addressed_def pma_layout_def)

lemma addressed_class [simp]: "bmRequestType r \<noteq> 0 \<Longrightarrow> addressed r F = F"
  by (simp add: addressed_def)

lemma eff_address:
  assumes "usb_hw H E"
  shows "effect (urun E) (bindc (getc usb_req) (\<lambda>req.
            if bmRequestType req = 0 \<and> bRequest req = USB_REQ_SET_ADDRESS
            then ubus (SET_REG H USB_DADDR_REG ((wValue req AND USB_DADDR_ADDR) OR USB_DADDR_EF))
            else skip)) (T, F, sc) () (T, addressed (usb_req T) F, sc)"
proof -
  have "USB_DADDR_REG \<noteq> USB_CNTR_REG" "USB_DADDR_REG \<noteq> USB_EP_REG 0" by (simp_all add: reg_defs)
  then have "effect (uview E) (SET_REG H USB_DADDR_REG v) (G, F, sc) () (G, F\<lparr>daddr := v\<rparr>, sc)" for v G
    using eff_store [OF assms usb_range_regs(3), of W32 "ucast v" G F sc]
    unfolding SET_REG_def by (simp add: usb_write_def)
  note a = eff_ubus [OF this]
  show ?thesis by (rule eff_get) (use a in \<open>simp_all add: addressed_def effect_give\<close>)
qed

lemma eff_status_in:
  assumes H: "usb_hw H E" and T: "usb_fsm_state T = STATUS_IN"
    and cb: "\<And>F sc. effect (urun E) (run_complete_cb C H) (T, F, sc) () (T, F, sc)"
  shows "effect (urun E) (usbd_control_in C H) (T, F, sc) ()
    (T\<lparr>usb_fsm_state := IDLE\<rparr>, addressed (usb_req T) F, sc)"
proof -
  have "effect (urun E) (block [run_complete_cb C H,
          bindc (getc usb_req) (\<lambda>req.
            if bmRequestType req = 0 \<and> bRequest req = USB_REQ_SET_ADDRESS
            then ubus (SET_REG H USB_DADDR_REG ((wValue req AND USB_DADDR_ADDR) OR USB_DADDR_EF))
            else skip), set_fsm IDLE]) (T, F, sc) () (T\<lparr>usb_fsm_state := IDLE\<rparr>, addressed (usb_req T) F, sc)"
    by (rule effect_block_Cons [OF cb], rule effect_block_Cons [OF eff_address [OF H]],
        rule effect_block_Cons [OF eff_set_fsm], rule effect_block_Nil)
  then show ?thesis unfolding usbd_control_in_def
    by (intro eff_get) (simp_all add: T)
qed

lemma serves_status_in:
  assumes H: "usb_hw H E" and T: "usb_fsm_state T = STATUS_IN" "usb_base T"
    and F: "pma_layout F" "at_rest F" "rx_stat (ep0r F) \<noteq> USB_EP_RX_STAT_DISABLED"
      "tx_stat (ep0r F) = USB_EP_TX_STAT_VALID"
    and cb: "\<And>F sc. effect (urun E) (run_complete_cb C H) (T, F, sc) () (T, F, sc)"
  shows "serves C H E [In] (T, F) (\<lambda>r. \<exists>F'. r = Done () (T\<lparr>usb_fsm_state := IDLE\<rparr>, F') \<and>
    between (T\<lparr>usb_fsm_state := IDLE\<rparr>) F' \<and> host_got F' = tx_packet F # host_got F \<and>
    daddr F' = daddr (addressed (usb_req T) F))"
proof (rule serves_step [OF H F(2)])
  let ?P = "transact In F" and ?T' = "T\<lparr>usb_fsm_state := IDLE\<rparr>"
  have t: "\<not> rx_ctr (ep0r F)" using F(2) by (simp add: at_rest_def)
  note i = transact_in [OF F(1) t]
  show "accepts F In" using F(2,4) by (simp add: accepts_def at_rest_def)
  let ?P1 = "?P\<lparr>ep0r := clr_tx (ep0r ?P)\<rparr>"
  let ?F' = "addressed (usb_req T) ?P1"
  have "effect (urun E) (block [ubus (USB_CLR_EP_TX_CTR H 0), usbd_control_in C H]) (T, ?P, sc) () (?T', ?F', sc)" for sc
    by (rule effect_block_Cons [OF eff_ubus [OF eff_clr_tx [OF H]]],
        rule effect_block_Cons [OF eff_status_in [OF H T(1) cb]], rule effect_block_Nil)
  then show "effect (urun E) (handler C H ?P) (T, ?P, sc) () (?T', ?F', sc)" for sc
    using i by (simp add: handler_def)
  show "at_rest ?F'" using i F(2) by (simp add: at_rest_def)
  then have "between ?T' ?F'" using i F(3) T(2) by (simp add: between_def usb_base_def)
  moreover have "daddr ?F' = daddr (addressed (usb_req T) F)" using i by (simp add: addressed_def)
  ultimately show "\<exists>F'. Done () (?T', ?F') = (Done () (?T', F') :: (device_state, unit) result) \<and>
      between ?T' F' \<and> host_got F' = tx_packet F # host_got F \<and> daddr F' = daddr (addressed (usb_req T) F)"
    using i by auto
qed simp_all

section \<open>Transfers without data\<close>

lemma eff_setup_nodata:
  assumes H: "usb_hw H E" and F: "pma_layout F" "tx_stat (ep0r F) \<noteq> USB_EP_TX_STAT_VALID"
    and T: "wLength (usb_req T) = 0"
    and c: "effect (urun E) (usb_control_request_dispatch C H) (T\<lparr>dataoff := 0\<rparr>, F, sc) res (T1, F, sc)"
      "res \<noteq> USBD_REQ_NOTSUPP"
  shows "effect (urun E) (usb_control_setup_read C H) (T, F, sc) ()
    (T1\<lparr>datasize := 0, usb_fsm_state := STATUS_IN\<rparr>, tx_ready [] F, sc)"
proof -
  let ?T2 = "T1\<lparr>datasize := 0\<rparr>" and ?F1 = "tx_ready [] F"
  have 1: "effect (urun E) (modc (\<lambda>s. s\<lparr>dataoff := 0\<rparr>)) (T, F, sc) () (T\<lparr>dataoff := 0\<rparr>, F, sc)"
    by (rule eff_modify) (simp add: with_io_def)
  have z: "(if datasize s > 0 then s\<lparr>datasize := 0\<rparr> else s) = s\<lparr>datasize := 0\<rparr>" for s :: usb
    by (cases s) (auto simp: word_gt_0)
  have 3: "effect (urun E) (modc (\<lambda>s. if datasize s > 0 then s\<lparr>datasize := 0\<rparr> else s)) (T1, F, sc) () (?T2, F, sc)"
    unfolding z by (rule eff_modify) (simp add: with_io_def)
  have 4: "effect (urun E) (block [bindc (ubus (usbd_ep_write_packet H 0 [] 0)) (\<lambda>_. skip), set_fsm STATUS_IN])
      (?T2, F, sc) () (?T2\<lparr>usb_fsm_state := STATUS_IN\<rparr>, ?F1, sc)"
    by (rule effect_block_Cons [OF eff_write [OF H F, of "[]", simplified]],
        rule effect_block_Cons [OF eff_set_fsm], rule effect_block_Nil)
  have 5: "effect (urun E) (bindc (modc (\<lambda>s. if datasize s > 0 then s\<lparr>datasize := 0\<rparr> else s)) (\<lambda>_.
      block [bindc (ubus (usbd_ep_write_packet H 0 [] 0)) (\<lambda>_. skip), set_fsm STATUS_IN]))
      (T1, F, sc) () (?T2\<lparr>usb_fsm_state := STATUS_IN\<rparr>, ?F1, sc)"
    by (rule effect_bindc [OF 3]) (rule 4)
  show ?thesis
    unfolding usb_control_setup_read_def
    by (rule eff_get, simp, simp only: T, rule effect_bindc [OF 1], rule effect_bindc [OF c(1)])
      (use 5 c(2) in \<open>simp only: not_False_eq_True if_True simp_thms if_False\<close>)
qed

text \<open>
  A request without data, from the SETUP to the status packet. The dispatch leaves the
  peripheral alone, the completion, if one was asked for, does nothing.
\<close>

definition nodata_packets :: "usb_setup_data \<Rightarrow> transaction list" where
  "nodata_packets r = [Setup (bytes_of_setup r), In]"

lemma serves_nodata:
  assumes H: "usb_hw H E" and b: "between T F" and r: "wLength r = 0"
    and c: "\<And>F sc. effect (urun E) (usb_control_request_dispatch C H)
        ((setup_state r T)\<lparr>dataoff := 0\<rparr>, F, sc) res (T1, F, sc)" "res \<noteq> USBD_REQ_NOTSUPP"
    and T1: "usb_base T1" "usb_req T1 = r"
    and cb: "\<And>F sc. let T2 = T1\<lparr>datasize := 0, usb_fsm_state := STATUS_IN\<rparr> in
        effect (urun E) (run_complete_cb C H) (T2, F, sc) () (T2, F, sc)"
  shows "serves C H E (nodata_packets r) (T, F) (\<lambda>q. \<exists>F'.
    q = Done () (T1\<lparr>datasize := 0, usb_fsm_state := IDLE\<rparr>, F') \<and>
    between (T1\<lparr>datasize := 0, usb_fsm_state := IDLE\<rparr>) F' \<and>
    host_got F' = [] # host_got F \<and> daddr F' = daddr (addressed r F))"
proof -
  let ?S = "setup_state r T" and ?F = "setup_periph (transact (Setup (bytes_of_setup r)) F)"
  let ?T2 = "T1\<lparr>datasize := 0, usb_fsm_state := STATUS_IN\<rparr>" and ?F1 = "tx_ready [] ?F"
  note f = setup_periph_facts [OF b, of r]
  have S: "wLength (usb_req ?S) = 0" using r by (simp add: setup_state_def)
  have tx: "tx_stat (ep0r ?F) \<noteq> USB_EP_TX_STAT_VALID" by (simp add: f(4))
  have p: "tx_packet ?F1 = []" "pma_layout ?F1" using tx_ready_packet [OF f(1), of "[]"] by simp_all
  have F1: "at_rest ?F1" "tx_stat (ep0r ?F1) = USB_EP_TX_STAT_VALID"
    "rx_stat (ep0r ?F1) \<noteq> USB_EP_RX_STAT_DISABLED" "host_got ?F1 = host_got F" "daddr ?F1 = daddr F"
    using f by (simp_all add: at_rest_def tx_ready_def)
  have su: "serves C H E [Setup (bytes_of_setup r)] (T, F) (\<lambda>q. q = Done () (?T2, ?F1))"
    by (rule serves_setup_step [OF H b]) (use eff_setup_nodata [OF H f(1) tx S c] F1(1) r in simp_all)
  have T2: "usb_fsm_state ?T2 = STATUS_IN" "usb_base ?T2" using T1(1) by (simp_all add: usb_base_def)
  have e: "nodata_packets r = [Setup (bytes_of_setup r), In]" by (simp add: nodata_packets_def)
  have d: "daddr (addressed r ?F1) = daddr (addressed r F)" using F1(5) by (simp add: addressed_def)
  show ?thesis unfolding e
    by (rule serves_Cons [OF su], simp,
        rule serves_weaken [OF serves_status_in [OF H T2 p(2) F1(1,3,2)]])
      (use cb T1(2) p(1) F1(4) d in \<open>auto simp: Let_def\<close>)
qed

section \<open>DNLOAD\<close>

text \<open>The last data packet: the request goes to the class code and the status stage begins.\<close>

definition answered :: "dfu \<Rightarrow> u16 \<Rightarrow> bool \<Rightarrow> u8 list \<Rightarrow> usb \<Rightarrow> usb" where
  "answered D m cb data S = (class_state D m cb ((fill 0 data S)\<lparr>datasize := of_nat (length data),
     usb_fsm_state := LAST_DATA_OUT\<rparr>))\<lparr>usb_fsm_state := STATUS_IN\<rparr>"

lemma serves_last:
  assumes H: "usb_hw H E" and S: "stage S" and F: "open_rx F"
    and n: "unat (wLength (usb_req S)) = length (zs @ bs)" "length bs \<le> 64"
    and ty: "bmRequestType (usb_req S) AND 0x7F = 0x21"
    and c: "\<And>h. usbdfu_control_request C H (usb_req S) (wLength (usb_req S))
        ((dfu_part (fill 0 (zs @ bs) S))\<lparr>io := h\<rparr>) = Done (USBD_REQ_HANDLED, m, cb) (D\<lparr>io := h\<rparr>)"
  shows "serves C H E [Out bs] (progress zs S, F) (\<lambda>r. \<exists>F'. r = Done () (answered D m cb (zs @ bs) S, F') \<and>
    pma_layout F' \<and> at_rest F' \<and> rx_stat (ep0r F') \<noteq> USB_EP_RX_STAT_DISABLED \<and>
    tx_stat (ep0r F') = USB_EP_TX_STAT_VALID \<and> tx_packet F' = [] \<and> host_view F' = host_view F)"
proof (rule serves_step [OF H])
  let ?P = "transact (Out bs) F" and ?F' = "tx_ready [] (rearmed (transact (Out bs) F))"
  let ?T1 = "(fill 0 (zs @ bs) S)\<lparr>datasize := of_nat (length (zs @ bs)), usb_fsm_state := LAST_DATA_OUT\<rparr>"
  let ?T2 = "class_state D m cb ?T1"
  have b: "next_packet S zs bs" using n by (simp add: next_packet_def)
  have d: "usb_fsm_state (progress zs S) = LAST_DATA_OUT" using n by (simp add: progress_def)
  have P: "pma_layout F" "\<not> tx_ctr (ep0r F)" using F by (simp_all add: open_rx_def at_rest_def)
  have t: "rx_ctr (ep0r ?P)" "\<not> is_setup (ep0r ?P)" using transact_out(3,4) [OF P(1) n(2) P(2)] by simp_all
  note o = transact_out_open [OF F n(2)]
  show "at_rest F" "accepts F (Out bs)" using F o(3) by (simp_all add: open_rx_def)
  have 1: "effect (urun E) (usb_control_request_dispatch C H) (?T1, rearmed ?P, sc) USBD_REQ_HANDLED
      (?T2, rearmed ?P, sc)" for sc
    by (rule eff_dispatch) (use ty c in simp_all)
  have 2: "effect (urun E) (block [bindc (ubus (usbd_ep_write_packet H 0 [] 0)) (\<lambda>_. skip), set_fsm STATUS_IN])
      (?T2, rearmed ?P, sc) () (answered D m cb (zs @ bs) S, ?F', sc)" for sc
    unfolding answered_def
    by (rule effect_block_Cons [OF eff_write [OF H, of "rearmed ?P" "[]", simplified]],
        use o(1) in \<open>simp add: open_rx_def\<close>, use o(1) in \<open>simp add: open_rx_def\<close>)
      (rule effect_block_Cons [OF eff_set_fsm], rule effect_block_Nil)
  have 3: "effect (urun E) (bindc (usb_control_request_dispatch C H) (\<lambda>result.
             if result \<noteq> USBD_REQ_NOTSUPP
             then block
               [bindc (ubus (usbd_ep_write_packet H 0 [] 0)) (\<lambda>_. skip),
                set_fsm STATUS_IN]
             else stall_transaction H)) (?T1, rearmed ?P, sc) () (answered D m cb (zs @ bs) S, ?F', sc)" for sc
    by (rule effect_bindc [OF 1]) (use 2 in simp)
  have "effect (urun E) (usbd_control_out C H) (progress zs S, ?P, sc) ()
      (answered D m cb (zs @ bs) S, ?F', sc)" for sc
    unfolding usbd_control_out_def
    by (rule eff_get) (use 3 in \<open>simp_all add: d effect_bindc [OF eff_data_packet [OF H S b F, unfolded d]]\<close>)
  then show "effect (urun E) (handler C H ?P) (progress zs S, ?P, sc) ()
      (answered D m cb (zs @ bs) S, ?F', sc)" for sc
    using t by (simp add: handler_def)
  have l: "pma_layout (rearmed ?P)" using o(1) by (simp add: open_rx_def)
  show "at_rest ?F'" using o(1) by (simp add: open_rx_def at_rest_def tx_ready_def)
  show "\<exists>F'. Done () (answered D m cb (zs @ bs) S, ?F') =
      (Done () (answered D m cb (zs @ bs) S, F') :: (device_state, unit) result) \<and>
    pma_layout F' \<and> at_rest F' \<and> rx_stat (ep0r F') \<noteq> USB_EP_RX_STAT_DISABLED \<and>
    tx_stat (ep0r F') = USB_EP_TX_STAT_VALID \<and> tx_packet F' = [] \<and> host_view F' = host_view F"
    using o(1,2) tx_ready_packet [OF l, of "[]"]
    by (intro exI [of _ ?F']) (simp add: open_rx_def at_rest_def, simp add: tx_ready_def)
qed simp_all

text \<open>The whole transfer.\<close>

definition dnload_packets :: "u16 \<Rightarrow> u8 list \<Rightarrow> transaction list" where
  "dnload_packets bn data =
     Setup (bytes_of_setup (dnload_request bn (of_nat (length data)))) #
     map Out (in_packets data False) @ [In]"

lemma serves_dnload:
  assumes H: "usb_hw H E" and b: "between T F" and l: "0 < length data" "length data \<le> 1024"
  shows "serves C H E (dnload_packets bn data) (T, F) (\<lambda>r. \<exists>T' F'. r = Done () (T', F') \<and>
    between T' F' \<and> dfu_part T' = loaded bn data (dfu_part T) \<and>
    host_got F' = [] # host_got F \<and> daddr F' = daddr F)"
    (is "serves _ _ _ _ _ ?Q")
proof -
  let ?r = "dnload_request bn (of_nat (length data))"
  let ?S = "out_state (setup_state ?r T)" and ?F = "setup_periph (transact (Setup (bytes_of_setup ?r)) F)"
  let ?F1 = "?F\<lparr>ep0r := put_rx USB_EP_RX_STAT_VALID (ep0r ?F)\<rparr>"
  note f = setup_periph_facts [OF b, of ?r]
  have w: "unat (wLength ?r) = length data" "wLength ?r \<noteq> 0" "bmRequestType ?r = 0x21"
    using l unat_u16 [of "length data"] by (auto simp: dnload_request_def simp flip: unat_eq_zero)
  have base: "usb_base T" "usb_force_nak T \<noteq> []" using b between_nak by (auto simp: between_def)
  have S: "stage ?S" "usb_req ?S = ?r" "usb_complete_cb ?S = False" "dfu_part ?S = dfu_part T"
    using base w l by (simp_all add: stage_def out_state_def setup_state_def nak_def usb_base_def)
  have F1: "open_rx ?F1" "host_view ?F1 = host_view F"
    using f by (simp_all add: open_rx_def at_rest_def host_view_def)
  have ok: "dfu_ok (dfu_part T)" using base by (simp add: usb_base_def)
  let ?D = "loaded bn data (dfu_part T)"
  have c: "usbdfu_control_request C H (usb_req ?S) (wLength (usb_req ?S))
        ((dfu_part (fill 0 data ?S))\<lparr>io := h\<rparr>) = Done (USBD_REQ_HANDLED, of_nat (length data), False) (?D\<lparr>io := h\<rparr>)" for h
    using request_loads_at [OF ok l] by (simp add: S(2) fill_def S(4))
  let ?T2 = "answered ?D (of_nat (length data)) False data ?S"
  have T2: "usb_fsm_state ?T2 = STATUS_IN" "usb_req ?T2 = ?r" "usb_complete_cb ?T2 = False"
    "dfu_part ?T2 = ?D" "usb_base ?T2"
    using S request_loads(2) [OF ok l, of bn]
    by (simp_all add: answered_def class_state_def loaded_def fill_def stage_def usb_base_def)
  have cb: "effect (urun E) (run_complete_cb C H) (?T2, F', sc) () (?T2, F', sc)" for F' sc
    unfolding run_complete_cb_def by (rule eff_get) (simp_all add: T2 effect_give)
  have status: "serves C H E [In] (?T2, F') ?Q" if F': "pma_layout F'" "at_rest F'"
    "rx_stat (ep0r F') \<noteq> USB_EP_RX_STAT_DISABLED" "tx_stat (ep0r F') = USB_EP_TX_STAT_VALID"
    "tx_packet F' = []" "host_view F' = host_view F" for F'
    by (rule serves_weaken [OF serves_status_in [OF H T2(1,5) F'(1-4) cb]])
      (use T2 F'(5,6) w(3) in \<open>auto simp: host_view_def\<close>)
  have data: "serves C H E (Out bs # [In]) (progress zs ?S, F') ?Q"
    if z: "zs @ bs = data" "length bs \<le> 64" "open_rx F'" "host_view F' = host_view ?F1" for zs bs F'
  proof (rule serves_Cons)
    show "serves C H E [Out bs] (progress zs ?S, F') (\<lambda>r. \<exists>F''. r = Done () (?T2, F'') \<and>
        pma_layout F'' \<and> at_rest F'' \<and> rx_stat (ep0r F'') \<noteq> USB_EP_RX_STAT_DISABLED \<and>
        tx_stat (ep0r F'') = USB_EP_TX_STAT_VALID \<and> tx_packet F'' = [] \<and> host_view F'' = host_view F')"
      using serves_last [OF H S(1) z(3), of zs bs C "of_nat (length data)" False ?D] c z(1,2) w
      by (simp add: S(2))
    show "serves C H E [In] B ?Q" if "\<exists>F''. Done () B = (Done () (?T2, F'') :: (device_state, unit) result) \<and>
        pma_layout F'' \<and> at_rest F'' \<and> rx_stat (ep0r F'') \<noteq> USB_EP_RX_STAT_DISABLED \<and>
        tx_stat (ep0r F'') = USB_EP_TX_STAT_VALID \<and> tx_packet F'' = [] \<and> host_view F'' = host_view F'" for B
      using that z(4) F1(2) by (auto intro!: status)
  qed simp
  have stage: "serves C H E (map Out (in_packets data False) @ [In]) (progress [] ?S, ?F1) ?Q"
    by (rule serves_data [OF H S(1) F1(1)]) (use w data in \<open>simp_all add: S(2)\<close>)
  have p: "progress [] ?S = ?S"
    using w by (simp add: progress_def fill_def overwrite_def out_state_def setup_state_def nak_def)
  have n: "unat (wLength (usb_req (setup_state ?r T))) \<le> 1024" "usb_force_nak (setup_state ?r T) \<noteq> []"
    using w l base by (simp_all add: setup_state_def nak_def)
  have su: "serves C H E [Setup (bytes_of_setup ?r)] (T, F) (\<lambda>r. r = Done () (?S, ?F1))"
  proof (rule serves_setup_step [OF H b])
    show "effect (urun E) (if wLength ?r = 0 \<or> bmRequestType ?r AND USB_REQ_TYPE_DIRECTION \<noteq> 0
        then usb_control_setup_read C H else usb_control_setup_write H) (setup_state ?r T, ?F, sc) ()
      (?S, ?F1, sc)" for sc
      using eff_setup_write [OF H n(2,1)] w by simp
  qed (use F1(1) in \<open>simp_all add: open_rx_def\<close>)
  show ?thesis unfolding dnload_packets_def
    by (rule serves_Cons [OF su]) (use stage p in auto)
qed

section \<open>A class request with a short reply\<close>

text \<open>The reply is in one packet, handed to the endpoint.\<close>

definition replying :: "dfu \<Rightarrow> bool \<Rightarrow> usb \<Rightarrow> usb" where
  "replying D cb T = (class_state D 0 cb T)\<lparr>dataoff := 0, usb_needs_zlp := 0, usb_fsm_state := LAST_DATA_IN\<rparr>"

lemma eff_short_reply:
  assumes H: "usb_hw H E" and F: "pma_layout F" "tx_stat (ep0r F) \<noteq> USB_EP_TX_STAT_VALID"
    and T: "unat (datasize T) \<le> 64" "unat (datasize T) \<le> length (ctl_buffer T)" "dataoff T = 0" "usb_needs_zlp T = 0"
  shows "effect (urun E) (usb_control_send_chunk H) (T, F, sc) ()
    (T\<lparr>usb_fsm_state := LAST_DATA_IN, usb_needs_zlp := 0, datasize := 0\<rparr>,
     tx_ready (take (unat (datasize T)) (ctl_buffer T)) F, sc)"
proof -
  let ?n = "datasize T" and ?b = "take (unat (datasize T)) (ctl_buffer T)"
  let ?F = "tx_ready ?b F" and ?T1 = "T\<lparr>usb_fsm_state := LAST_DATA_IN\<rparr>"
  let ?T2 = "T\<lparr>usb_fsm_state := LAST_DATA_IN, usb_needs_zlp := 0\<rparr>"
  have l: "of_nat (length ?b) = ?n" "length ?b \<le> 64" using T(1,2) by simp_all
  have w: "usbd_ep_write_packet H 0 (ctl_buffer T) ?n = usbd_ep_write_packet H 0 ?b ?n"
    by (rule write_packet_take [OF T(2)])
  have 1: "effect (urun E) (bindc (ubus (usbd_ep_write_packet H 0 (ctl_buffer T) ?n)) (\<lambda>_. skip)) (T, F, sc) ()
      (T, ?F, sc)"
    using eff_write [OF H F l(2), of T sc] unfolding l(1) w .
  have 2: "effect (urun E) (bindc (getc usb_needs_zlp) (\<lambda>z. set_fsm (if z \<noteq> 0 then DATA_IN else LAST_DATA_IN)))
      (T, ?F, sc) () (?T1, ?F, sc)"
    by (rule eff_get) (use eff_set_fsm [of E LAST_DATA_IN T "(?F, sc)"] T(4) in simp_all)
  have 3: "effect (urun E) (modc (\<lambda>s. s\<lparr>usb_needs_zlp := 0\<rparr>)) (?T1, ?F, sc) () (?T2, ?F, sc)"
    by (rule eff_modify) (simp add: with_io_def)
  have 4: "effect (urun E) (set_datasize 0) (?T2, ?F, sc) () (?T2\<lparr>datasize := 0\<rparr>, ?F, sc)"
    by (rule eff_set_datasize)
  have "effect (urun E) (block [bindc (ubus (usbd_ep_write_packet H 0 (ctl_buffer T) ?n)) (\<lambda>_. skip),
      bindc (getc usb_needs_zlp) (\<lambda>z. set_fsm (if z \<noteq> 0 then DATA_IN else LAST_DATA_IN)),
      modc (\<lambda>s. s\<lparr>usb_needs_zlp := 0\<rparr>), set_datasize 0]) (T, F, sc) () (?T2\<lparr>datasize := 0\<rparr>, ?F, sc)"
    by (rule effect_block_Cons [OF 1], rule effect_block_Cons [OF 2], rule effect_block_Cons [OF 3],
        rule effect_block_Cons [OF 4], rule effect_block_Nil)
  then show ?thesis unfolding usb_control_send_chunk_def
    by (intro eff_get) (use T in simp_all)
qed

lemma eff_setup_read:
  assumes H: "usb_hw H E" and F: "pma_layout F" "tx_stat (ep0r F) \<noteq> USB_EP_TX_STAT_VALID"
    and T: "usb_complete_cb T = False" and D: "unat n \<le> length (usbd_control_buffer D)"
    and r: "bmRequestType (usb_req T) AND 0x7F = 0x21" "wLength (usb_req T) = n" "n \<noteq> 0" "unat n \<le> 64"
    and c: "\<And>h. usbdfu_control_request C H (usb_req T) n ((dfu_part T)\<lparr>io := h\<rparr>) =
      Done (USBD_REQ_HANDLED, n, cb) (D\<lparr>io := h\<rparr>)"
  shows "effect (urun E) (usb_control_setup_read C H) (T, F, sc) ()
    (replying D cb T, tx_ready (take (unat n) (usbd_control_buffer D)) F, sc)"
  unfolding usb_control_setup_read_def
proof (rule eff_get)
  let ?T1 = "T\<lparr>dataoff := 0\<rparr>" and ?T2 = "class_state D n cb (T\<lparr>dataoff := 0\<rparr>)"
  let ?F' = "tx_ready (take (unat n) (usbd_control_buffer D)) F"
  have 1: "effect (urun E) (modc (\<lambda>s. s\<lparr>dataoff := 0\<rparr>)) (T, F, sc) () (?T1, F, sc)"
    by (rule eff_modify) (simp add: with_io_def)
  have 2: "effect (urun E) (usb_control_request_dispatch C H) (?T1, F, sc) USBD_REQ_HANDLED (?T2, F, sc)"
    by (rule eff_dispatch) (use r c in simp_all)
  have 3: "effect (urun E) (modc (\<lambda>s. if datasize s > n then s\<lparr>datasize := n\<rparr> else s)) (?T2, F, sc) () (?T2, F, sc)"
    using eff_modify [of "\<lambda>s. if datasize s > n then s\<lparr>datasize := n\<rparr> else s" E ?T2 "(F, sc)"]
    by (simp add: with_io_def class_state_def)
  let ?T3 = "?T2\<lparr>usb_needs_zlp := 0\<rparr>"
  have 4: "effect (urun E) (modc (\<lambda>s. s\<lparr>usb_needs_zlp := needs_zlp (datasize s) n max_packet\<rparr>)) (?T2, F, sc) ()
      (?T3, F, sc)"
    using eff_modify [of "\<lambda>s. s\<lparr>usb_needs_zlp := needs_zlp (datasize s) n max_packet\<rparr>" E ?T2 "(F, sc)"]
    by (simp add: with_io_def class_state_def needs_zlp_def)
  have 5: "effect (urun E) (usb_control_send_chunk H) (?T3, F, sc) () (replying D cb T, ?F', sc)"
  proof -
    have "?T3\<lparr>usb_fsm_state := LAST_DATA_IN, usb_needs_zlp := 0, datasize := 0\<rparr> = replying D cb T"
      by (cases T) (simp add: class_state_def replying_def)
    moreover have "unat (datasize ?T3) \<le> 64" "unat (datasize ?T3) \<le> length (ctl_buffer ?T3)"
      "dataoff ?T3 = 0" "usb_needs_zlp ?T3 = 0"
      "take (unat (datasize ?T3)) (ctl_buffer ?T3) = take (unat n) (usbd_control_buffer D)"
      using r(4) D by (simp_all add: class_state_def ctl_buffer_def)
    ultimately show ?thesis using eff_short_reply [OF H F, of ?T3 sc] by simp
  qed
  have 6: "effect (urun E) (bindc (modc (\<lambda>s. if datasize s > n then s\<lparr>datasize := n\<rparr> else s)) (\<lambda>_.
         if n \<noteq> 0
         then block
           [modc (\<lambda>s. s\<lparr>usb_needs_zlp := needs_zlp (datasize s) n max_packet\<rparr>),
            usb_control_send_chunk H]
         else block
           [bindc (ubus (usbd_ep_write_packet H 0 [] 0)) (\<lambda>_. skip),
            set_fsm STATUS_IN])) (?T2, F, sc) () (replying D cb T, ?F', sc)"
    by (rule effect_bindc [OF 3], simp only: r(3) not_False_eq_True if_True,
        rule effect_block_Cons [OF 4], rule effect_block_Cons [OF 5], rule effect_block_Nil)
  show "effect (urun E) (bindc (modc (\<lambda>s. s\<lparr>dataoff := 0\<rparr>)) (\<lambda>_.
     bindc (usb_control_request_dispatch C H) (\<lambda>result.
       if result \<noteq> USBD_REQ_NOTSUPP
       then bindc (modc (\<lambda>s. if datasize s > wLength (usb_req T) then s\<lparr>datasize := wLength (usb_req T)\<rparr> else s)) (\<lambda>_.
         if wLength (usb_req T) \<noteq> 0
         then block
           [modc (\<lambda>s. s\<lparr>usb_needs_zlp := needs_zlp (datasize s) (wLength (usb_req T)) max_packet\<rparr>),
            usb_control_send_chunk H]
         else block
           [bindc (ubus (usbd_ep_write_packet H 0 [] 0)) (\<lambda>_. skip),
            set_fsm STATUS_IN])
       else stall_transaction H))) (T, F, sc) () (replying D cb T, ?F', sc)"
    unfolding r(2)
    by (rule effect_bindc [OF 1], rule effect_bindc [OF 2])
      (use 6 in \<open>simp only: usbd_request_return_codes.distinct not_False_eq_True if_True simp_thms\<close>)
qed simp

section \<open>GETSTATUS\<close>

text \<open>The host has fetched the reply: the status stage, an empty OUT packet, is awaited.\<close>

lemma serves_reply_fetched:
  assumes H: "usb_hw H E" and T: "usb_fsm_state T = LAST_DATA_IN" "usb_force_nak T \<noteq> []"
    and F: "pma_layout F" "at_rest F" "tx_stat (ep0r F) = USB_EP_TX_STAT_VALID"
  shows "serves C H E [In] (T, F) (\<lambda>r. \<exists>F'. r = Done () (nak 0 (T\<lparr>usb_fsm_state := STATUS_OUT\<rparr>), F') \<and>
    open_rx F' \<and> host_got F' = tx_packet F # host_got F \<and> daddr F' = daddr F)"
proof (rule serves_step [OF H F(2)])
  let ?P = "transact In F" and ?T1 = "T\<lparr>usb_fsm_state := STATUS_OUT\<rparr>"
  have n: "\<not> rx_ctr (ep0r F)" using F(2) by (simp add: at_rest_def)
  note i = transact_in [OF F(1) n]
  show "accepts F In" using F(2,3) by (simp add: accepts_def at_rest_def)
  let ?P1 = "?P\<lparr>ep0r := clr_tx (ep0r ?P)\<rparr>"
  let ?F' = "?P1\<lparr>ep0r := put_rx USB_EP_RX_STAT_VALID (ep0r ?P1)\<rparr>"
  have 1: "effect (urun E) (usbd_ep_nak_set H 0 0) (?T1, ?P1, sc) () (nak 0 ?T1, ?F', sc)" for sc
    using eff_nak [OF H, of ?T1 0 ?P1 sc] T(2) by simp
  have 2: "effect (urun E) (block [set_fsm STATUS_OUT, usbd_ep_nak_set H 0 0]) (T, ?P1, sc) () (nak 0 ?T1, ?F', sc)" for sc
    by (rule effect_block_Cons [OF eff_set_fsm], rule effect_block_Cons [OF 1], rule effect_block_Nil)
  have 3: "effect (urun E) (usbd_control_in C H) (T, ?P1, sc) () (nak 0 ?T1, ?F', sc)" for sc
    unfolding usbd_control_in_def by (rule eff_get, simp) (use 2 in \<open>simp only: T(1) usb_fsm.case\<close>)
  have "effect (urun E) (block [ubus (USB_CLR_EP_TX_CTR H 0), usbd_control_in C H]) (T, ?P, sc) () (nak 0 ?T1, ?F', sc)" for sc
    by (rule effect_block_Cons [OF eff_ubus [OF eff_clr_tx [OF H]]], rule effect_block_Cons [OF 3],
        rule effect_block_Nil)
  then show "effect (urun E) (handler C H ?P) (T, ?P, sc) () (nak 0 ?T1, ?F', sc)" for sc
    using i by (simp add: handler_def)
  show "at_rest ?F'" using i F(2) by (simp add: at_rest_def)
  show "\<exists>F'. Done () (nak 0 ?T1, ?F') = (Done () (nak 0 ?T1, F') :: (device_state, unit) result) \<and>
      open_rx F' \<and> host_got F' = tx_packet F # host_got F \<and> daddr F' = daddr F"
    using i F(2) by (auto simp: open_rx_def at_rest_def)
qed simp_all

text \<open>The status stage of an IN transfer runs the completion the request asked for.\<close>

lemma serves_status_out:
  assumes H: "usb_hw H E" and T: "usb_fsm_state T = STATUS_OUT" "usb_complete_cb T" "usb_force_nak T ! 0 = 0"
      "usb_base T"
    and F: "open_rx F"
    and c: "ends dview (usbdfu_getstatus_complete C H (usb_req T)) (dfu_part T) Qd"
    and ok: "\<And>d. Qd (Done () d) \<Longrightarrow> dfu_ok d"
  shows "serves C H E [Out []] (T, F) (\<lambda>r. case r of
      Done _ (T', F') \<Rightarrow> between T' F' \<and> Qd (Done () (dfu_part T')) \<and> host_view F' = host_view F
    | Stopped q (T', F') \<Rightarrow> Qd (Stopped q (dfu_part T')))" (is "serves _ _ _ _ _ ?Q")
proof (rule serves_token [OF H])
  let ?P = "transact (Out []) F" and ?T1 = "T\<lparr>usb_fsm_state := IDLE\<rparr>"
  have P: "pma_layout F" "\<not> tx_ctr (ep0r F)" using F by (simp_all add: open_rx_def at_rest_def)
  note t = transact_out [OF P(1) _ P(2), of "[]"]
  note o = transact_out_open [OF F, of "[]"]
  show "at_rest F" "accepts F (Out [])" using F o(3) by (simp_all add: open_rx_def)
  let ?Q' = "\<lambda>sc r. case r of
        Done _ (T', F', sc') \<Rightarrow> sc' = sc \<and> at_rest F' \<and> ?Q (Done () (T', F'))
      | Stopped q (T', F', sc') \<Rightarrow> ?Q (Stopped q (T', F'))"
  have ne: "usb_force_nak T \<noteq> []" using T(4) by (auto simp: usb_base_def)
  have 1: "effect (urun E) (bindc (usbd_ep_read_packet H 0 0) (\<lambda>_. skip)) (T, ?P, sc) () (T, rearmed ?P, sc)" for sc
  proof (rule effect_bindc)
    show "effect (urun E) (usbd_ep_read_packet H 0 0) (T, ?P, sc) (0, []) (T, rearmed ?P, sc)"
      using eff_read_packet [OF H t(1,2) _ ne, of 0 sc] t(5) T(3) by (simp add: rearmed_def)
  qed (rule effect_give)
  have 2: "ends (urun E) (run_complete_cb C H) (?T1, rearmed ?P, sc) (\<lambda>r. case r of
      Done x (T', P') \<Rightarrow> P' = (rearmed ?P, sc) \<and> T' = ?T1\<lparr>dfu_part := dfu_part T'\<rparr> \<and> Qd (Done x (dfu_part T'))
    | Stopped q (T', P') \<Rightarrow> P' = (rearmed ?P, sc) \<and> Qd (Stopped q (dfu_part T')))" for sc
    unfolding run_complete_cb_def
  proof (rule ends_get)
    have "dfu_ok (dfu_part ?T1)" using T(4) by (simp add: usb_base_def)
    moreover have "ends dview (usbdfu_getstatus_complete C H (usb_req T)) (dfu_part ?T1) Qd" using c by simp
    ultimately have "ends (urun E) (on_dfu (usbdfu_getstatus_complete C H (usb_req T))) (?T1, rearmed ?P, sc)
      (\<lambda>r. case r of
        Done x (T', P') \<Rightarrow> P' = (rearmed ?P, sc) \<and> T' = ?T1\<lparr>dfu_part := dfu_part T'\<rparr> \<and> Qd (Done x (dfu_part T'))
      | Stopped q (T', P') \<Rightarrow> P' = (rearmed ?P, sc) \<and> Qd (Stopped q (dfu_part T')))"
      by (rule ends_on_dfu [OF ua.class_complete])
    then show "ends (urun E) (case (usb_complete_cb ?T1, usb_req ?T1) of
        (cb, req) \<Rightarrow> if cb then on_dfu (usbdfu_getstatus_complete C H req) else skip) (?T1, rearmed ?P, sc)
      (\<lambda>r. case r of
        Done x (T', P') \<Rightarrow> P' = (rearmed ?P, sc) \<and> T' = ?T1\<lparr>dfu_part := dfu_part T'\<rparr> \<and> Qd (Done x (dfu_part T'))
      | Stopped q (T', P') \<Rightarrow> P' = (rearmed ?P, sc) \<and> Qd (Stopped q (dfu_part T')))"
      using T(2) by simp
  qed simp
  have r: "at_rest (rearmed ?P)" "pma_layout (rearmed ?P)" "rx_stat (ep0r (rearmed ?P)) \<noteq> USB_EP_RX_STAT_DISABLED"
    using o(1) by (simp_all add: open_rx_def)
  have 3: "ends (urun E) (block [run_complete_cb C H, modc (\<lambda>s. s\<lparr>usb_complete_cb := False\<rparr>)])
      (?T1, rearmed ?P, sc) (?Q' sc)" for sc
    unfolding block.simps(2) [of "run_complete_cb C H"]
  proof (rule ends_bind [OF 2])
    fix x V assume "case Done x V of
      Done x (T', P') \<Rightarrow> P' = (rearmed ?P, sc) \<and> T' = ?T1\<lparr>dfu_part := dfu_part T'\<rparr> \<and> Qd (Done x (dfu_part T'))
    | Stopped q (T', P') \<Rightarrow> P' = (rearmed ?P, sc) \<and> Qd (Stopped q (dfu_part T'))"
    then obtain T' where V: "V = (T', rearmed ?P, sc)" and e: "T' = ?T1\<lparr>dfu_part := dfu_part T'\<rparr>"
      and q: "Qd (Done () (dfu_part T'))" by (auto split: prod.splits)
    have "usb_force_nak T' = usb_force_nak T" "serial_no T' = serial_no T" by (subst e, simp)+
    then have b: "usb_base T'" using T(4) ok [OF q] by (simp add: usb_base_def)
    have m: "effect (urun E) (modc (\<lambda>s. s\<lparr>usb_complete_cb := False\<rparr>)) (T', rearmed ?P, sc) ()
        (T'\<lparr>usb_complete_cb := False\<rparr>, rearmed ?P, sc)"
      by (rule eff_modify) (simp add: with_io_def)
    have "between (T'\<lparr>usb_complete_cb := False\<rparr>) (rearmed ?P)"
      using b r by (simp add: between_def usb_base_def)
    then show "ends (urun E) (block [modc (\<lambda>s. s\<lparr>usb_complete_cb := False\<rparr>)]) V (?Q' sc)"
      unfolding V by (intro ends_block_after [OF m]) (use q r o(2) in \<open>simp add: ends_give\<close>)
  qed (auto split: prod.splits)
  have "ends (urun E) (usbd_control_out C H) (T, ?P, sc) (?Q' sc)" for sc
    unfolding usbd_control_out_def
    by (rule ends_get, simp)
      (simp only: T(1) usb_fsm.case, rule ends_block_after [OF 1], rule ends_block_after [OF eff_set_fsm], rule 3)
  then show "ends (urun E) (handler C H ?P) (T, ?P, sc) (?Q' sc)" for sc
    using t(3,4) by (simp add: handler_def)
qed simp_all

definition getstatus_packets :: "transaction list" where
  "getstatus_packets = [Setup (bytes_of_setup getstatus_request), In, Out []]"

lemma serves_getstatus:
  assumes H: "usb_hw H E" and b: "between T F" and D: "dfu_ok D"
    and c: "\<And>h. usbdfu_control_request C H getstatus_request 6 ((dfu_part T)\<lparr>io := h\<rparr>) =
      Done (USBD_REQ_HANDLED, 6, True) (D\<lparr>io := h\<rparr>)"
    and fin: "ends dview (usbdfu_getstatus_complete C H getstatus_request) (D\<lparr>io := io (dfu_part T)\<rparr>) Qd"
    and ok: "\<And>d. Qd (Done () d) \<Longrightarrow> dfu_ok d"
  shows "serves C H E getstatus_packets (T, F) (\<lambda>r. case r of
      Done _ (T', F') \<Rightarrow> between T' F' \<and> Qd (Done () (dfu_part T')) \<and>
        host_got F' = take 6 (usbd_control_buffer D) # host_got F \<and> daddr F' = daddr F
    | Stopped q (T', F') \<Rightarrow> Qd (Stopped q (dfu_part T')))" (is "serves _ _ _ _ _ ?Q")
proof -
  let ?r = getstatus_request
  let ?S = "setup_state ?r T" and ?F = "setup_periph (transact (Setup (bytes_of_setup ?r)) F)"
  let ?b = "take 6 (usbd_control_buffer D)"
  let ?T1 = "replying D True ?S" and ?F1 = "tx_ready ?b ?F"
  note f = setup_periph_facts [OF b, of ?r]
  have base: "usb_base T" "usb_force_nak T \<noteq> []" using b between_nak by (auto simp: between_def)
  have D6: "unat (6 :: u16) \<le> length (usbd_control_buffer D)"
    using D by (simp add: dfu_ok_def DFU_TRANSFER_SIZE_def)
  have S: "usb_complete_cb ?S = False" "usb_req ?S = ?r" "dfu_part ?S = dfu_part T"
    by (simp_all add: setup_state_def)
  have 1: "effect (urun E) (usb_control_setup_read C H) (?S, ?F, sc) () (?T1, ?F1, sc)" for sc
    using eff_setup_read [OF H f(1) _ S(1) D6, of C True sc] f(4) c
    by (simp add: S) (simp add: getstatus_request_def)
  have p: "tx_packet ?F1 = ?b" "pma_layout ?F1"
    using tx_ready_packet [OF f(1), of ?b] by simp_all
  have F1: "at_rest ?F1" "tx_stat (ep0r ?F1) = USB_EP_TX_STAT_VALID" "host_view ?F1 = host_view F"
    using f by (simp_all add: at_rest_def tx_ready_def host_view_def)
  have su: "serves C H E [Setup (bytes_of_setup ?r)] (T, F) (\<lambda>r. r = Done () (?T1, ?F1))"
    by (rule serves_setup_step [OF H b]) (use 1 F1(1) in \<open>simp_all add: getstatus_request_def\<close>)
  have T1: "usb_fsm_state ?T1 = LAST_DATA_IN" "usb_force_nak ?T1 \<noteq> []"
    using base by (simp_all add: replying_def class_state_def setup_state_def nak_def)
  let ?T2 = "nak 0 (?T1\<lparr>usb_fsm_state := STATUS_OUT\<rparr>)"
  have T2: "usb_fsm_state ?T2 = STATUS_OUT" "usb_complete_cb ?T2" "usb_force_nak ?T2 ! 0 = 0" "usb_base ?T2"
    "usb_req ?T2 = ?r" "dfu_part ?T2 = D\<lparr>io := io (dfu_part T)\<rparr>"
    using base D T1(2) by (simp_all add: replying_def class_state_def setup_state_def usb_base_def nak_def)
  have out: "serves C H E [Out []] (?T2, F') ?Q"
    if F': "open_rx F'" "host_got F' = tx_packet ?F1 # host_got ?F1" "daddr F' = daddr ?F1" for F'
  proof (rule serves_weaken [OF serves_status_out [OF H T2(1-4) F'(1) _ ok]])
    show "ends dview (usbdfu_getstatus_complete C H (usb_req ?T2)) (dfu_part ?T2) Qd"
      using fin by (simp only: T2(5,6))
  qed (use F' p F1(3) in \<open>auto simp: host_view_def split: result.splits\<close>)
  show ?thesis unfolding getstatus_packets_def
    by (rule serves_Cons [OF su], simp, rule serves_Cons [OF serves_reply_fetched [OF H T1 p(2) F1(1,2)]])
      (use out in auto)
qed

end
