(* ===== verification/UsbEnum.thy ===== *)
theory UsbEnum
  imports UsbDownload
begin

text \<open>
  Enumeration on the wire: the bus reset that lays out the packet memory and enables the
  endpoint, the address that takes effect after the status stage, the configuration.
\<close>

section \<open>The bus reset\<close>

text \<open>The peripheral when the firmware has handled the reset.\<close>

definition after_reset :: "periph \<Rightarrow> periph" where
  "after_reset F = F\<lparr>resetting := False,
     pma := (pma F)(btable_entry 0 0 0 := 0x40, btable_entry 0 0 4 := 0x80, btable_entry 0 0 6 := 0x8800),
     ep0r := 0x3220, daddr := 0x80\<rparr>"

lemma eff_ep_set:
  assumes "usb_hw H E" and "ep_write (ep0r F) (f (ep0r F)) = r"
  shows "effect (urun E) (ubus (bindc (GET_REG H (USB_EP_REG 0)) (\<lambda>v. SET_REG H (USB_EP_REG 0) (f v))))
    (T, F, sc) () (T, F\<lparr>ep0r := r\<rparr>, sc)"
  by (rule eff_ubus) (rule eff_modify_ep, fact+)

text \<open>The writes to the endpoint register that set up endpoint 0, in their order.\<close>

lemma eff_ep_steps:
  assumes "usb_hw H E"
  shows "ep0r F = 0 \<Longrightarrow>
      effect (urun E) (ubus (USB_SET_EP_ADDR H 0 0)) (T, F, sc) () (T, F\<lparr>ep0r := 0\<rparr>, sc)"
    and "ep0r F = 0 \<Longrightarrow>
      effect (urun E) (ubus (USB_SET_EP_TYPE H 0 USB_EP_TYPE_CONTROL)) (T, F, sc) () (T, F\<lparr>ep0r := 0x200\<rparr>, sc)"
    and "ep0r F = 0x200 \<Longrightarrow>
      effect (urun E) (ubus (USB_CLR_EP_TX_DTOG H 0)) (T, F, sc) () (T, F\<lparr>ep0r := 0x200\<rparr>, sc)"
    and "ep0r F = 0x200 \<Longrightarrow>
      effect (urun E) (ubus (USB_SET_EP_TX_STAT H 0 USB_EP_TX_STAT_NAK)) (T, F, sc) () (T, F\<lparr>ep0r := 0x220\<rparr>, sc)"
    and "ep0r F = 0x220 \<Longrightarrow>
      effect (urun E) (ubus (USB_CLR_EP_RX_DTOG H 0)) (T, F, sc) () (T, F\<lparr>ep0r := 0x220\<rparr>, sc)"
    and "ep0r F = 0x220 \<Longrightarrow>
      effect (urun E) (ubus (USB_SET_EP_RX_STAT H 0 USB_EP_RX_STAT_VALID)) (T, F, sc) () (T, F\<lparr>ep0r := 0x3220\<rparr>, sc)"
  unfolding USB_SET_EP_ADDR_def USB_SET_EP_TYPE_def USB_CLR_EP_TX_DTOG_def USB_CLR_EP_RX_DTOG_def
    USB_SET_EP_TX_STAT_def USB_SET_EP_RX_STAT_def TOG_SET_REG_BIT_MSK_AND_SET_def
  by (rule eff_ep_set [OF assms]; simp add: ep_write_def toggle_value_def ep_bits USB_EP_NTOGGLE_MSK_def
      USB_EP_RX_STAT_TOG_MSK_def USB_EP_TX_STAT_TOG_MSK_def USB_EP_TYPE_CONTROL_def
      USB_EP_TX_STAT_NAK_def USB_EP_RX_STAT_VALID_def)+

lemma eff_ack_reset:
  assumes "usb_hw H E"
  shows "effect (urun E) (ubus (CLR_REG_BIT H USB_ISTR_REG USB_ISTR_RESET)) (T, F, sc) ()
    (T, F\<lparr>resetting := False\<rparr>, sc)"
proof -
  have "usb_write USB_ISTR_REG (NOT USB_ISTR_RESET) F = F\<lparr>resetting := False\<rparr>"
    by (simp add: usb_write_def reg_defs)
  then have "effect (uview E) (CLR_REG_BIT H USB_ISTR_REG USB_ISTR_RESET) (G, F, sc) () (G, F\<lparr>resetting := False\<rparr>, sc)" for G
    using eff_store [OF assms usb_range_regs(2), of W32 "ucast (NOT USB_ISTR_RESET)" G F sc]
    unfolding CLR_REG_BIT_def SET_REG_def by simp (simp add: reg_defs)
  then show ?thesis by (rule eff_ubus)
qed

lemma eff_daddr:
  assumes "usb_hw H E"
  shows "effect (urun E) (ubus (SET_REG H USB_DADDR_REG v)) (T, F, sc) () (T, F\<lparr>daddr := v\<rparr>, sc)"
proof -
  have "USB_DADDR_REG \<noteq> USB_CNTR_REG" "USB_DADDR_REG \<noteq> USB_EP_REG 0" by (simp_all add: reg_defs)
  then have "effect (uview E) (SET_REG H USB_DADDR_REG v) (G, F, sc) () (G, F\<lparr>daddr := v\<rparr>, sc)" for G
    using eff_store [OF assms usb_range_regs(3), of W32 "ucast v" G F sc]
    unfolding SET_REG_def by (simp add: usb_write_def)
  then show ?thesis by (rule eff_ubus)
qed

text \<open>The entries of the buffer table.\<close>

lemma eff_entries:
  assumes "usb_hw H E"
  shows "effect (urun E) (bindc (getc usb_pm_top) (\<lambda>top. ubus (USB_SET_EP_TX_ADDR H 0 top))) (T, F, sc) ()
      (T, F\<lparr>pma := (pma F)(btable_entry 0 0 0 := usb_pm_top T)\<rparr>, sc)"
    and "effect (urun E) (bindc (getc usb_pm_top) (\<lambda>top. ubus (USB_SET_EP_RX_ADDR H 0 top))) (T, F, sc) ()
      (T, F\<lparr>pma := (pma F)(btable_entry 0 0 4 := usb_pm_top T)\<rparr>, sc)"
    and "effect (urun E) (ubus (set_ep_rx_bufsize H 0 0x40)) (T, F, sc) ()
      (T, F\<lparr>pma := (pma F)(btable_entry 0 0 6 := 0x8800)\<rparr>, sc)"
proof -
  have top: "usb_pm_top (seen s) = usb_pm_top s" for s by (simp add: seen_def with_io_def)
  show "effect (urun E) (bindc (getc usb_pm_top) (\<lambda>top. ubus (USB_SET_EP_TX_ADDR H 0 top))) (T, F, sc) ()
      (T, F\<lparr>pma := (pma F)(btable_entry 0 0 0 := usb_pm_top T)\<rparr>, sc)"
    unfolding USB_SET_EP_TX_ADDR_def by (rule eff_get, rule top, rule eff_ubus [OF eff_btable(2) [OF assms]]) simp
  show "effect (urun E) (bindc (getc usb_pm_top) (\<lambda>top. ubus (USB_SET_EP_RX_ADDR H 0 top))) (T, F, sc) ()
      (T, F\<lparr>pma := (pma F)(btable_entry 0 0 4 := usb_pm_top T)\<rparr>, sc)"
    unfolding USB_SET_EP_RX_ADDR_def by (rule eff_get, rule top, rule eff_ubus [OF eff_btable(2) [OF assms]]) simp
  show "effect (urun E) (ubus (set_ep_rx_bufsize H 0 0x40)) (T, F, sc) ()
      (T, F\<lparr>pma := (pma F)(btable_entry 0 0 6 := 0x8800)\<rparr>, sc)"
    using eff_ubus [OF eff_btable(2) [OF assms, of 6 "0x8800"]]
    by (simp add: set_ep_rx_bufsize_def rx_bufsize_def USB_SET_EP_RX_COUNT_def)
qed

lemma eff_usb_reset:
  assumes H: "usb_hw H E" and F: "ep0r F = 0"
  shows "effect (urun E) (usb_reset H) (T, F, sc) () (T\<lparr>usb_pm_top := 0xC0\<rparr>, after_reset F, sc)"
proof -
  have m: "effect (urun E) (modc (\<lambda>s. s\<lparr>usb_pm_top := v\<rparr>)) (T, P) () (T\<lparr>usb_pm_top := v\<rparr>, P)" for v T P
    by (rule eff_modify) (simp add: with_io_def)
  have p: "effect (urun E) (modc (\<lambda>s. s\<lparr>usb_pm_top := usb_pm_top s + v\<rparr>)) (T, P) ()
      (T\<lparr>usb_pm_top := usb_pm_top T + v\<rparr>, P)" for v T P
    by (rule eff_modify) (simp add: with_io_def)
  let ?F1 = "F\<lparr>resetting := False\<rparr>" and ?T1 = "T\<lparr>usb_pm_top := 0x40\<rparr>"
  let ?F2 = "?F1\<lparr>ep0r := 0x200\<rparr>"
  let ?F3 = "?F2\<lparr>pma := (pma F)(btable_entry 0 0 0 := 0x40), ep0r := 0x220\<rparr>" and ?T3 = "?T1\<lparr>usb_pm_top := 0x80\<rparr>"
  have tx: "effect (urun E) (block
           [bindc (getc usb_pm_top) (\<lambda>top. ubus (USB_SET_EP_TX_ADDR H 0 top)),
            ubus (USB_CLR_EP_TX_DTOG H 0),
            ubus (USB_SET_EP_TX_STAT H 0 USB_EP_TX_STAT_NAK),
            modc (\<lambda>s. s\<lparr>usb_pm_top := usb_pm_top s + 0x40\<rparr>)]) (?T1, ?F2, sc) () (?T3, ?F3, sc)"
    using effect_block_Cons [OF eff_entries(1) [OF H, of ?T1 ?F2 sc] effect_block_Cons [OF eff_ep_steps(3) [OF H]
      effect_block_Cons [OF eff_ep_steps(4) [OF H] effect_block_Cons [OF p [where v = "0x40"] effect_block_Nil]]]]
    by simp
  have rx: "effect (urun E) (block
           [bindc (getc usb_pm_top) (\<lambda>top. ubus (USB_SET_EP_RX_ADDR H 0 top)),
            ubus (set_ep_rx_bufsize H 0 0x40),
            ubus (USB_CLR_EP_RX_DTOG H 0),
            ubus (USB_SET_EP_RX_STAT H 0 USB_EP_RX_STAT_VALID),
            modc (\<lambda>s. s\<lparr>usb_pm_top := usb_pm_top s + 0x40\<rparr>)]) (?T3, ?F3, sc) ()
      (T\<lparr>usb_pm_top := 0xC0\<rparr>, (after_reset F)\<lparr>daddr := daddr F\<rparr>, sc)"
    using effect_block_Cons [OF eff_entries(2) [OF H, of ?T3 ?F3 sc] effect_block_Cons [OF eff_entries(3) [OF H]
      effect_block_Cons [OF eff_ep_steps(5) [OF H] effect_block_Cons [OF eff_ep_steps(6) [OF H]
      effect_block_Cons [OF p [where v = "0x40"] effect_block_Nil]]]]]
    by (simp add: after_reset_def)
  have z: "?F1\<lparr>ep0r := 0\<rparr> = ?F1" "ep0r ?F1 = 0" using F by (cases F, simp)+
  have 1: "effect (urun E) (ubus (USB_SET_EP_ADDR H 0 0)) (?T1, ?F1, sc) () (?T1, ?F1, sc)"
    using eff_ep_steps(1) [OF H z(2), of ?T1 sc] by (simp only: z(1))
  have init: "effect (urun E) (usbd_ep_setup H 0 USB_ENDPOINT_ATTR_CONTROL (of_nat max_packet)) (?T1, ?F1, sc) ()
      (T\<lparr>usb_pm_top := 0xC0\<rparr>, (after_reset F)\<lparr>daddr := daddr F\<rparr>, sc)"
    using effect_block_Cons [OF 1 effect_block_Cons [OF eff_ep_steps(2) [OF H]
      effect_block_Cons [OF tx effect_block_Cons [OF rx effect_block_Nil]]]] F
    by (simp add: usbd_ep_setup_def Let_def typelookup_def)
  show ?thesis unfolding usb_reset_def
    using effect_block_Cons [OF eff_ack_reset [OF H, of T F sc] effect_block_Cons [OF m [of USBD_PM_TOP T]
      effect_block_Cons [OF init [folded USBD_PM_TOP_def] effect_block_Cons [OF eff_daddr [OF H] effect_block_Nil]]]]
    by (simp add: USBD_PM_TOP_def USB_DADDR_EF_def after_reset_def)
qed


lemma after_reset_between:
  assumes "usb_base T"
  shows "between T (after_reset F)"
proof -
  have e: "ep0r (after_reset F) = 0x3220" "daddr (after_reset F) = 0x80" "\<not> resetting (after_reset F)"
    by (simp_all add: after_reset_def)
  have "pma_layout (after_reset F)"
    by (simp add: pma_layout_def after_reset_def btable_entry_def reg_defs)
  moreover have "at_rest (after_reset F)"
    by (simp add: at_rest_def listening_def e rx_ctr_def tx_ctr_def ep_bits USB_DADDR_EF_def)
  moreover have "rx_stat (ep0r (after_reset F)) \<noteq> USB_EP_RX_STAT_DISABLED"
    by (simp add: e rx_stat_def ep_bits USB_EP_RX_STAT_DISABLED_def)
  ultimately show ?thesis using assms by (simp add: between_def)
qed

text \<open>The poll that finds the reset returns at once; the host goes on with the next poll.\<close>

lemma eff_reset_poll:
  assumes H: "usb_hw H E" and F: "resetting F" "ep0r F = 0"
  shows "effect (urun E) (do_usb_poll C H) (T, F, sc) () (T\<lparr>usb_pm_top := 0xC0\<rparr>, after_reset F, sc)"
  unfolding effect_def
proof (intro allI impI)
  fix s assume s: "urun E s = (T, F, sc)"
  let ?h = "io (dfu_part s)"
  have "F = fst (usb_run E ?h)" using s by (auto simp: urun_def)
  then obtain v where v: "H ?h (Load W32 USB_ISTR_REG) = Some v" "ucast v AND 0x841F = istr_bits F"
    using H unfolding usb_hw_def Let_def by blast
  let ?s = "with_io (Loaded W32 USB_ISTR_REG v # ?h) s"
  have "ubus (GET_REG H USB_ISTR_REG) s = Done (ucast v) ?s"
    using v(1) by (simp add: ubus_Done GET_REG_def load_def bindc_def give_def with_io_def)
  then have "do_usb_poll C H s = usb_reset H ?s"
    using istr_facts(1) [OF v(2)] F(1) by (simp add: do_usb_poll_def bindc_def)
  moreover have "urun E ?s = (T, F, sc)" using s by (simp add: urun_def seen_def with_io_def)
  ultimately show "\<exists>s'. do_usb_poll C H s = Done () s' \<and> urun E s' = (T\<lparr>usb_pm_top := 0xC0\<rparr>, after_reset F, sc)"
    using eff_usb_reset [OF H F(2), of T sc] by (simp add: effect_def)
qed

lemma serves_reset:
  assumes H: "usb_hw H E" and F: "nothing_due F" and T: "usb_base T"
  shows "serves C H E [BusReset] (T, F) (\<lambda>r. r = Done () (T\<lparr>usb_pm_top := 0xC0\<rparr>, after_reset F))"
proof (rule serves_one [OF H F])
  fix sc rest assume sc: "tokens sc = []"
  let ?P = "transact BusReset F" and ?Q = "\<lambda>r. r = Done () (T\<lparr>usb_pm_top := 0xC0\<rparr>, after_reset F)"
  have P: "resetting ?P" "ep0r ?P = 0" "after_reset ?P = after_reset F"
    by (simp_all add: transact_def after_reset_def)
  have a: "accepts F BusReset" using F by (simp add: accepts_def nothing_due_def)
  have q: "nothing_due (after_reset F)"
    using after_reset_between [OF T] by (simp add: between_def rest_nothing_due)
  from serves_pause [OF H q, of ?Q "T\<lparr>usb_pm_top := 0xC0\<rparr>" C] sc
  have "polled C H E (turns_of sc) (T\<lparr>usb_pm_top := 0xC0\<rparr>, sie (after_reset F, sc @ rest)) (served rest ?Q)"
    by (simp add: serves_def)
  with polled_first [OF eff_idle_poll [OF H q]]
  have "polled C H E (Suc (turns_of sc)) (T\<lparr>usb_pm_top := 0xC0\<rparr>, after_reset F, sc @ rest) (served rest ?Q)" .
  with polled_first [OF eff_reset_poll [OF H P(1,2)], of C] P(3)
  have "polled C H E (Suc (Suc (turns_of sc))) (T, transact BusReset F, sc @ rest) (served rest ?Q)" by metis
  with a show "polled C H E (turns_of (Some BusReset # sc)) (T, sie (F, Some BusReset # sc @ rest)) (served rest ?Q)"
    by simp
qed

section \<open>SET_ADDRESS and SET_CONFIGURATION\<close>

definition address_request :: "u16 \<Rightarrow> usb_setup_data" where
  "address_request a = \<lparr>bmRequestType = 0, bRequest = USB_REQ_SET_ADDRESS, wValue = a, wIndex = 0, wLength = 0\<rparr>"

definition configuration_request :: usb_setup_data where
  "configuration_request =
     \<lparr>bmRequestType = 0, bRequest = USB_REQ_SET_CONFIGURATION, wValue = 1, wIndex = 0, wLength = 0\<rparr>"

lemma eff_standard_device:
  assumes r: "bmRequestType (usb_req T) = 0"
    and c: "effect (urun E) (usbd_standard_request_device C H) (T, P) x V"
  shows "effect (urun E) (usb_control_request_dispatch C H) (T, P) x V"
proof -
  have 1: "effect (urun E) (class_request C H) (T, P) USBD_REQ_NEXT_CALLBACK (T, P)"
    unfolding class_request_def by (rule eff_get) (simp_all add: r effect_give)
  have 2: "effect (urun E) (usbd_standard_request C H) (T, P) x V"
    unfolding usbd_standard_request_def by (rule eff_get) (use c in \<open>simp_all add: r\<close>)
  have 3: "effect (urun E) (bindc (getc usb_req) (\<lambda>req.
       if winusb_support C \<and> bmRequestType req AND (USB_REQ_TYPE_TYPE OR USB_REQ_TYPE_RECIPIENT) =
           USB_REQ_TYPE_VENDOR OR USB_REQ_TYPE_DEVICE \<and> bRequest req = 0x41
       then bindc (put_ctl 0 winusb_desc) (\<lambda>_.
            bindc (set_datasize (of_nat (length winusb_desc))) (\<lambda>_. give USBD_REQ_HANDLED))
       else usbd_standard_request C H)) (T, P) x V"
    by (rule eff_get) (use 2 in \<open>simp_all add: r\<close>)
  show ?thesis unfolding usb_control_request_dispatch_def
    by (rule effect_bindc [OF 1]) (use 3 in simp)
qed

lemma eff_no_callback:
  "usb_complete_cb T = False \<Longrightarrow> effect (urun E) (run_complete_cb C H) (T, P) () (T, P)"
  unfolding run_complete_cb_def by (rule eff_get) (simp_all add: effect_give)

lemma serves_set_address:
  assumes H: "usb_hw H E" and b: "between T F" and a: "a < 128"
  shows "serves C H E (nodata_packets (address_request a)) (T, F) (\<lambda>q. \<exists>T' F'. q = Done () (T', F') \<and>
    between T' F' \<and> dfu_part T' = dfu_part T \<and> host_got F' = [] # host_got F \<and> daddr F' = a OR USB_DADDR_EF)"
proof -
  let ?r = "address_request a"
  let ?T1 = "(setup_state ?r T)\<lparr>dataoff := 0\<rparr>"
  have r: "bmRequestType ?r = 0" "bRequest ?r = USB_REQ_SET_ADDRESS" "wValue ?r = a" "wLength ?r = 0"
    by (simp_all add: address_request_def)
  have q: "usb_req ?T1 = ?r" by (simp add: setup_state_def)
  have "effect (urun E) (usbd_standard_request_device C H) (?T1, P) USBD_REQ_HANDLED (?T1, P)" for P
    unfolding usbd_standard_request_device_def
    by (rule eff_get) (use a in \<open>simp_all add: q r effect_give word_less_nat_alt word_le_nat_alt\<close>)
  then have c: "effect (urun E) (usb_control_request_dispatch C H) (?T1, F, sc) USBD_REQ_HANDLED (?T1, F, sc)" for F sc
    by (intro eff_standard_device) (simp_all only: q r)
  have T1: "usb_base ?T1"
    using b by (simp add: setup_state_def usb_base_def nak_def between_def)
  have "a AND USB_DADDR_ADDR = a"
    using a less_mask_eq [of a 7] by (simp add: USB_DADDR_ADDR_def mask_eq_exp_minus_1)
  then have d: "daddr (addressed ?r F) = a OR USB_DADDR_EF" by (simp add: addressed_def r)
  show ?thesis
    by (rule serves_weaken [OF serves_nodata [OF H b r(4) c _ T1 q]])
      (use d in \<open>auto simp: Let_def setup_state_def intro!: eff_no_callback\<close>)
qed

text \<open>The registers of the other endpoints.\<close>

lemma other_ep:
  assumes "ep \<in> {1, 2, 3, 4, 5, 6, 7}"
  shows "USB_EP_REG ep \<noteq> USB_CNTR_REG" "usb_write (USB_EP_REG ep) v F = F" "ep < 8"
  using assms by (auto simp: usb_write_def pma_slot_def reg_defs)

lemma eff_other_ep:
  assumes H: "usb_hw H E" and ep: "ep \<in> {1, 2, 3, 4, 5, 6, 7}"
  shows "effect (uview E) (TOG_SET_REG_BIT_MSK_AND_SET H (USB_EP_REG ep) m b x) V () V"
  unfolding effect_def
proof (intro allI impI)
  fix h assume h: "uview E h = V"
  note o = other_ep [OF ep]
  have "H h (Load W32 (USB_EP_REG ep)) \<noteq> None" using H o(3) unfolding usb_hw_def Let_def by blast
  then obtain v where l: "H h (Load W32 (USB_EP_REG ep)) = Some v" by blast
  let ?h = "Loaded W32 (USB_EP_REG ep) v # h" and ?v = "ucast (toggle_value (ucast v) m b x) :: u32"
  have "H ?h (Store W32 (USB_EP_REG ep) ?v) \<noteq> None"
    using H usb_range_ep [of ep] unfolding usb_hw_def Let_def by blast
  with l have 1: "TOG_SET_REG_BIT_MSK_AND_SET H (USB_EP_REG ep) m b x h =
      Done () (Stored W32 (USB_EP_REG ep) ?v # ?h)"
    by (auto simp: TOG_SET_REG_BIT_MSK_AND_SET_def GET_REG_def SET_REG_def load_def store_def bindc_def give_def)
  moreover have "uview E (Stored W32 (USB_EP_REG ep) ?v # ?h) = V"
    using h o(1,2) by (simp add: uview_def split: prod.splits)
  ultimately show "\<exists>h'. TOG_SET_REG_BIT_MSK_AND_SET H (USB_EP_REG ep) m b x h = Done () h' \<and> uview E h' = V"
    by blast
qed

lemma eff_disable_others:
  assumes H: "usb_hw H E"
  shows "effect (uview E) (block (concat (map (\<lambda>i.
     [USB_SET_EP_TX_STAT H (of_nat i) USB_EP_TX_STAT_DISABLED,
      USB_SET_EP_RX_STAT H (of_nat i) USB_EP_RX_STAT_DISABLED]) [1..<8]))) V () V"
proof -
  have "[1..<8] = [1, 2, 3, 4, 5, 6, 7 :: nat]" by (simp add: upt_rec)
  then show ?thesis
    unfolding USB_SET_EP_TX_STAT_def USB_SET_EP_RX_STAT_def
    by (simp only: list.map concat.simps append.simps)
      (intro effect_block_Cons [OF eff_other_ep [OF H]] effect_block_Nil; simp)
qed

lemma serves_set_configuration:
  assumes H: "usb_hw H E" and b: "between T F"
  shows "serves C H E (nodata_packets configuration_request) (T, F) (\<lambda>q. \<exists>T' F'. q = Done () (T', F') \<and>
    between T' F' \<and> dfu_part T' = dfu_part T \<and> host_got F' = [] # host_got F \<and> daddr F' = daddr F)"
proof -
  let ?r = configuration_request
  let ?S = "(setup_state ?r T)\<lparr>dataoff := 0\<rparr>"
  let ?T1 = "?S\<lparr>usb_pm_top := USBD_PM_TOP + 2 * of_nat max_packet\<rparr>"
  have r: "bmRequestType ?r = 0" "bRequest ?r = USB_REQ_SET_CONFIGURATION" "wValue ?r = 1" "wLength ?r = 0"
    by (simp_all add: configuration_request_def)
  have q: "usb_req ?S = ?r" "usb_req ?T1 = ?r" by (simp_all add: setup_state_def)
  have m: "effect (urun E) (modc (\<lambda>s. s\<lparr>usb_pm_top := USBD_PM_TOP + 2 * of_nat max_packet\<rparr>)) (?S, P) () (?T1, P)" for P
    by (rule eff_modify) (simp add: with_io_def)
  have d: "effect (urun E) (bindc (ubus (block (concat (map (\<lambda>i.
                 [USB_SET_EP_TX_STAT H (of_nat i) USB_EP_TX_STAT_DISABLED,
                  USB_SET_EP_RX_STAT H (of_nat i) USB_EP_RX_STAT_DISABLED]) [1..<8])))) (\<lambda>_.
             bindc (modc (\<lambda>s. s\<lparr>usb_pm_top := USBD_PM_TOP + 2 * of_nat max_packet\<rparr>)) (\<lambda>_.
             give USBD_REQ_HANDLED))) (?S, P) USBD_REQ_HANDLED (?T1, P)" for P
    by (rule effect_bindc [OF eff_ubus [OF eff_disable_others [OF H]]], rule effect_bindc [OF m], rule effect_give)
  have "effect (urun E) (usbd_standard_request_device C H) (?S, P) USBD_REQ_HANDLED (?T1, P)" for P
    unfolding usbd_standard_request_device_def
    by (rule eff_get, simp) (use d in \<open>simp add: q r config_part_def\<close>)
  then have c: "effect (urun E) (usb_control_request_dispatch C H) (?S, F, sc) USBD_REQ_HANDLED (?T1, F, sc)" for F sc
    by (intro eff_standard_device) (simp_all only: q r)
  have T1: "usb_base ?T1"
    using b by (simp add: setup_state_def usb_base_def nak_def between_def)
  have a: "daddr (addressed ?r F) = daddr F" by (simp add: addressed_def r)
  show ?thesis
    by (rule serves_weaken [OF serves_nodata [OF H b r(4) c _ T1 q(2)]])
      (use a in \<open>auto simp: Let_def setup_state_def intro!: eff_no_callback\<close>)
qed

end
