(* ===== verification/UsbLoop.thy ===== *)
theory UsbLoop
  imports UsbPolls Boot
begin

text \<open>
  The main loop around the polls: the lamps and the tick interrupts do not show in the view
  of the device, so a turn of the loop does to it what its poll does.
\<close>

definition brun :: "periph \<times> host \<Rightarrow> board \<Rightarrow> usb_view" where
  "brun E b = urun E (usb_part b)"

text \<open>The port of the lamps answers.\<close>

definition lamp_hw :: "hw \<Rightarrow> bool" where
  "lamp_hw H \<longleftrightarrow> (\<forall>h v. H h (Store W32 (GPIO_BSRR GPIOC) v) \<noteq> None)"

lemma ends_on_usb:
  assumes "ends (urun E) c V Q"
  shows "ends (brun E) (on_usb c) V Q"
  unfolding ends_def
proof (intro allI impI)
  fix b assume "brun E b = V"
  then have "Q (view_result (urun E) (c (usb_part b)))" using assms by (simp add: ends_def brun_def)
  then show "Q (view_result (brun E) (on_usb c b))"
    by (cases "c (usb_part b)") (simp_all add: view_result_def on_usb_def zoom_def brun_def)
qed

lemma eff_on_usb: "effect (urun E) c V x V' \<Longrightarrow> effect (brun E) (on_usb c) V x V'"
  unfolding ends_effect by (rule ends_on_usb)

lemma eff_local:
  assumes "\<And>b. usb_part (f b) = usb_part b"
  shows "effect (brun E) (modc f) V () V"
  by (rule effect_modc) (simp add: brun_def assms)

lemma eff_lamp:
  assumes "lamp_hw H"
  shows "effect (uview E) (gpio_set H GPIOC n) V () V" "effect (uview E) (gpio_clear H GPIOC n) V () V"
proof -
  have a: "\<not> usb_range (GPIO_BSRR GPIOC)" "own (GPIO_BSRR GPIOC)"
    by (simp_all add: own_def) (simp add: usb_range_def reg_defs GPIOC_def)
  have "effect (uview E) (store32 H (GPIO_BSRR GPIOC) v) V () V" for v
    unfolding effect_def
  proof (intro allI impI)
    fix h assume h: "uview E h = V"
    have "H h (Store W32 (GPIO_BSRR GPIOC) v) \<noteq> None" using assms unfolding lamp_hw_def by blast
    then have "store32 H (GPIO_BSRR GPIOC) v h = Done () (Stored W32 (GPIO_BSRR GPIOC) v # h)"
      by (auto simp: store_def)
    moreover have "uview E (Stored W32 (GPIO_BSRR GPIOC) v # h) = V"
      using h a uv.view_store [OF a(1), of E W32 v h] by (simp add: uview_def)
    ultimately show "\<exists>h'. store32 H (GPIO_BSRR GPIOC) v h = Done () h' \<and> uview E h' = V" by blast
  qed
  then show "effect (uview E) (gpio_set H GPIOC n) V () V" "effect (uview E) (gpio_clear H GPIOC n) V () V"
    by (simp_all add: gpio_set_def gpio_clear_def)
qed

lemma eff_ubus_same:
  assumes "\<And>V. effect (uview E) c V () V"
  shows "effect (urun E) (ubus c) V () V"
  by (cases V) (auto intro: eff_ubus assms)

text \<open>A command that reads its own variables only, by cases on what it reads.\<close>

lemma ends_read:
  assumes "\<And>x. ends (brun E) (g x) V Q"
  shows "ends (brun E) (bindc (getc f) g) V Q"
  using assms by (simp add: ends_def bindc_def getc_def)

lemma eff_read: "(\<And>x. effect (brun E) (g x) V y V') \<Longrightarrow> effect (brun E) (bindc (getc f) g) V y V'"
  unfolding ends_effect by (rule ends_read)

lemma eff_blink:
  assumes "lamp_hw H"
  shows "effect (brun E) (blink H) V () V"
proof -
  note l = eff_lamp [OF assms]
  have u: "effect (uview E) (block (if st \<noteq> (0 :: u8)
        then [gpio_set H GPIOC GPIO_LED_1, gpio_clear H GPIOC GPIO_LED_2]
        else [gpio_clear H GPIOC GPIO_LED_1, gpio_set H GPIOC GPIO_LED_2])) W () W" for W st
    by (cases "st = 0") (auto intro: effect_bindc l)
  show ?thesis unfolding blink_def
    by (intro eff_read effect_block_Cons [OF eff_on_usb [OF eff_ubus_same [OF u]]]
        effect_block_Cons [OF eff_local] effect_block_Nil) simp
qed

lemma eff_ticks: "effect (brun E) (block (replicate k systick_handler)) V () V"
proof (induction k)
  case (Suc k)
  have "effect (brun E) systick_handler V () V"
    unfolding systick_handler_def by (rule eff_local) simp
  with Suc show ?case by (simp only: replicate_Suc effect_block_Cons)
qed (simp add: effect_give)

lemma ends_turn:
  assumes H: "lamp_hw H" and p: "ends (urun E) (do_usb_poll C H) V Q"
  shows "ends (brun E) (main_loop C H k) V Q"
proof -
  have 1: "effect (brun E) (block
          [block (replicate k systick_handler),
           bindc systick_get (\<lambda>t'. modc (\<lambda>b. b\<lparr>cnt := t' + 500\<rparr>)), blink H]) V () V"
    unfolding systick_get_def
    by (rule effect_block_Cons [OF eff_ticks], rule effect_block_Cons [OF eff_read [OF eff_local]], simp,
        rule effect_block_Cons [OF eff_blink [OF H]], rule effect_block_Nil)
  have 2: "effect (brun E) (bindc (getc cnt) (\<lambda>c. bindc systick_get (\<lambda>t.
        if c < t
        then block
          [block (replicate k systick_handler),
           bindc systick_get (\<lambda>t'. modc (\<lambda>b. b\<lparr>cnt := t' + 500\<rparr>)),
           blink H]
        else skip))) V () V"
    unfolding systick_get_def
    by (intro eff_read) (use 1 [unfolded systick_get_def] in \<open>simp add: effect_give\<close>)
  have 3: "ends (brun E) (block [on_usb (do_usb_poll C H)]) V Q"
    using ends_on_usb [OF p] by simp
  show ?thesis unfolding main_loop_def by (rule ends_block_after [OF 2 3])
qed

text \<open>
  Turns of the loop with interrupts: before each turn some ticks, and in it, between the two
  reads of the counter, some more.
\<close>

definition loop_turns :: "config \<Rightarrow> hw \<Rightarrow> (nat \<times> nat) list \<Rightarrow> (board, unit) cmd" where
  "loop_turns C H ks =
     block (map (\<lambda>(t, k). bindc (block (replicate t systick_handler)) (\<lambda>_. main_loop C H k)) ks)"

lemma polled_turns:
  assumes "lamp_hw H" and "polled C H E (length ks) V Q"
  shows "ends (brun E) (loop_turns C H ks) V Q"
  unfolding loop_turns_def
proof (rule polled_loop)
  show "polled C H E (length (map (\<lambda>(t, k). bindc (block (replicate t systick_handler)) (\<lambda>_. main_loop C H k)) ks)) V Q"
    using assms(2) by simp
  show "ends (brun E) c V Q"
    if "c \<in> set (map (\<lambda>(t, k). bindc (block (replicate t systick_handler)) (\<lambda>_. main_loop C H k)) ks)"
      "ends (urun E) (do_usb_poll C H) V Q" for c V Q
    using that(1) by (auto intro!: ends_after [OF eff_ticks] ends_turn [OF assms(1) that(2)])
qed

text \<open>A script served by the loop.\<close>

lemma serves_turns:
  assumes "serves C H E (tokens sc) (seen (usb_part b), F) Q" and "usb_hw H E" "lamp_hw H" and "nothing_due F"
    and "usb_run E (io (dfu_part (usb_part b))) = (F, sc)" and "length ks = Suc (turns_of sc)"
  shows "case loop_turns C H ks b of
      Done _ b' \<Rightarrow> \<exists>F'. usb_run E (io (dfu_part (usb_part b'))) = (F', []) \<and> Q (Done () (seen (usb_part b'), F'))
    | Stopped q b' \<Rightarrow> \<exists>F'. Q (Stopped q (seen (usb_part b'), F'))"
proof -
  from polled_turns [OF assms(3), of C E ks, unfolded assms(6), OF serves_polls [OF assms(1,2,4)]] assms(5)
  have "served [] Q (view_result (brun E) (loop_turns C H ks b))"
    by (simp add: ends_def brun_def urun_def)
  then show ?thesis
    by (cases "loop_turns C H ks b") (auto simp: served_def view_result_def brun_def urun_def split: prod.splits)
qed

lemma loop_turns_reach:
  assumes "main_reach C H b" and "loop_turns C H ks b = Done x b'"
  shows "main_reach C H b'"
  using assms
proof (induction ks arbitrary: b)
  case (Cons tk ks)
  obtain t k where tk: "tk = (t, k)" by (cases tk)
  have ticks: "main_reach C H b \<Longrightarrow> block (replicate t systick_handler) b = Done y c \<Longrightarrow> main_reach C H c" for t b y c
    by (induction t arbitrary: b)
      (auto simp: give_def bindc_def split: result.splits intro: main_reach.tick)
  from Cons.prems(2) obtain y c z d where
    "block (replicate t systick_handler) b = Done y c" "main_loop C H k c = Done z d" "loop_turns C H ks d = Done x b'"
    by (auto simp: loop_turns_def tk bindc_def split: result.splits)
  with ticks Cons main_reach.turn show ?case by metis
qed (simp add: loop_turns_def give_def)

end
