(* ===== verification/EndToEnd.thy ===== *)
theory EndToEnd
  imports BoardSim DfuApart UsbPeriph
begin

text \<open>
  From the host's download to the start of the application. The class code leaves the RAM
  chip alone, a download puts the image into the flash, the manifest request resets the
  device, and the boot code that runs next finds a valid application and jumps to it.
\<close>

section \<open>Leaving DFU mode\<close>

text \<open>
  The host ends the session with a DNLOAD of length zero and a GETSTATUS; each is followed
  by the completion callback it asked for.
\<close>

definition dfu_leave :: "config \<Rightarrow> hw \<Rightarrow> (dfu, unit) cmd" where
  "dfu_leave C H = block
     [bindc (usbdfu_control_request C H (dnload_request 0 0) 0) (\<lambda>_. skip),
      usbdfu_getstatus_complete C H (dnload_request 0 0),
      bindc (usbdfu_control_request C H getstatus_request 6) (\<lambda>_. skip),
      usbdfu_getstatus_complete C H getstatus_request]"

lemma leave_resets:
  assumes "reset_hw H"
  shows "\<exists>s'. dfu_leave C H s = Stopped Reset s' \<and>
    io s' = Stored W32 0xE000ED0C 0x05FA0004 # Stored W32 stack_word 0 # io s"
proof -
  let ?s1 = "s\<lparr>usbdfu_state := STATE_DFU_MANIFEST_SYNC\<rparr>"
  have 1: "usbdfu_control_request C H (dnload_request 0 0) 0 s = Done (USBD_REQ_HANDLED, 0, True) ?s1"
    by (simp add: request_defs dnload_request_def dfu_req_of_def set_state_def)
  have 2: "usbdfu_getstatus_complete C H (dnload_request 0 0) ?s1 = Done () ?s1"
    by (simp add: complete_cases)
  obtain x s2 where 3: "usbdfu_control_request C H getstatus_request 6 ?s1 = Done x s2"
    "usbdfu_state s2 = STATE_DFU_MANIFEST" "io s2 = io s"
    by (simp add: request_defs getstatus_request_def dfu_req_of_def usbdfu_getstatus_def
        set_state_def put_buffer_def)
  have "\<exists>s'. usbdfu_getstatus_complete C H getstatus_request s2 = Stopped Reset s' \<and>
    io s' = Stored W32 0xE000ED0C 0x05FA0004 # Stored W32 stack_word 0 # io s2"
    using reset_block [OF assms, of "io s2"] by (simp add: complete_cases 3(2) bus_def zoom_def)
  with 1 2 3 show ?thesis by (simp add: dfu_leave_def bindc_def give_def)
qed

section \<open>From the tool to the jump\<close>

lemma patched_length:
  assumes len: "36 \<le> length fw" "length fw \<le> 122880" and out: "checksum_py fw None = Inr img"
  shows "length img mod 4 = 0" "length img \<le> 122880"
proof -
  from pad_word_append [of fw] obtain zs where p: "pad_word fw = fw @ zs" "length zs < 4" by auto
  note m = length_pad_word [of fw]
  from m obtain q where "length (pad_word fw) = 4 * q" by auto
  with p len have "length (pad_word fw) \<le> 122880" "36 \<le> length (pad_word fw)" by simp_all
  moreover from checksum_py_default [of fw] len out
  obtain x where "img = take 0x1C (pad_word fw) @ bytes32 x @
      bytes32 (of_nat (length (pad_word fw) div 4)) @ drop 0x24 (pad_word fw)" by auto
  ultimately show "length img mod 4 = 0" "length img \<le> 122880" using m by simp_all
qed

text \<open>The boot code that runs with the image in the flash and the reboot word cleared.\<close>

lemma image_boots:
  assumes len: "36 \<le> length fw" "length fw \<le> 122880" and out: "checksum_py fw None = Inr img"
    and sp: "le32 (fw ! 0) (fw ! 1) (fw ! 2) (fw ! 3) AND 0x2FFE0000 = 0x20000000"
    and hw: "boot_hw H F0 S0 w0" and i: "fpec_idle H F0 h" "sram_idle H S0 h"
    and m: "\<not> image_spec (sram_mem S0 h)" and k: "stack_run w0 h = 0"
    and f: "flash_content F0 h = image_cells 0x08002000 img f0"
  shows "\<exists>h'. boot flash_config H h = Stopped (JumpApp (le32 (fw ! 0) (fw ! 1) (fw ! 2) (fw ! 3))
      (le32 (fw ! 4) (fw ! 5) (fw ! 6) (fw ! 7))) h'"
proof -
  have r: "at_reset H F0 S0 w0 h"
    using hw i by (auto simp: at_reset_def fpec_rest_def sram_idle_def fpec_idle_def)
  from boot_decides [OF r] m k f patched_image_valid [OF len out sp, of f0]
  show ?thesis by auto
qed

text \<open>The two stores that end a session are seen by the reboot word alone.\<close>

lemma leave_views:
  assumes "foreign h' = Stored W32 0xE000ED0C 0x05FA0004 # Stored W32 stack_word 0 # h"
  shows "sram_run S0 h' = sram_run S0 h" "fpec_run F0 h' = fpec_run F0 h" "stack_run w0 h' = 0"
proof -
  have t: "\<not> touches_sram W32 0xE000ED0C" "\<not> touches_sram W32 stack_word"
    "\<not> touches_fpec W32 0xE000ED0C" "\<not> touches_fpec W32 stack_word"
    by (simp_all add: reg_defs SPI_SRAM_PORT_def)
  have "sram_run S0 (foreign h') = sram_run S0 h" "fpec_run F0 (foreign h') = fpec_run F0 h"
    "stack_run w0 (foreign h') = 0"
    unfolding assms by (simp_all only: sv.view_store [OF t(1)] sv.view_store [OF t(2)]
        fv.view_store [OF t(3)] fv.view_store [OF t(4)]) (simp add: stack_word_def)
  then show "sram_run S0 h' = sram_run S0 h" "fpec_run F0 h' = fpec_run F0 h" "stack_run w0 h' = 0"
    by simp_all
qed

lemma download_leave_boot:
  assumes d: "dfu_ready C H F0 s" and len: "36 \<le> length fw" "length fw \<le> 122880"
    and out: "checksum_py fw None = Inr img"
    and sp: "le32 (fw ! 0) (fw ! 1) (fw ! 2) (fw ! 3) AND 0x2FFE0000 = 0x20000000"
    and hw: "boot_hw H F0 S0 w0" and chip: "sram_idle H S0 (io s)" "\<not> image_spec (sram_mem S0 (io s))"
  shows "\<exists>s' h'. bindc (dfu_download C H 0x08002000 img) (\<lambda>_. dfu_leave C H) s = Stopped Reset s' \<and>
    boot flash_config H (io s') = Stopped (JumpApp (le32 (fw ! 0) (fw ! 1) (fw ! 2) (fw ! 3))
      (le32 (fw ! 4) (fw ! 5) (fw ! 6) (fw ! 7))) h'"
proof -
  note l = patched_length [OF len out]
  have "even (length img)" using l(1) dvd_trans [of 2 4 "length img"] by (simp add: dvd_eq_mod_eq_0)
  with download_writes [OF d app_page_base, of img] l(2) obtain s1 where
    1: "dfu_download C H 0x08002000 img s = Done () s1" "dfu_ready C H F0 s1"
      "flash_content F0 (io s1) = image_cells 0x08002000 img (flash_content F0 (io s))" by auto
  have "reset_hw H" using hw by (simp add: boot_hw_def)
  from leave_resets [OF this] obtain s2 where 2: "dfu_leave C H s1 = Stopped Reset s2"
    "io s2 = Stored W32 0xE000ED0C 0x05FA0004 # Stored W32 stack_word 0 # io s1" by blast
  have g: "sram_run S0 (io s1) = sram_run S0 (io s)"
    using sa.class_download [OF _ 1(1)] d by (auto simp: dfu_ready_def)
  have "foreign (io s2) = Stored W32 0xE000ED0C 0x05FA0004 # Stored W32 stack_word 0 # foreign (io s1)"
    by (simp add: 2(2))
  from leave_views [OF this] have v: "sram_run S0 (io s2) = sram_run S0 (io s1)"
    "fpec_run F0 (io s2) = fpec_run F0 (io s1)" "stack_run w0 (io s2) = 0" by simp_all
  obtain h' where "boot flash_config H (io s2) = Stopped (JumpApp
      (le32 (fw ! 0) (fw ! 1) (fw ! 2) (fw ! 3)) (le32 (fw ! 4) (fw ! 5) (fw ! 6) (fw ! 7))) h'"
    using image_boots [OF len out sp hw, of "io s2" "flash_content F0 (io s)"] v g 1(2,3) chip
    by (auto simp: dfu_ready_def fpec_idle_def sram_idle_def sram_mem_def flash_content_def)
  with 1(1) 2(1) show ?thesis by (simp add: bindc_def)
qed

section \<open>From the staged image to the jump\<close>

text \<open>An image of the checksum tool in the RAM chip, behind a header.\<close>

definition stages :: "(u32 \<Rightarrow> u8) \<Rightarrow> u32 \<Rightarrow> u8 list \<Rightarrow> bool" where
  "stages m off img \<longleftrightarrow>
     staged_header m = \<lparr>magic = SRAM_IMAGE_MAGIC, offset = off, hdr_size = of_nat (length img)\<rparr> \<and>
     bytes_at m off (length img) = img \<and> 12 \<le> unat off \<and> unat off + length img \<le> 122892"

lemma staged_patched:
  assumes st: "stages m off img" and len: "36 \<le> length fw" "length fw \<le> 122880"
    and out: "checksum_py fw None = Inr img"
  shows "image_spec m" and "installed m f = image_cells 0x08002000 img f"
proof -
  note l = patched_length [OF len out]
  have s: "unat (of_nat (length img) :: u32) = length img" using l(2) by (simp add: unat_of_nat take_bit_eq_mod)
  have hd: "magic (staged_header m) = SRAM_IMAGE_MAGIC" "offset (staged_header m) = off"
    "hdr_size (staged_header m) = of_nat (length img)"
    "bytes_at m off (length img) = img" "12 \<le> unat off" "unat off + length img \<le> 122892"
    using st by (simp_all add: stages_def)
  from checksum_py_default [of fw] len out obtain x where
    x: "img = take 0x1C (pad_word fw) @ bytes32 x @ bytes32 (of_nat (length (pad_word fw) div 4)) @
        drop 0x24 (pad_word fw)" "xor_sum img = 0" by auto
  then have "0 < length img" by (simp add: bytes32_def)
  with l hd x(2) show "image_spec m" by (simp add: image_spec_def bounds_spec_def s)
  show "installed m f = image_cells 0x08002000 img f" using hd by (simp add: installed_def s)
qed

lemma staged_install_boot:
  assumes r: "at_reset H F0 S0 w0 h" and st: "stages (sram_mem S0 h) off img"
    and len: "36 \<le> length fw" "length fw \<le> 122880" and out: "checksum_py fw None = Inr img"
    and sp: "le32 (fw ! 0) (fw ! 1) (fw ! 2) (fw ! 3) AND 0x2FFE0000 = 0x20000000"
  shows "\<exists>h1 h2. boot flash_config H h = Stopped Reset h1 \<and>
    boot flash_config H h1 = Stopped (JumpApp (le32 (fw ! 0) (fw ! 1) (fw ! 2) (fw ! 3))
      (le32 (fw ! 4) (fw ! 5) (fw ! 6) (fw ! 7))) h2"
proof -
  note i = staged_patched [OF st len out]
  note v = patched_image_valid [OF len out sp, of "flash_content F0 h"]
  from install_then_boot [OF r i(1)] v show ?thesis by (auto simp: i(2))
qed

end
