(* ===== verification/UsbSession.thy ===== *)
theory UsbSession
  imports UsbEnum UsbLoop EndToEnd
begin

text \<open>
  A whole download on the wire. The packets of one block refine the exchange of the class
  code, so the device on the wire keeps the contract \<open>block_session\<close>; a host that sends an
  image and leaves DFU mode, packet by packet, makes the device program the image and reset.
\<close>

section \<open>One block on the wire\<close>

definition exchange_packets :: "u16 \<Rightarrow> u8 list \<Rightarrow> transaction list" where
  "exchange_packets bn data = dnload_packets bn data @ getstatus_packets"

definition busy_reply :: "u8 list" where
  "busy_reply = getstatus_reply (status_byte DFU_STATUS_OK) 100 STATE_DFU_DNBUSY"

lemma length_busy_reply [simp]: "length busy_reply = 6"
  by (simp add: busy_reply_def getstatus_reply_def)

lemma busy_state_io:
  "(busy_state bn data s)\<lparr>io := h\<rparr> = busy_state bn data (s\<lparr>io := h\<rparr>)"
  "(loaded bn data s)\<lparr>io := h\<rparr> = loaded bn data (s\<lparr>io := h\<rparr>)"
  by (simp_all add: busy_state_def loaded_def)

lemma dview_io: "dview (s\<lparr>io := h\<rparr>) = s\<lparr>io := foreign h\<rparr>"
  by (simp add: dview_def)

text \<open>The refinement: what the class code does with the block, the packets do.\<close>

lemma serves_exchange:
  assumes H: "usb_hw H E" and b: "between T F" and l: "0 < length data" "length data \<le> 1024"
    and e: "ends dview (dfu_exchange C H bn data) (dfu_part T) Qd"
    and ok: "\<And>d. Qd (Done () d) \<Longrightarrow> dfu_ok d"
  shows "serves C H E (exchange_packets bn data) (T, F) (\<lambda>r. case r of
      Done _ (T', F') \<Rightarrow> between T' F' \<and> Qd (Done () (dfu_part T')) \<and>
        host_got F' = busy_reply # [] # host_got F \<and> daddr F' = daddr F
    | Stopped q (T', F') \<Rightarrow> Qd (Stopped q (dfu_part T')))" (is "serves _ _ _ _ _ ?Q")
  unfolding exchange_packets_def
proof (rule serves_append [OF serves_dnload [OF H b l]])
  fix B
  assume "\<exists>T' F'. Done () B = (Done () (T', F') :: (device_state, unit) result) \<and> between T' F' \<and>
    dfu_part T' = loaded bn data (dfu_part T) \<and> host_got F' = [] # host_got F \<and> daddr F' = daddr F"
  then obtain T1 F1 where B: "B = (T1, F1)" and 1: "between T1 F1" "dfu_part T1 = loaded bn data (dfu_part T)"
    "host_got F1 = [] # host_got F" "daddr F1 = daddr F" by auto
  let ?D = "busy_state bn data (dfu_part T)"
  have okT: "dfu_ok (dfu_part T)" using b by (simp add: between_def usb_base_def)
  have D: "dfu_ok ?D" by (rule exchange_unfold(2) [OF okT l])
  have c: "usbdfu_control_request C H getstatus_request 6 ((dfu_part T1)\<lparr>io := h\<rparr>) =
      Done (USBD_REQ_HANDLED, 6, True) (?D\<lparr>io := h\<rparr>)" for h
    unfolding 1(2) busy_state_io by (rule request_busy)
  have fin: "ends dview (usbdfu_getstatus_complete C H getstatus_request) (?D\<lparr>io := io (dfu_part T1)\<rparr>) Qd"
    unfolding ends_def
  proof (intro allI impI)
    fix d assume d: "dview d = ?D\<lparr>io := io (dfu_part T1)\<rparr>"
    let ?s = "(dfu_part T)\<lparr>io := io d\<rparr>"
    have io: "io (dfu_part T1) = io (dfu_part T)" by (simp add: 1(2) loaded_def)
    have f: "foreign (io d) = io (dfu_part T)"
      using arg_cong [OF d, of io] by (simp add: dview_def io)
    have "dview ?s = dfu_part T" by (simp add: dview_io f)
    then have "Qd (view_result dview (dfu_exchange C H bn data ?s))" using e by (simp add: ends_def)
    moreover have "d = busy_state bn data ?s"
    proof -
      have "(dview d)\<lparr>io := io d\<rparr> = d" by (simp add: dview_def)
      then show ?thesis unfolding d by (simp add: busy_state_io)
    qed
    ultimately show "Qd (view_result dview (usbdfu_getstatus_complete C H getstatus_request d))"
      using exchange_unfold(1) [of ?s data C H bn] okT l by simp
  qed
  have r: "take 6 (usbd_control_buffer ?D) = busy_reply"
    using okT l take_overwrite_0 [of busy_reply "overwrite 0 data (usbd_control_buffer (dfu_part T))"]
    by (simp add: busy_state_def busy_reply_def [symmetric] dfu_ok_def DFU_TRANSFER_SIZE_def)
  show "serves C H E getstatus_packets B ?Q"
    unfolding B
    by (rule serves_weaken [OF serves_getstatus [OF H 1(1) D c fin ok]])
      (use r 1(3,4) in \<open>auto split: result.splits\<close>)
qed auto

section \<open>The state between two blocks\<close>

lemma ready_dview [simp]: "dfu_ready C H F0 (dview d) = dfu_ready C H F0 d"
  by (simp add: dfu_ready_def dview_def fpec_idle_def dfu_ok_def)

lemma content_foreign [simp]: "flash_content F0 (foreign h) = flash_content F0 h"
  by (simp add: flash_content_def)

lemma dview_fields [simp]:
  "prog_addr (dview d) = prog_addr d" "usbdfu_state (dview d) = usbdfu_state d"
  "io (dview d) = foreign (io d)"
  by (simp_all add: dview_def)

text \<open>
  The flash is idle, the RAM chip is in the state \<open>G\<close>, and since the start of the session the
  host has received nothing but empty status packets and replies with the status OK.
\<close>

definition wire_ready :: "config \<Rightarrow> hw \<Rightarrow> fpec \<Rightarrow> sram \<Rightarrow> sram \<Rightarrow> u8 list list \<Rightarrow> u16 \<Rightarrow> device_state \<Rightarrow> bool" where
  "wire_ready C H F0 S0 G g0 addr A \<longleftrightarrow> (case A of (T, F) \<Rightarrow>
     between T F \<and> dfu_ready C H F0 (dfu_part T) \<and> sram_run S0 (io (dfu_part T)) = G \<and>
     daddr F = addr \<and> (\<exists>k. host_got F = concat (replicate k [busy_reply, []]) @ g0))"

abbreviation finishes_with :: "('s \<Rightarrow> bool) \<Rightarrow> ('s, unit) result \<Rightarrow> bool" where
  "finishes_with Q r \<equiv> (case r of Done _ s \<Rightarrow> Q s | Stopped _ _ \<Rightarrow> False)"

lemma wire_block:
  assumes H: "usb_hw H E" and r: "wire_ready C H F0 S0 G g0 addr (T, F)"
    and l: "0 < length data" "length data \<le> 1024"
    and x: "\<And>s. dview s = dfu_part T \<Longrightarrow> \<exists>s'. dfu_exchange C H bn data s = Done () s' \<and>
      dfu_ready C H F0 s' \<and> prog_addr s' = ptr \<and> flash_content F0 (io s') = f"
  shows "serves C H E (exchange_packets bn data) (T, F) (finishes_with (\<lambda>(T', F').
    wire_ready C H F0 S0 G g0 addr (T', F') \<and> prog_addr (dfu_part T') = ptr \<and>
    flash_content F0 (io (dfu_part T')) = f))"
proof -
  let ?Qd = "finishes_with (\<lambda>d. dfu_ready C H F0 d \<and> sram_run S0 (io d) = G \<and> prog_addr d = ptr \<and>
    flash_content F0 (io d) = f)"
  have T: "between T F" "dfu_ready C H F0 (dfu_part T)" "sram_run S0 (io (dfu_part T)) = G"
    using r by (simp_all add: wire_ready_def)
  have e: "ends dview (dfu_exchange C H bn data) (dfu_part T) ?Qd"
    unfolding ends_def
  proof (intro allI impI)
    fix s assume s: "dview s = dfu_part T"
    from x [OF s] obtain s' where 1: "dfu_exchange C H bn data s = Done () s'" "dfu_ready C H F0 s'"
      "prog_addr s' = ptr" "flash_content F0 (io s') = f" by blast
    have "dfu_ok s" using T(2) s by (metis dfu_ready_def ready_dview)
    moreover have "sram_run S0 (io s) = G" using T(3) s by (metis dview_fields(3) sd.view_foreign)
    ultimately have "sram_run S0 (io s') = G" using sa.class_exchange [OF _ l 1(1), of S0 G] by simp
    with 1 show "?Qd (view_result dview (dfu_exchange C H bn data s))" by (simp add: view_result_def)
  qed
  show ?thesis
  proof (rule serves_weaken [OF serves_exchange [OF H T(1) l e]])
    show "dfu_ok d" if "?Qd (Done () d)" for d using that by (simp add: dfu_ready_def)
  next
    fix q :: "(device_state, unit) result"
    assume q: "case q of
        Done _ (T', F') \<Rightarrow> between T' F' \<and> ?Qd (Done () (dfu_part T')) \<and>
          host_got F' = busy_reply # [] # host_got F \<and> daddr F' = daddr F
      | Stopped q (T', F') \<Rightarrow> ?Qd (Stopped q (dfu_part T'))"
    from r obtain k where k: "host_got F = concat (replicate k [busy_reply, []]) @ g0" "daddr F = addr"
      by (auto simp: wire_ready_def)
    have "busy_reply # [] # host_got F = concat (replicate (Suc k) [busy_reply, []]) @ g0"
      by (simp add: k)
    with q k(2) show "finishes_with (\<lambda>(T', F'). wire_ready C H F0 S0 G g0 addr (T', F') \<and>
        prog_addr (dfu_part T') = ptr \<and> flash_content F0 (io (dfu_part T')) = f) q"
      by (auto simp: wire_ready_def simp del: replicate.simps split: result.splits)
  qed
qed

section \<open>The contract on the wire\<close>

fun blocks_packets :: "u16 \<Rightarrow> u8 list list \<Rightarrow> transaction list" where
  "blocks_packets bn [] = []"
| "blocks_packets bn (d # ds) = exchange_packets bn d @ blocks_packets (bn + 1) ds"

text \<open>A named lemma for the interpretation below\<close>

lemma wire_write_block:
  assumes H: "usb_hw H E" and r: "wire_ready C H F0 S0 G g0 addr A"
    and l: "0 < length data" "length data \<le> 1024"
    and p: "bn \<noteq> 0" "block_address (prog_addr (dfu_part (fst A))) bn = p" "page_base p" "page_ok p (length data)"
  shows "serves C H E (exchange_packets bn data) A (finishes_with (\<lambda>A'. wire_ready C H F0 S0 G g0 addr A' \<and>
    prog_addr (dfu_part (fst A')) = prog_addr (dfu_part (fst A)) \<and>
    flash_content F0 (io (dfu_part (fst A'))) =
      rewrite_page p data (length data) (flash_content F0 (io (dfu_part (fst A))))))"
proof -
  obtain T F where A: "A = (T, F)" by (cases A)
  have R: "dfu_ready C H F0 (dfu_part T)" using r by (simp add: A wire_ready_def)
  have "\<exists>s'. dfu_exchange C H bn data s = Done () s' \<and> dfu_ready C H F0 s' \<and>
      prog_addr s' = prog_addr (dfu_part T) \<and>
      flash_content F0 (io s') = rewrite_page p data (length data) (flash_content F0 (io (dfu_part T)))"
    if s: "dview s = dfu_part T" for s
  proof -
    have "dfu_ready C H F0 s" "prog_addr s = prog_addr (dfu_part T)"
      "flash_content F0 (io s) = flash_content F0 (io (dfu_part T))"
      using R by (simp_all flip: s)
    with write_block [of C H F0 s data bn p] l p A show ?thesis by auto
  qed
  from wire_block [OF H r [unfolded A] l this] show ?thesis
    unfolding A by (rule serves_weaken) (auto split: result.splits)
qed

interpretation ws: block_session
  "\<lambda>A. usb_hw H E \<and> wire_ready C H F0 S0 G g0 addr A"
  "\<lambda>A. prog_addr (dfu_part (fst A))" "\<lambda>A. flash_content F0 (io (dfu_part (fst A)))"
  "\<lambda>bn d A Q. serves C H E (exchange_packets bn d) A (finishes_with Q)"
  "\<lambda>bn ds A Q. serves C H E (blocks_packets bn ds) A (finishes_with Q)" for C H E F0 S0 G g0 addr
proof
  show "serves C H E (exchange_packets bn data) A (finishes_with (\<lambda>A'.
      (usb_hw H E \<and> wire_ready C H F0 S0 G g0 addr A') \<and>
      prog_addr (dfu_part (fst A')) = prog_addr (dfu_part (fst A)) \<and>
      flash_content F0 (io (dfu_part (fst A'))) =
        rewrite_page p data (length data) (flash_content F0 (io (dfu_part (fst A))))))"
    if "usb_hw H E \<and> wire_ready C H F0 S0 G g0 addr A" "0 < length data" "length data \<le> 1024" "bn \<noteq> 0"
      "block_address (prog_addr (dfu_part (fst A))) bn = p" "page_base p" "page_ok p (length data)"
    for A data bn p
  proof (rule serves_weaken [OF wire_write_block [OF _ _ that(2-7)]])
    show "usb_hw H E" "wire_ready C H F0 S0 G g0 addr A" using that(1) by simp_all
  qed (use that(1) in \<open>auto split: result.splits\<close>)
  show "serves C H E (blocks_packets bn []) A (finishes_with Q)"
    if "usb_hw H E \<and> wire_ready C H F0 S0 G g0 addr A" "Q A" for A Q bn
    using that by (cases A) (auto intro!: serves_pause rest_nothing_due simp: wire_ready_def between_def)
  show "serves C H E (blocks_packets bn (d # ds)) A (finishes_with Q)"
    if "serves C H E (exchange_packets bn d) A (finishes_with R)"
      "\<And>B. R B \<Longrightarrow> serves C H E (blocks_packets (bn + 1) ds) B (finishes_with Q)" for bn d A R ds Q
    using that by (auto intro: serves_append)
qed

section \<open>A download on the wire\<close>

definition download_packets :: "u32 \<Rightarrow> u8 list \<Rightarrow> transaction list" where
  "download_packets a img =
     exchange_packets 0 (CMD_SETADDR # bytes32 a) @ blocks_packets 2 (host_blocks img)"

lemma wire_download:
  assumes H: "usb_hw H E" and r: "wire_ready C H F0 S0 G g0 addr (T, F)"
    and a: "page_base a" "0x08002000 \<le> unat a" "unat a + length img \<le> 0x08020000" "even (length img)"
  shows "serves C H E (download_packets a img) (T, F) (finishes_with (\<lambda>(T', F').
    wire_ready C H F0 S0 G g0 addr (T', F') \<and> prog_addr (dfu_part T') = a \<and>
    flash_content F0 (io (dfu_part T')) = image_cells a img (flash_content F0 (io (dfu_part T)))))"
proof -
  let ?f = "flash_content F0 (io (dfu_part T))"
  have R: "dfu_ready C H F0 (dfu_part T)" using r by (simp add: wire_ready_def)
  have x: "\<exists>s'. dfu_exchange C H 0 (CMD_SETADDR # bytes32 a) s = Done () s' \<and> dfu_ready C H F0 s' \<and>
      prog_addr s' = a \<and> flash_content F0 (io s') = ?f" if s: "dview s = dfu_part T" for s
  proof -
    have "dfu_ready C H F0 s" "flash_content F0 (io s) = ?f" using R by (simp_all flip: s)
    with set_address [of C H F0 s a] show ?thesis by auto
  qed
  have l: "0 < length (CMD_SETADDR # bytes32 a)" "length (CMD_SETADDR # bytes32 a) \<le> 1024" by simp_all
  show ?thesis unfolding download_packets_def
  proof (rule serves_append [OF wire_block [OF H r l x]])
    fix B
    assume "finishes_with (\<lambda>(T', F'). wire_ready C H F0 S0 G g0 addr (T', F') \<and>
      prog_addr (dfu_part T') = a \<and> flash_content F0 (io (dfu_part T')) = ?f) (Done () B)"
    then obtain T1 F1 where B: "B = (T1, F1)" and 1: "wire_ready C H F0 S0 G g0 addr (T1, F1)"
      "prog_addr (dfu_part T1) = a" "flash_content F0 (io (dfu_part T1)) = ?f"
      by (cases B) auto
    have "serves C H E (blocks_packets 2 (host_blocks img)) (T1, F1) (finishes_with (\<lambda>A.
      (usb_hw H E \<and> wire_ready C H F0 S0 G g0 addr A) \<and> prog_addr (dfu_part (fst A)) = prog_addr (dfu_part (fst (T1, F1))) \<and>
      flash_content F0 (io (dfu_part (fst A))) =
        image_cells (prog_addr (dfu_part (fst (T1, F1)))) img (flash_content F0 (io (dfu_part (fst (T1, F1)))))))"
      by (rule ws.image_blocks) (use H 1 a in simp_all)
    then show "serves C H E (blocks_packets 2 (host_blocks img)) B (finishes_with (\<lambda>(T', F').
        wire_ready C H F0 S0 G g0 addr (T', F') \<and> prog_addr (dfu_part T') = a \<and>
        flash_content F0 (io (dfu_part T')) = image_cells a img ?f))"
      unfolding B by (rule serves_weaken) (use 1 in \<open>auto split: result.splits\<close>)
  qed auto
qed

section \<open>Leaving DFU mode on the wire\<close>

text \<open>A DNLOAD without data, and the status request whose completion resets the device.\<close>

definition leave_packets :: "transaction list" where
  "leave_packets = nodata_packets (dnload_request 0 0) @ getstatus_packets"

definition manifest_state :: "dfu \<Rightarrow> dfu" where
  "manifest_state d = d\<lparr>usbdfu_state := STATE_DFU_MANIFEST_SYNC\<rparr>"

definition manifest_reply :: "u8 list" where
  "manifest_reply = getstatus_reply (status_byte DFU_STATUS_OK) 0 STATE_DFU_MANIFEST"

definition manifesting :: "dfu \<Rightarrow> dfu" where
  "manifesting d = d\<lparr>usbdfu_state := STATE_DFU_MANIFEST,
     usbd_control_buffer := overwrite 0 manifest_reply (usbd_control_buffer d)\<rparr>"

lemma request_manifest:
  "usbdfu_control_request C H (dnload_request 0 0) 0 (d\<lparr>io := h\<rparr>) =
    Done (USBD_REQ_HANDLED, 0, True) ((manifest_state d)\<lparr>io := h\<rparr>)"
  "usbdfu_getstatus_complete C H r ((manifest_state d)\<lparr>io := h\<rparr>) = Done () ((manifest_state d)\<lparr>io := h\<rparr>)"
  "usbdfu_control_request C H getstatus_request 6 ((manifest_state d)\<lparr>io := h\<rparr>) =
    Done (USBD_REQ_HANDLED, 6, True) ((manifesting d)\<lparr>io := h\<rparr>)"
  by (cases d; simp add: request_defs dnload_request_def getstatus_request_def dfu_req_of_def set_state_def
      complete_cases usbdfu_getstatus_def put_buffer_def manifest_state_def manifesting_def manifest_reply_def)+

lemma manifest_ok: "dfu_ok d \<Longrightarrow> dfu_ok (manifest_state d)" "dfu_ok d \<Longrightarrow> dfu_ok (manifesting d)"
  by (simp_all add: dfu_ok_def manifest_state_def manifesting_def)

text \<open>The DNLOAD of length zero is an IN transfer without data.\<close>

lemma serves_manifest:
  assumes H: "usb_hw H E" and b: "between T F"
  shows "serves C H E (nodata_packets (dnload_request 0 0)) (T, F) (finishes_with (\<lambda>(T', F').
    between T' F' \<and> dfu_part T' = manifest_state (dfu_part T)))"
proof -
  let ?r = "dnload_request 0 0"
  let ?T1 = "class_state (manifest_state (dfu_part T)) 0 True ((setup_state ?r T)\<lparr>dataoff := 0\<rparr>)"
  let ?T2 = "?T1\<lparr>datasize := 0, usb_fsm_state := STATUS_IN\<rparr>"
  have S: "usb_req (setup_state ?r T) = ?r" "dfu_part (setup_state ?r T) = dfu_part T"
    by (simp_all add: setup_state_def)
  have c: "effect (urun E) (usb_control_request_dispatch C H) ((setup_state ?r T)\<lparr>dataoff := 0\<rparr>, F, sc)
      USBD_REQ_HANDLED (?T1, F, sc)" for F sc
    by (rule eff_dispatch) (simp_all add: S request_manifest(1), simp add: dnload_request_def)
  have T1: "usb_base ?T1" "usb_req ?T1 = ?r" "usb_complete_cb ?T1" "dfu_part ?T1 = manifest_state (dfu_part T)"
    using b manifest_ok(1) [of "dfu_part T"]
    by (simp_all add: class_state_def setup_state_def usb_base_def nak_def manifest_state_def between_def)
  have cb: "effect (urun E) (run_complete_cb C H) (?T2, F, sc) () (?T2, F, sc)" for F sc
    unfolding run_complete_cb_def
  proof (rule eff_get)
    have "effect (urun E) (on_dfu (usbdfu_getstatus_complete C H ?r)) (?T2, F, sc) ()
        (?T2\<lparr>dfu_part := (manifest_state (dfu_part T))\<lparr>io := io (dfu_part ?T2)\<rparr>\<rparr>, F, sc)"
      by (rule eff_on_dfu) (simp add: T1(4) request_manifest(2))
    moreover have "?T2\<lparr>dfu_part := (manifest_state (dfu_part T))\<lparr>io := io (dfu_part ?T2)\<rparr>\<rparr> = ?T2"
      by (simp add: class_state_def manifest_state_def)
    ultimately show "effect (urun E) (case (usb_complete_cb ?T2, usb_req ?T2) of
        (cb, req) \<Rightarrow> if cb then on_dfu (usbdfu_getstatus_complete C H req) else skip) (?T2, F, sc) () (?T2, F, sc)"
      using T1(2,3) by simp
  qed simp
  show ?thesis
    by (rule serves_weaken [OF serves_nodata [OF H b wLength_dnload c _ T1(1,2)]])
      (use cb T1(4) in \<open>auto simp: Let_def\<close>)
qed

lemma serves_leave:
  assumes H: "usb_hw H E" and b: "between T F" and R: "reset_hw H"
  shows "serves C H E leave_packets (T, F) (\<lambda>r. \<exists>T' F'. r = Stopped Reset (T', F') \<and>
    io (dfu_part T') = Stored W32 0xE000ED0C 0x05FA0004 # Stored W32 stack_word 0 # io (dfu_part T))"
    (is "serves _ _ _ _ _ ?Q")
proof -
  let ?Qd = "\<lambda>r. \<exists>d. r = Stopped Reset d \<and>
    io d = Stored W32 0xE000ED0C 0x05FA0004 # Stored W32 stack_word 0 # io (dfu_part T)"
  show ?thesis unfolding leave_packets_def
  proof (rule serves_append [OF serves_manifest [OF H b]])
    fix B assume "finishes_with (\<lambda>(T', F'). between T' F' \<and> dfu_part T' = manifest_state (dfu_part T)) (Done () B)"
    then obtain T1 F1 where B: "B = (T1, F1)" and 1: "between T1 F1" "dfu_part T1 = manifest_state (dfu_part T)"
      by (cases B) auto
    have ok: "dfu_ok (manifesting (dfu_part T))"
      using b manifest_ok(2) by (simp add: between_def usb_base_def)
    have c: "usbdfu_control_request C H getstatus_request 6 ((dfu_part T1)\<lparr>io := h\<rparr>) =
        Done (USBD_REQ_HANDLED, 6, True) ((manifesting (dfu_part T))\<lparr>io := h\<rparr>)" for h
      unfolding 1(2) by (rule request_manifest(3))
    have io: "io (dfu_part T1) = io (dfu_part T)" by (simp add: 1(2) manifest_state_def)
    have fin: "ends dview (usbdfu_getstatus_complete C H getstatus_request)
        ((manifesting (dfu_part T))\<lparr>io := io (dfu_part T1)\<rparr>) ?Qd"
      unfolding ends_def
    proof (intro allI impI)
      fix d assume d: "dview d = (manifesting (dfu_part T))\<lparr>io := io (dfu_part T1)\<rparr>"
      have st: "usbdfu_state d = STATE_DFU_MANIFEST" "foreign (io d) = io (dfu_part T)"
        using arg_cong [OF d, of usbdfu_state] arg_cong [OF d, of io] by (simp_all add: manifesting_def io)
      from reset_block [OF R, of "io d"] st obtain d' where
        "usbdfu_getstatus_complete C H getstatus_request d = Stopped Reset d'"
        "io d' = Stored W32 0xE000ED0C 0x05FA0004 # Stored W32 stack_word 0 # io d"
        by (auto simp: complete_cases bus_def zoom_def)
      then show "?Qd (view_result dview (usbdfu_getstatus_complete C H getstatus_request d))"
        by (simp add: view_result_def st(2))
    qed
    show "serves C H E getstatus_packets B ?Q" unfolding B
      by (rule serves_weaken [OF serves_getstatus [OF H 1(1) ok c fin]]) (auto split: result.splits)
  qed auto
qed

section \<open>The whole update\<close>

definition update_packets :: "u32 \<Rightarrow> u8 list \<Rightarrow> transaction list" where
  "update_packets a img = download_packets a img @ leave_packets"

text \<open>The history of a device that has reset itself, with the image in its flash.\<close>

definition left_with :: "hw \<Rightarrow> fpec \<Rightarrow> (u32 \<Rightarrow> u16) \<Rightarrow> sram \<Rightarrow> sram \<Rightarrow> history \<Rightarrow> bool" where
  "left_with H F0 f S0 G g \<longleftrightarrow>
     (\<exists>h. foreign g = Stored W32 0xE000ED0C 0x05FA0004 # Stored W32 stack_word 0 # h \<and>
        fpec_idle H F0 h \<and> sram_run S0 h = G \<and> flash_content F0 h = f)"

lemma left_with_foreign [simp]: "left_with H F0 f S0 G (foreign g) = left_with H F0 f S0 G g"
  by (simp add: left_with_def)

lemma serves_update:
  assumes H: "usb_hw H E" and b: "between T F" and d: "dfu_ready C H F0 (dfu_part T)" and R: "reset_hw H"
    and a: "page_base a" "0x08002000 \<le> unat a" "unat a + length img \<le> 0x08020000" "even (length img)"
  shows "serves C H E (update_packets a img) (T, F) (\<lambda>r. \<exists>T' F'. r = Stopped Reset (T', F') \<and>
    left_with H F0 (image_cells a img (flash_content F0 (io (dfu_part T)))) S0
      (sram_run S0 (io (dfu_part T))) (io (dfu_part T')))" (is "serves _ _ _ _ _ ?Q")
proof -
  let ?f = "image_cells a img (flash_content F0 (io (dfu_part T)))"
  let ?G = "sram_run S0 (io (dfu_part T))"
  have r: "wire_ready C H F0 S0 ?G (host_got F) (daddr F) (T, F)"
    using b d by (simp add: wire_ready_def)
  show ?thesis
    unfolding update_packets_def
  proof (rule serves_append [OF wire_download [OF H r a]])
    fix B
    assume "finishes_with (\<lambda>(T', F'). wire_ready C H F0 S0 ?G (host_got F) (daddr F) (T', F') \<and>
      prog_addr (dfu_part T') = a \<and> flash_content F0 (io (dfu_part T')) = ?f) (Done () B)"
    then obtain T1 F1 where B: "B = (T1, F1)"
      and 1: "wire_ready C H F0 S0 ?G (host_got F) (daddr F) (T1, F1)" "flash_content F0 (io (dfu_part T1)) = ?f"
      by (cases B) auto
    from 1(1) have 2: "between T1 F1" "fpec_idle H F0 (io (dfu_part T1))" "sram_run S0 (io (dfu_part T1)) = ?G"
      by (simp_all add: wire_ready_def dfu_ready_def)
    have "left_with H F0 ?f S0 ?G g"
      if "g = Stored W32 0xE000ED0C 0x05FA0004 # Stored W32 stack_word 0 # io (dfu_part T1)" for g
      using 2 1(2) unfolding left_with_def that
      by (intro exI [of _ "foreign (io (dfu_part T1))"]) (simp add: fpec_idle_def)
    then show "serves C H E leave_packets B ?Q"
      unfolding B by (intro serves_weaken [OF serves_leave [OF H 2(1) R]]) blast
  qed auto
qed

section \<open>A session\<close>

text \<open>The host resets the bus, enumerates the device, downloads the image and leaves.\<close>

definition enumeration_packets :: "u16 \<Rightarrow> transaction list" where
  "enumeration_packets adr = [BusReset] @ nodata_packets (address_request adr) @
     nodata_packets configuration_request"

lemma serves_enumeration:
  assumes H: "usb_hw H E" and F: "nothing_due F" and T: "usb_base T" and adr: "adr < 128"
  shows "serves C H E (enumeration_packets adr) (T, F) (finishes_with (\<lambda>(T', F'). between T' F' \<and>
    dfu_part T' = dfu_part T \<and> host_got F' = [[], []] @ host_got F \<and> daddr F' = adr OR USB_DADDR_EF))"
  unfolding enumeration_packets_def
proof (rule serves_append [OF serves_reset [OF H F T]])
  let ?T = "T\<lparr>usb_pm_top := 0xC0\<rparr>" and ?F = "after_reset F"
  have b: "between ?T ?F" using T by (intro after_reset_between) (simp add: usb_base_def)
  have g: "host_got ?F = host_got F" by (simp add: after_reset_def)
  fix B assume "Done () B = (Done () (?T, ?F) :: (device_state, unit) result)"
  then have B: "B = (?T, ?F)" by simp
  show "serves C H E (nodata_packets (address_request adr) @ nodata_packets configuration_request) B
    (finishes_with (\<lambda>(T', F'). between T' F' \<and> dfu_part T' = dfu_part T \<and>
      host_got F' = [[], []] @ host_got F \<and> daddr F' = adr OR USB_DADDR_EF))"
    unfolding B
  proof (rule serves_append [OF serves_set_address [OF H b adr]])
    fix B
    assume "\<exists>T' F'. Done () B = (Done () (T', F') :: (device_state, unit) result) \<and> between T' F' \<and>
      dfu_part T' = dfu_part ?T \<and> host_got F' = [] # host_got ?F \<and> daddr F' = adr OR USB_DADDR_EF"
    then obtain T1 F1 where 1: "B = (T1, F1)" "between T1 F1" "dfu_part T1 = dfu_part T"
      "host_got F1 = [] # host_got F" "daddr F1 = adr OR USB_DADDR_EF" using g by auto
    show "serves C H E (nodata_packets configuration_request) B
      (finishes_with (\<lambda>(T', F'). between T' F' \<and> dfu_part T' = dfu_part T \<and>
        host_got F' = [[], []] @ host_got F \<and> daddr F' = adr OR USB_DADDR_EF))"
      unfolding 1(1) by (rule serves_weaken [OF serves_set_configuration [OF H 1(2)]]) (use 1 in auto)
  qed auto
qed simp

definition session_packets :: "u16 \<Rightarrow> u32 \<Rightarrow> u8 list \<Rightarrow> transaction list" where
  "session_packets adr a img = enumeration_packets adr @ update_packets a img"

lemma serves_session:
  assumes H: "usb_hw H E" and F: "nothing_due F" and T: "usb_base T" and d: "dfu_ready C H F0 (dfu_part T)"
    and R: "reset_hw H" and adr: "adr < 128"
    and a: "page_base a" "0x08002000 \<le> unat a" "unat a + length img \<le> 0x08020000" "even (length img)"
  shows "serves C H E (session_packets adr a img) (T, F) (\<lambda>r. \<exists>T' F'. r = Stopped Reset (T', F') \<and>
    left_with H F0 (image_cells a img (flash_content F0 (io (dfu_part T)))) S0
      (sram_run S0 (io (dfu_part T))) (io (dfu_part T')))"
  unfolding session_packets_def
proof (rule serves_append [OF serves_enumeration [OF H F T adr]])
  fix B
  assume "finishes_with (\<lambda>(T', F'). between T' F' \<and> dfu_part T' = dfu_part T \<and>
    host_got F' = [[], []] @ host_got F \<and> daddr F' = adr OR USB_DADDR_EF) (Done () B)"
  then obtain T1 F1 where 1: "B = (T1, F1)" "between T1 F1" "dfu_part T1 = dfu_part T" by (cases B) auto
  show "serves C H E (update_packets a img) B (\<lambda>r. \<exists>T' F'. r = Stopped Reset (T', F') \<and>
    left_with H F0 (image_cells a img (flash_content F0 (io (dfu_part T)))) S0
      (sram_run S0 (io (dfu_part T))) (io (dfu_part T')))"
    using serves_update [OF H 1(2) _ R a, of C F0 S0] d unfolding 1(1,3) by simp
qed auto

text \<open>
  What a session leaves behind when the device resets: the main loop runs, with ticks and
  lamps between the polls.
\<close>

lemma wire_session:
  assumes H: "usb_hw H E" "lamp_hw H"
    and s: "usb_run E (io (dfu_part (usb_part b))) = (F, sc)" "nothing_due F" "usb_base (usb_part b)"
    and d: "dfu_ready C H F0 (dfu_part (usb_part b))" and R: "reset_hw H" and adr: "adr < 128"
    and a: "page_base a" "0x08002000 \<le> unat a" "unat a + length img \<le> 0x08020000" "even (length img)"
    and t: "tokens sc = session_packets adr a img" and n: "turns_of sc < length ks"
  shows "\<exists>b'. loop_turns C H ks b = Stopped Reset b' \<and>
    left_with H F0 (image_cells a img (flash_content F0 (io (dfu_part (usb_part b))))) S0
      (sram_run S0 (io (dfu_part (usb_part b)))) (io (dfu_part (usb_part b')))"
proof -
  let ?s = "usb_part b"
  let ?left = "\<lambda>T'. left_with H F0 (image_cells a img (flash_content F0 (io (dfu_part ?s)))) S0
    (sram_run S0 (io (dfu_part ?s))) (io (dfu_part T'))"
  have T: "usb_base (seen ?s)" "dfu_part (seen ?s) = dview (dfu_part ?s)"
    using s(3) by (simp_all add: dfu_part_seen)
  have sv: "serves C H E (tokens sc) (seen ?s, F) (\<lambda>r. \<exists>T' F'. r = Stopped Reset (T', F') \<and> ?left T')"
    using serves_session [OF H(1) s(2) T(1) _ R adr a, where ?F0.0 = F0 and ?S0.0 = S0 and C = C] T(2) d t
    by simp
  have "polled C H E (length ks) (seen ?s, F, sc) (\<lambda>r. \<exists>T P. r = Stopped Reset (T, P) \<and> ?left T)"
    by (rule serves_stops [OF sv H(1) s(2) n])
  from polled_turns [OF H(2) this] s(1)
  have "\<exists>T P. view_result (brun E) (loop_turns C H ks b) = Stopped Reset (T, P) \<and> ?left T"
    by (simp add: ends_def brun_def urun_def)
  then show ?thesis
    by (cases "loop_turns C H ks b") (auto simp: view_result_def brun_def urun_def dfu_part_seen)
qed

lemma wire_session_boots:
  assumes H: "usb_hw H E" "lamp_hw H"
    and s: "usb_run E (io (dfu_part (usb_part b))) = (F, sc)" "nothing_due F" "usb_base (usb_part b)"
    and d: "dfu_ready C H F0 (dfu_part (usb_part b))" and len: "36 \<le> length fw" "length fw \<le> 122880"
    and out: "checksum_py fw None = Inr img"
    and sp: "le32 (fw ! 0) (fw ! 1) (fw ! 2) (fw ! 3) AND 0x2FFE0000 = 0x20000000"
    and hw: "boot_hw H F0 S0 w0"
    and chip: "sram_idle H S0 (io (dfu_part (usb_part b)))" "\<not> image_spec (sram_mem S0 (io (dfu_part (usb_part b))))"
    and t: "adr < 128" "tokens sc = session_packets adr 0x08002000 img" and n: "turns_of sc < length ks"
  shows "\<exists>b' h'. loop_turns C H ks b = Stopped Reset b' \<and>
    boot flash_config H (io (dfu_part (usb_part b'))) = Stopped (JumpApp (le32 (fw ! 0) (fw ! 1) (fw ! 2) (fw ! 3))
      (le32 (fw ! 4) (fw ! 5) (fw ! 6) (fw ! 7))) h'"
proof -
  let ?g = "io (dfu_part (usb_part b))"
  note l = patched_length [OF len out]
  have ev: "even (length img)" using l(1) dvd_trans [of 2 4 "length img"] by (simp add: dvd_eq_mod_eq_0)
  have R: "reset_hw H" using hw by (simp add: boot_hw_def)
  have a: "0x08002000 \<le> unat (0x08002000 :: u32)" "unat (0x08002000 :: u32) + length img \<le> 0x08020000"
    using l(2) by simp_all
  from wire_session [OF H s d R t(1) app_page_base a ev t(2) n, where ?S0.0 = S0] obtain b' h where
    1: "loop_turns C H ks b = Stopped Reset b'"
      "foreign (io (dfu_part (usb_part b'))) = Stored W32 0xE000ED0C 0x05FA0004 # Stored W32 stack_word 0 # h"
      "fpec_idle H F0 h" "sram_run S0 h = sram_run S0 ?g"
      "flash_content F0 h = image_cells 0x08002000 img (flash_content F0 ?g)"
    by (auto simp: left_with_def)
  let ?g' = "io (dfu_part (usb_part b'))"
  from leave_views [OF 1(2)] have v: "sram_run S0 ?g' = sram_run S0 h"
    "fpec_run F0 ?g' = fpec_run F0 h" "stack_run w0 ?g' = 0" by simp_all
  have "\<exists>h'. boot flash_config H ?g' = Stopped (JumpApp
      (le32 (fw ! 0) (fw ! 1) (fw ! 2) (fw ! 3)) (le32 (fw ! 4) (fw ! 5) (fw ! 6) (fw ! 7))) h'"
    using image_boots [OF len out sp hw, of ?g' "flash_content F0 ?g"] v 1(3-5) chip
    by (auto simp: fpec_idle_def sram_idle_def sram_mem_def flash_content_def)
  with 1(1) show ?thesis by blast
qed

end
