(* ===== verification/PowerOn.thy ===== *)
theory PowerOn
  imports UsbSession
begin

text \<open>
  From power-on to the main loop, seen from the USB peripheral: the boot code leaves it
  alone, the start of DFU mode switches it on, and the host's script begins behind the
  pauses of the start. The other devices are left as the boot code leaves them.
\<close>

section \<open>The start of DFU mode and a bystander\<close>

definition start_regs :: "u32 list" where
  "start_regs = [RCC_CR, RCC_CFGR, FLASH_ACR, SysTick_BASE, SysTick_BASE + 4, SysTick_BASE + 8,
     RCC_APB2ENR, USB_RCC_APB1ENR, GPIO_CRL GPIOA, GPIO_CRH GPIOA, GPIO_BSRR GPIOA,
     GPIO_CRL GPIOC, GPIO_CRH GPIOC, GPIO_BSRR GPIOC]"

locale start_bystander = bystander +
  assumes start_apart: "a \<in> set start_regs \<Longrightarrow> \<not> touches W32 a"
begin

lemma start_leaves:
  "a \<in> set start_regs \<Longrightarrow> keeps (\<lambda>h. view h = G) (store32 H a v)"
  "a \<in> set start_regs \<Longrightarrow> keeps (\<lambda>h. view h = G) (or32 H a v)"
  by (simp_all add: leaves_store leaves_or32 start_apart)

lemma leaves_clock: "keeps (\<lambda>h. view h = G) (clock_setup_in_hse_8mhz_out_72mhz H)"
  unfolding clock_setup_in_hse_8mhz_out_72mhz_def
  by (rule leaves_list) (simp add: start_leaves start_regs_def leaves_spin leaves_load keeps_bindc)

lemma leaves_systick: "keeps (\<lambda>h. view h = G) (systick_setup H t)"
  unfolding systick_setup_def
  by (intro keeps_if keeps_bindc keeps_give leaves_list) (simp add: start_leaves start_regs_def)

lemma leaves_pins:
  assumes "p = GPIOA \<or> p = GPIOC"
  shows "keeps (\<lambda>h. view h = G) (gpio_set_output H p n)" "keeps (\<lambda>h. view h = G) (rcc_gpio_enable H p)"
    "keeps (\<lambda>h. view h = G) (gpio_set H p n)" "keeps (\<lambda>h. view h = G) (gpio_clear H p n)"
  using assms unfolding gpio_set_output_def gpio_set_mode_def rcc_gpio_enable_def gpio_set_def gpio_clear_def
  by (auto intro!: keeps_rules start_leaves leaves_load simp: start_regs_def)

lemma leaves_unique_id: "keeps (\<lambda>h. view h = G) (get_dev_unique_id H)"
proof -
  have "keeps (\<lambda>h. view h = G) (unique_id_digits H a n)" for a n
    by (induction n arbitrary: a) (auto intro!: keeps_rules leaves_load8)
  then show ?thesis by (simp add: get_dev_unique_id_def)
qed

end

lemma start_regs_apart:
  assumes "a \<in> set start_regs"
  shows "\<not> usb_range a" "\<not> touches_fpec W32 a" "\<not> touches_sram W32 a" "a \<noteq> stack_word"
  using assms by (auto simp: start_regs_def usb_range_def reg_defs GPIOA_def GPIOC_def SPI_SRAM_PORT_def)

interpretation us: start_bystander "usb_run E" "\<lambda>w a. usb_range a" for E
  by unfold_locales (rule start_regs_apart(1))

interpretation ts: start_bystander "\<lambda>h. (fpec_run F0 h, sram_run S0 h, stack_run w0 h)"
    "\<lambda>w a. touches_fpec w a \<or> touches_sram w a \<or> a = stack_word" for F0 S0 w0
  by unfold_locales (use start_regs_apart(2-4) in blast)

section \<open>The other devices\<close>

lemma dfu_start_still:
  assumes "dfu_start H h = Done serial h'"
  shows "still F0 S0 w0 h h'"
proof -
  let ?view = "\<lambda>h. (fpec_run F0 h, sram_run S0 h, stack_run w0 h)"
  have r: "\<not> (touches_fpec W32 a \<or> touches_sram W32 a \<or> a = stack_word)"
    if "usb_range a" for a
    using that not_own(1,3-6) by auto
  have "keeps (\<lambda>h. ?view h = G) (SET_REG H a v)" if "usb_range a" for a v G
    unfolding SET_REG_def by (rule tv.leaves_store [OF r [OF that]])
  then have u: "keeps (\<lambda>h. ?view h = G) (usb_init H)" for G
    unfolding usb_init_def
    by (intro tv.leaves_list) (simp add: ts.start_leaves start_regs_def)
  have c: "keeps (\<lambda>h. ?view h = G) (store32 H USB_CNTR_REG v)" for v G
    by (rule tv.leaves_store [OF r]) simp
  have "keeps (\<lambda>h. ?view h = G) (dfu_start H)" for G
    unfolding dfu_start_def
    by (intro keeps_bindc keeps_give ts.leaves_systick ts.leaves_unique_id tv.leaves_list)
      (simp_all add: ts.leaves_clock ts.leaves_pins u c)
  from keeps_Done [OF this refl assms] show ?thesis by (simp add: still_def)
qed

section \<open>The USB peripheral\<close>

text \<open>A run that finishes takes the view of the peripheral from one value to another.\<close>

definition moves :: "periph \<times> host \<Rightarrow> (history, 'a) cmd \<Rightarrow> periph \<times> host \<Rightarrow> periph \<times> host \<Rightarrow> bool" where
  "moves E c X Y \<longleftrightarrow> (\<forall>h x h'. usb_run E h = X \<longrightarrow> c h = Done x h' \<longrightarrow> usb_run E h' = Y)"

lemma moves_bindc: "moves E c X Y \<Longrightarrow> (\<And>x. moves E (f x) Y Z) \<Longrightarrow> moves E (bindc c f) X Z"
  unfolding moves_def bindc_eq_Done by blast

lemma moves_keeps: "keeps (\<lambda>h. usb_run E h = X) c \<Longrightarrow> moves E c X X"
  by (auto simp: moves_def dest: keeps_Done)

lemma moves_give: "moves E (give x) X X"
  by (simp add: moves_def give_def)

lemma moves_never: "(\<And>h x h'. c h \<noteq> Done x h') \<Longrightarrow> moves E c X Y"
  by (simp add: moves_def)

lemma moves_if:
  "(b \<Longrightarrow> moves E c X Y) \<Longrightarrow> (\<not> b \<Longrightarrow> moves E d X Y) \<Longrightarrow> moves E (if b then c else d) X Y"
  by simp

lemma moves_Nil: "moves E (block []) X X"
  by (simp add: moves_give)

lemma moves_Cons: "moves E c X Y \<Longrightarrow> moves E (block cs) Y Z \<Longrightarrow> moves E (block (c # cs)) X Z"
  unfolding block.simps by (rule moves_bindc)

lemma moves_cntr: "moves E (store32 H USB_CNTR_REG v) X (sie X)"
  by (auto simp: moves_def store_def split: option.splits)

lemma moves_write:
  assumes "a \<noteq> USB_CNTR_REG" and "usb_write a v F = F"
  shows "moves E (SET_REG H a v) (F, sc) (F, sc)"
  using assms by (auto simp: moves_def SET_REG_def store_def split: option.splits)

lemma moves_init_regs:
  "moves E (SET_REG H USB_BTABLE_REG 0) (F, sc) (F, sc)"
  "\<not> resetting F \<Longrightarrow> moves E (SET_REG H USB_ISTR_REG 0) (F, sc) (F, sc)"
proof -
  show "moves E (SET_REG H USB_BTABLE_REG 0) (F, sc) (F, sc)"
    by (rule moves_write) (simp_all add: usb_write_def pma_slot_def reg_defs)
  show "moves E (SET_REG H USB_ISTR_REG 0) (F, sc) (F, sc)" if "\<not> resetting F"
  proof (rule moves_write)
    show "USB_ISTR_REG \<noteq> USB_CNTR_REG" by (simp add: reg_defs)
    have "F\<lparr>resetting := False\<rparr> = F" using that by (cases F) simp
    then show "usb_write USB_ISTR_REG 0 F = F" by (simp add: usb_write_def reg_defs)
  qed
qed

text \<open>The start makes three stores to the control register: the host pauses meanwhile.\<close>

lemma dfu_start_moves:
  assumes "nothing_due F"
  shows "moves E (dfu_start H) (F, replicate 3 None @ sc) (F, sc)"
proof -
  have n: "\<not> resetting F" using assms by (simp add: nothing_due_def)
  have p: "GPIOA = GPIOA \<or> GPIOA = GPIOC" "GPIOC = GPIOA \<or> GPIOC = GPIOC" by simp_all
  note keep = moves_keeps [OF us.leaves_pins(1) [OF p(1)]] moves_keeps [OF us.leaves_pins(2) [OF p(1)]]
    moves_keeps [OF us.leaves_pins(3) [OF p(1)]] moves_keeps [OF us.leaves_pins(4) [OF p(1)]]
    moves_keeps [OF us.leaves_pins(1) [OF p(2)]] moves_keeps [OF us.leaves_pins(2) [OF p(2)]]
    moves_keeps [OF us.leaves_pins(3) [OF p(2)]] moves_keeps [OF us.leaves_pins(4) [OF p(2)]]
    moves_keeps [OF us.leaves_clock] moves_keeps [OF us.leaves_systick] moves_keeps [OF us.leaves_unique_id]
  have c: "moves E (store32 H USB_CNTR_REG v) (F, None # sc') (F, sc')" for v sc'
    using moves_cntr [of E H v "(F, None # sc')"] by simp
  have c': "moves E (SET_REG H USB_CNTR_REG v) (F, None # sc') (F, sc')" for v sc'
    unfolding SET_REG_def by (rule c)
  have e: "moves E (or32 H USB_RCC_APB1ENR v) X X" for v X
    by (rule moves_keeps [OF us.start_leaves(2)]) (simp add: start_regs_def)
  have u: "moves E (usb_init H) (F, None # None # sc) (F, sc)"
    unfolding usb_init_def
    by (rule moves_Cons [OF e], rule moves_Cons [OF c'], rule moves_Cons [OF moves_init_regs(1)],
        rule moves_Cons [OF moves_init_regs(2) [OF n]], rule moves_Cons [OF c' moves_Nil])
  have r: "replicate 3 None = [None, None, None]" by (simp add: numeral_eq_Suc)
  show ?thesis unfolding dfu_start_def r append.simps
    by (rule moves_bindc [OF keep(10)],
        rule moves_bindc [OF moves_Cons [OF keep(9) moves_Cons [OF c moves_Cons [OF keep(2)
          moves_Cons [OF keep(1) moves_Cons [OF keep(4) moves_Nil]]]]]],
        rule moves_bindc [OF keep(11)],
        rule moves_bindc [OF moves_Cons [OF u moves_Cons [OF keep(1) moves_Cons [OF keep(6)
          moves_Cons [OF keep(5) moves_Cons [OF keep(5) moves_Cons [OF keep(7)
          moves_Cons [OF keep(7) moves_Nil]]]]]]]],
        rule moves_give)
qed

section \<open>The boot code\<close>

text \<open>An installation and a start of the application do not return.\<close>

lemma install_never: "install_image H off n h \<noteq> Done u h'"
  by (simp add: install_image_def bindc_eq_Done full_system_reset_def halt_def)

lemma start_never: "start_app C H h \<noteq> Done u h'"
  by (simp add: start_app_def bindc_eq_Done halt_def)

lemma moves_spi_init: "moves E (spi_sram_hw_init H) X X"
proof (rule moves_keeps)
  have nt: "\<not> usb_range a"
    if "a \<in> {RCC_APB2ENR, RCC_APB1ENR, GPIO_CRH SPI_SRAM_PORT, SPI2_CR1, GPIO_BSRR SPI_SRAM_PORT}" for a
    using that by (auto simp: usb_range_def reg_defs SPI_SRAM_PORT_def)
  have w: "keeps (\<lambda>h. usb_run E h = X) (or32 H a m)" "keeps (\<lambda>h. usb_run E h = X) (store32 H a m)"
    if "a \<in> {RCC_APB2ENR, RCC_APB1ENR, GPIO_CRH SPI_SRAM_PORT, SPI2_CR1, GPIO_BSRR SPI_SRAM_PORT}" for a m
    using nt [OF that] by (simp_all add: uv.leaves_or32 uv.leaves_store)
  have km: "keeps (\<lambda>h. usb_run E h = X) (gpio_set_mode H SPI_SRAM_PORT n m)" if "\<not> n < 8" for n m
    unfolding gpio_set_mode_def if_not_P [OF that]
    by (intro keeps_bindc uv.leaves_load w) simp
  have ks: "keeps (\<lambda>h. usb_run E h = X) (gpio_set H SPI_SRAM_PORT n)" for n
    unfolding gpio_set_def by (rule w) simp
  show "keeps (\<lambda>h. usb_run E h = X) (spi_sram_hw_init H)"
    unfolding spi_sram_hw_init_def rcc_gpio_enable_def gpio_set_output_def
    by (rule uv.leaves_list)
      (simp only: list.pred_inject km [OF spi_pins(1)] km [OF spi_pins(2)] km [OF spi_pins(3)]
        km [OF spi_pins(4)] ks w insert_iff simp_thms uv.leaves_load keeps_bindc keeps_give)
qed

lemma moves_boot_from_sram: "moves E (boot_from_sram H) X X"
proof -
  have t: "\<not> usb_range (GPIO_BSRR SPI_SRAM_PORT)" "\<not> usb_range SPI2_DR" by simp_all
  have v: "keeps (\<lambda>h. usb_run E h = X) (sram_has_valid_image H)"
    unfolding sram_has_valid_image_def Let_def split_beta
    by (intro keeps_bindc keeps_if keeps_give uv.leaves_read [OF t] uv.leaves_stream)
  have i: "moves E (if r = 0 then install_image H off n else skip) X X" for r :: int and off n
    by (cases "r = 0") (simp_all add: moves_never install_never moves_give)
  show ?thesis unfolding boot_from_sram_def
  proof (rule moves_bindc [OF moves_spi_init], rule moves_bindc [OF moves_keeps [OF v]])
    fix valid
    show "moves E (if valid
       then bindc (spi_sram_read H SRAM_IMAGE_HEADER_OFFSET
                     (Some (replicate (unat sizeof_header) 0)) sizeof_header) (\<lambda>(r, bs).
            if r = 0
            then install_image H (sram_le32 (offset (header_of_bytes bs)))
                   (sram_le32 (hdr_size (header_of_bytes bs)))
            else skip)
       else skip) X X"
    proof (cases valid)
      case True
      have b: "moves E (case x of (r, bs) \<Rightarrow> if r = 0
            then install_image H (sram_le32 (offset (header_of_bytes bs))) (sram_le32 (hdr_size (header_of_bytes bs)))
            else skip) X X" for x :: "int \<times> u8 list"
        using i by (cases x) simp
      show ?thesis unfolding if_P [OF True]
        by (rule moves_bindc [OF moves_keeps [OF uv.leaves_read [OF t]] b])
    qed (simp add: moves_give)
  qed
qed

lemma moves_load: "moves E (load H w a) X X"
  by (rule moves_keeps [OF uv.leaves_load])

lemma moves_boot: "moves E (boot flash_config H) X X"
proof -
  have r: "moves E (or32 H RCC_CSR RCC_CSR_RMVF) X X"
    by (rule moves_keeps [OF uv.leaves_or32]) (simp add: usb_range_def reg_defs)
  have d: "moves E (go_dfu flash_config H n) X X" for n
  proof (rule moves_keeps)
    have "keeps (\<lambda>h. usb_run E h = X) (rebooted_into_dfu H)"
      unfolding rebooted_into_dfu_def by (intro keeps_bindc keeps_give uv.leaves_load)
    then show "keeps (\<lambda>h. usb_run E h = X) (go_dfu flash_config H n)"
      by (simp add: go_dfu_def flash_config_def force_dfu_gpio_def keeps_bindc keeps_give)
  qed
  have v: "moves E (if enable_checksum flash_config then validate_checksum H APP_ADDRESS n else give True) X X" for n
    by (rule moves_keeps) (simp add: keeps_give uv.leaves_validate_checksum)
  have app: "moves E (boot_app flash_config H n) X X" for n
    unfolding boot_app_def
    by (rule moves_bindc [OF d] moves_bindc [OF r] moves_bindc [OF moves_load] moves_bindc [OF v]
        moves_if moves_give moves_never [OF start_never])+
  have b: "boot flash_config H = bindc (load32 H (APP_ADDRESS + 0x20)) (\<lambda>n.
      bindc (boot_from_sram H) (\<lambda>_. boot_app flash_config H n))"
    by (rule ext) (simp add: boot_def flash_config_def bindc_def give_def)
  show ?thesis unfolding b
    by (rule moves_bindc [OF moves_load], rule moves_bindc [OF moves_boot_from_sram app])
qed

section \<open>A device without an application\<close>

text \<open>
  A device is switched on that holds no valid application and no staged image. The boot code
  goes to DFU mode, and the host's session begins.
\<close>

lemma power_on_session:
  assumes r: "at_reset H F0 S0 w0 []" and lk: "locked F0"
    and blank: "\<not> image_spec (sram_mem S0 [])" "\<not> app_valid (flash_content F0 [])"
    and run: "bindc (boot flash_config H) (\<lambda>_. dfu_start H) [] = Done serial h"
    and H: "usb_hw H E" "lamp_hw H" and E: "E = (F, replicate 3 None @ sc)" "nothing_due F"
    and len: "36 \<le> length fw" "length fw \<le> 122880" and out: "checksum_py fw None = Inr img"
    and sp: "le32 (fw ! 0) (fw ! 1) (fw ! 2) (fw ! 3) AND 0x2FFE0000 = 0x20000000"
    and t: "adr < 128" "tokens sc = session_packets adr 0x08002000 img" and n: "turns_of sc < length ks"
  shows "\<exists>b' h'. loop_turns flash_config H ks (main_init serial h) = Stopped Reset b' \<and>
    boot flash_config H (io (dfu_part (usb_part b'))) = Stopped (JumpApp (le32 (fw ! 0) (fw ! 1) (fw ! 2) (fw ! 3))
      (le32 (fw ! 4) (fw ! 5) (fw ! 6) (fw ! 7))) h'"
proof -
  let ?b = "main_init serial h"
  from run obtain u h1 where 1: "boot flash_config H [] = Done u h1" "dfu_start H h1 = Done serial h"
    by (auto simp: bindc_eq_Done)
  have 2: "at_reset H F0 S0 w0 h1" "sram_mem S0 h1 = sram_mem S0 []" "fpec_run F0 h1 = F0"
    using boot_decides [OF r] 1(1) blank by auto
  note st = still_views [OF dfu_start_still [OF 1(2), where ?F0.0 = F0 and ?S0.0 = S0 and ?w0.0 = w0]]
  have io: "io (dfu_part (usb_part ?b)) = h" by (simp add: main_init_def usb_boot_def dfu_init_def)
  have rest: "at_reset H F0 S0 w0 h" using 2(1) st(4) by simp
  have hw: "boot_hw H F0 S0 w0" and chip: "sram_idle H S0 h" "\<not> image_spec (sram_mem S0 h)"
    using rest 2(2) st(2) blank(1) by (simp_all add: at_reset_def)
  have safe: "board_safe (\<lambda>_. True) ?b"
    by (rule board_init_safe [OF dfu_start_serial [OF 1(2)]]) (simp add: list_all_iff)
  then have base: "usb_base (usb_part ?b)" by (simp add: board_safe_def usb_safe_def)
  have "fpec_idle H F0 h"
    using rest lk 2(3) st(5) by (simp add: fpec_idle_def at_reset_def fpec_rest_def)
  then have d: "dfu_ready flash_config H F0 (dfu_part (usb_part ?b))"
    using base io by (simp add: dfu_ready_def usb_base_def flash_config_def)
  have "usb_run E h1 = E" using moves_boot [of E H E] 1(1) unfolding moves_def by (metis usb_run.simps(1))
  with dfu_start_moves [OF E(2), of E H sc] 1(2) E(1) have u: "usb_run E (io (dfu_part (usb_part ?b))) = (F, sc)"
    unfolding io by (simp add: moves_def)
  from wire_session_boots [OF H u E(2) base d len out sp hw _ _ t n] chip
  show ?thesis by (simp add: io)
qed

end
