(* ===== verification/HostSim.thy ===== *)
theory HostSim
  imports PowerOn
begin

text \<open>
  The simulated board with a USB peripheral and a host behind it: it satisfies the hypothesis
  on the bus together with those on the other devices, and the concrete instances of the
  theorems on the wire run on it.
\<close>

definition usb_answer :: "periph \<Rightarrow> width \<Rightarrow> u32 \<Rightarrow> u32" where
  "usb_answer F w a =
     (if a = USB_ISTR_REG then ucast (istr_bits F)
      else if a = USB_EP_REG 0 then ucast (ep0r F)
      else if pma_slot a then (if w = W8 then ucast (lo8 (pma F a)) else ucast (pma F a))
      else 0)"

fun host_sim :: "periph \<times> host \<Rightarrow> fpec \<Rightarrow> sram \<Rightarrow> u32 \<Rightarrow> hw" where
  "host_sim E F0 S0 w0 h (Load w a) =
     (if usb_range a then Some (usb_answer (fst (usb_run E h)) w a)
      else board_sim F0 S0 w0 h (Load w a))"
| "host_sim E F0 S0 w0 h (Store w a v) = Some 0"

lemma istr_mask: "istr_bits F AND 0x841F = istr_bits F"
  by (simp add: istr_bits_def USB_ISTR_CTR_def USB_ISTR_DIR_def USB_ISTR_RESET_def)

lemma host_sim_usb: "usb_hw (host_sim E F0 S0 w0) E"
proof -
  have a: "\<not> pma_slot USB_ISTR_REG" "\<not> pma_slot USB_BTABLE_REG" "\<not> pma_slot (USB_EP_REG 0)"
    "USB_EP_REG 0 \<noteq> USB_ISTR_REG" "USB_BTABLE_REG \<noteq> USB_ISTR_REG" "USB_BTABLE_REG \<noteq> USB_EP_REG 0"
    by (simp_all add: pma_slot_def reg_defs)
  have p: "usb_range a" "a \<noteq> USB_ISTR_REG" "a \<noteq> USB_EP_REG 0" if "pma_slot a" for a
    using that a pma_slot_range by auto
  show ?thesis
    unfolding usb_hw_def Let_def
    by (simp add: usb_answer_def a p istr_mask)
qed

lemma host_sim_other: "\<not> usb_range a \<Longrightarrow> host_sim E F0 S0 w0 h (Load w a) = board_sim F0 S0 w0 h (Load w a)"
  by simp

lemma not_usb [simp]:
  "\<not> usb_range SPI2_SR" "\<not> usb_range FLASH_SR" "\<not> usb_range SPI2_CR1" "\<not> usb_range RCC_CR"
  by (simp_all add: usb_range_def reg_defs)

lemma host_sim_flash: "fpec_hw (host_sim E F0 S0 w0) F0"
proof -
  have "settles (host_sim E F0 S0 w0) FLASH_SR busy h" for h
    by (rule settles.now [where v = 0])
      (simp only: host_sim_other not_usb not_False_eq_True, simp_all add: busy_def reg_defs in_flash_def)
  moreover have "host_sim E F0 S0 w0 h (Load w a) = board_sim F0 S0 w0 h (Load w a)"
    if "a = FLASH_CR \<or> in_flash a" for h w a
    by (rule host_sim_other) (use that in auto)
  ultimately show ?thesis using sim_flash [of F0 S0 w0] by (simp add: fpec_hw_def)
qed

lemma host_sim_sram: "sram_hw (host_sim E F0 S0 w0) S0"
proof -
  have sr: "host_sim E F0 S0 w0 h (Load W32 SPI2_SR) = Some 3" for h
    unfolding host_sim_other [OF not_usb(1)] by (simp add: reg_defs)
  have "settles (host_sim E F0 S0 w0) SPI2_SR p h" if "\<not> p 3" for p h
    using sr that by (rule settles.now)
  then have t: "settles (host_sim E F0 S0 w0) SPI2_SR (\<lambda>v. v AND SPI_SR_TXE = 0) h"
    "settles (host_sim E F0 S0 w0) SPI2_SR (\<lambda>v. v AND SPI_SR_RXNE = 0) h"
    "settles (host_sim E F0 S0 w0) SPI2_SR (\<lambda>v. v AND SPI_SR_BSY \<noteq> 0) h" for h
    by (simp_all add: reg_defs)
  have d: "host_sim E F0 S0 w0 h (Load W16 SPI2_DR) = board_sim F0 S0 w0 h (Load W16 SPI2_DR)" for h
    by (rule host_sim_other) simp
  show ?thesis
    using sim_sram [of F0 S0 w0] unfolding sram_hw_def sr d by (simp add: t)
qed

lemma host_sim_boot: "boot_hw (host_sim E F0 S0 w0) F0 S0 w0"
proof -
  have "\<not> usb_range a" if "a \<in> set boot_regs" for a
    using that by (auto simp: boot_regs_def usb_range_def reg_defs SPI_SRAM_PORT_def)
  moreover have "\<not> usb_range stack_word" by simp
  ultimately have "host_sim E F0 S0 w0 h (Load w a) = board_sim F0 S0 w0 h (Load w a)"
    if "a \<in> set boot_regs \<or> a = stack_word" for h w a
    using that by (intro host_sim_other) auto
  then show ?thesis
    using sim_boot [of F0 S0 w0] host_sim_flash host_sim_sram by (simp add: boot_hw_def reset_hw_def)
qed

lemma host_sim_lamp: "lamp_hw (host_sim E F0 S0 w0)"
  by (simp add: lamp_hw_def)

lemma host_sim_answering: "answering (host_sim E F0 S0 w0)"
proof -
  have "host_sim E F0 S0 w0 h (Load W32 RCC_CR) = Some 0x02020000" for h
    unfolding host_sim_other [OF not_usb(4)] by (simp add: reg_defs)
  then show ?thesis by (simp add: answering_def)
qed

lemma host_sim_reset:
  assumes "locked F" "\<not> key1 F" "cr F = 0" and "\<not> sel S" "got S = []"
  shows "at_reset (host_sim E F S w0) F S w0 []"
  using host_sim_boot host_sim_flash host_sim_sram assms
  by (simp add: at_reset_def fpec_rest_def sram_idle_def)

section \<open>A factory device and a host\<close>

text \<open>The peripheral after power-on, and after a host has enumerated the device.\<close>

definition usb_off :: periph where
  "usb_off = \<lparr>ep0r = 0, pma = (\<lambda>_. 0), daddr = 0, host_got = [], resetting = False\<rparr>"

definition usb_up :: periph where
  "usb_up = (after_reset usb_off)\<lparr>daddr := 5 OR USB_DADDR_EF\<rparr>"

definition fresh_board :: board where
  "fresh_board = \<lparr>usb_part = usb_boot [], systick = 0, cnt = 500, led_state = 1\<rparr>"

abbreviation host_board :: "periph \<times> host \<Rightarrow> hw" where
  "host_board E \<equiv> host_sim E blank_fpec sram0 0"

lemma fresh_io [simp]: "io (dfu_part (usb_part fresh_board)) = []"
  by (simp add: fresh_board_def usb_boot_def dfu_init_def)

lemma fresh_facts:
  "usb_base (usb_part fresh_board)" "nothing_due usb_off"
  "usb_run E (io (dfu_part (usb_part fresh_board))) = E"
  "dfu_ready flash_config (host_board E) blank_fpec (dfu_part (usb_part fresh_board))"
  "sram_idle (host_board E) sram0 (io (dfu_part (usb_part fresh_board)))"
  "\<not> image_spec (sram_mem sram0 (io (dfu_part (usb_part fresh_board))))"
proof -
  have i: "fpec_idle (host_board E) blank_fpec []"
    using host_sim_flash by (simp add: fpec_idle_def) (simp add: blank_fpec_def)
  have b: "usb_part fresh_board = usb_boot []" "dfu_part (usb_boot []) = dfu_init []"
    by (simp_all add: fresh_board_def usb_boot_def)
  then show "dfu_ready flash_config (host_board E) blank_fpec (dfu_part (usb_part fresh_board))"
    using i by (simp add: dfu_ready_def dfu_ok_init flash_config_def) (simp add: dfu_init_def)
  show "usb_base (usb_part fresh_board)" by (simp add: b usb_base_boot)
  show "nothing_due usb_off" by (simp add: nothing_due_def usb_off_def rx_ctr_def tx_ctr_def)
  show "usb_run E (io (dfu_part (usb_part fresh_board))) = E" by simp
  show "sram_idle (host_board E) sram0 (io (dfu_part (usb_part fresh_board)))"
    using host_sim_sram by (simp add: sram_idle_def) (simp add: sram0_def)
  show "\<not> image_spec (sram_mem sram0 (io (dfu_part (usb_part fresh_board))))"
    by (simp add: factory_blank)
qed

lemma fresh_between: "between (seen (usb_part fresh_board)) usb_up"
proof -
  have "between (seen (usb_part fresh_board)) (after_reset usb_off)"
    by (rule after_reset_between) (simp add: fresh_facts)
  then show ?thesis
    by (simp add: between_def usb_up_def at_rest_def listening_def pma_layout_def after_reset_def USB_DADDR_EF_def)
qed

lemma host_starts:
  "\<exists>serial h. bindc (boot flash_config (host_board E)) (\<lambda>_. dfu_start (host_board E)) [] = Done serial h"
proof -
  have "at_reset (host_board E) blank_fpec sram0 0 []"
    by (rule host_sim_reset) (simp_all add: blank_fpec_def sram0_def)
  then obtain h where 1: "boot flash_config (host_board E) [] = Done () h"
    using boot_decides factory_blank by force
  obtain serial h' where "dfu_start (host_board E) h = Done serial h'"
    using sim_dfu_start [OF host_sim_answering] unfolding finishes_def by blast
  with 1 show ?thesis by (simp add: bindc_def)
qed

end
