(* ===== verification/PropsDrivers.thy ===== *)
theory PropsDrivers
  imports BoardSim Startup
begin

text \<open>
  The properties of the drivers and of the start-up code, each with a concrete instance on
  the simulated board.
\<close>

section \<open>Flash\<close>

text \<open>
  C22: Rewriting a page from a locked controller: unlock, erase unless blank, program, lock
  returns, leaves the controller locked again, and leaves the page with exactly the half
  words of the buffer followed by blank cells, every other cell unchanged.
\<close>

theorem flash_rewrite_session:
  assumes "fpec_idle H F0 h" and "page_base p" and "n \<le> length data" "n \<le> 1024"
  shows "\<exists>h'. block [flash_unlock H,
      block [bindc (flash_page_is_erased H p) (\<lambda>e. if \<not> e then flash_erase_page H p else skip),
        flash_program_buffer H p data n],
      flash_lock H] h = Done () h' \<and> fpec_idle H F0 h' \<and>
    flash_content F0 h' = put_halves p data (n div 2) (erase_cells p (flash_content F0 h))"
  using assms by (rule rewrite_session)

lemma flash_rewrite_session_witness:
  "\<exists>h'. block [flash_unlock factory_board,
      block [bindc (flash_page_is_erased factory_board 0x08002000) (\<lambda>e.
          if \<not> e then flash_erase_page factory_board 0x08002000 else skip),
        flash_program_buffer factory_board 0x08002000 [1, 2, 3, 4] 4],
      flash_lock factory_board] [] = Done () h' \<and> fpec_idle factory_board blank_fpec h' \<and>
    flash_content blank_fpec h' = put_halves 0x08002000 [1, 2, 3, 4] 2
      (erase_cells 0x08002000 (flash_content blank_fpec []))"
  using flash_rewrite_session [OF factory_flash, of "0x08002000" 4 "[1, 2, 3, 4]"]
  by (simp add: page_base_def in_flash_def)

text \<open>
  C37: The safe-write erase: the first call returns with exactly the 120 pages of the
  application area blank and the bootloader's pages unchanged, every later call returns at
  once without an access.
\<close>

theorem safewrite_erase:
  assumes "fpec_usable H F0 h"
  shows "(\<exists>h'. check_do_erase H False h = Done True h' \<and> fpec_usable H F0 h' \<and>
      flash_content F0 h' = erase_span 0x08002000 120 (flash_content F0 h) \<and>
      (\<forall>a. unat a < 0x08002000 \<longrightarrow> flash_content F0 h' a = flash_content F0 h a)) \<and>
    check_do_erase H True h = Done True h"
proof -
  from check_do_erase_once(1) [OF assms] obtain h' where
    "check_do_erase H False h = Done True h'" "fpec_usable H F0 h'"
    "flash_content F0 h' = erase_span 0x08002000 120 (flash_content F0 h)" by blast
  then show ?thesis
    using check_do_erase_once(2) [OF assms] by (auto simp: erase_span_def)
qed

lemma factory_unlocked: "\<exists>h. fpec_usable factory_board blank_fpec h"
  using lfd.unlock_law [OF factory_flash] by blast

lemma safewrite_erase_witness:
  "\<exists>h h'. check_do_erase factory_board False h = Done True h' \<and>
    flash_content blank_fpec h' = erase_span 0x08002000 120 (flash_content blank_fpec h)"
  using factory_unlocked safewrite_erase by blast


definition stuck_flash :: hw where
  "stuck_flash h x = Some FLASH_SR_BSY"

lemma stuck_flash_unsettled: "\<not> settles stuck_flash FLASH_SR busy h"
proof
  assume "settles stuck_flash FLASH_SR busy h"
  then show False
    by induction (simp_all add: stuck_flash_def busy_def reg_defs)
qed


section \<open>GPIO\<close>

text \<open>
  C39: Setting the mode of a pin is one read and one write of the configuration register of
  its half of the port, and changes the four mode bits of that pin only.
\<close>

theorem gpio_mode_nibble:
  fixes x :: u32 and n :: u16 and mode :: u8
  defines "r \<equiv> (if n < 8 then GPIO_CRL x else GPIO_CRH x)" and "i \<equiv> unat n mod 8"
  assumes "n < 16" and "mode < 16" and "H h (Load W32 r) = Some v"
    and "\<And>g w. H g (Store W32 r w) \<noteq> None"
  shows "\<exists>w. gpio_set_mode H x n mode h = Done () (Stored W32 r w # Loaded W32 r v # h) \<and>
    (\<forall>k. bit w k \<longleftrightarrow> (if 4 * i \<le> k \<and> k < 4 * i + 4 then bit mode (k - 4 * i) else bit v k))"
proof -
  have i: "i < 8" "unat (if n < 8 then n else n - 8) = i"
    using assms(3) by (auto simp: i_def word_less_nat_alt unat_sub word_le_nat_alt not_less le_mod_geq)
  have "gpio_set_mode H x n mode h = Done () (Stored W32 r (mode_word v i mode) # Loaded W32 r v # h)"
  proof -
    have s: "store32 H r w g = Done () (Stored W32 r w # g)" for w g
      using assms(6) [of g w] by (simp add: store_def split: option.splits)
    have "load32 H r h = Done v (Loaded W32 r v # h)" using assms(5) by (simp add: load_def)
    with s i(2) show ?thesis unfolding gpio_set_mode_def r_def by (auto simp: bindc_def split: if_splits)
  qed
  with bit_mode_word [OF i(1) assms(4), of v] show ?thesis by blast
qed

lemma gpio_mode_nibble_witness:
  "\<exists>w. gpio_set_mode factory_board 2 14 2 [] =
      Done () [Stored W32 (GPIO_CRH 2) w, Loaded W32 (GPIO_CRH 2) 0]"
proof -
  have "factory_board [] (Load W32 (GPIO_CRH 2)) = Some 0" "\<And>g w. factory_board g (Store W32 (GPIO_CRH 2) w) \<noteq> None"
    by (simp_all add: factory_board_def reg_defs in_flash_def)
  with gpio_mode_nibble [of 14 2 factory_board "[]" 2 0] show ?thesis by auto
qed

section \<open>The RAM chip\<close>

text \<open>
  C23: What is written to the RAM chip is read back: a write followed by a read of the same
  range returns the bytes written, on an idle chip, within the staging area, and the chip
  holds the bytes and nothing else new.
\<close>

theorem sram_write_read:
  assumes "sram_idle H S0 h" and "0 < len" "unat len = length src" "unat a + unat len \<le> 131072"
  shows "\<exists>h1 h2. spi_sram_write H a (Some src) len h = Done 0 h1 \<and>
    spi_sram_read H a (Some (replicate (length src) 0)) len h1 = Done (0, src) h2 \<and>
    sram_idle H S0 h2 \<and> sram_mem S0 h2 = put_bytes a src (sram_mem S0 h)"
  using assms by (rule sw.write_read)

lemma sram_write_read_witness:
  "\<exists>h1 h2. spi_sram_write factory_board 0x100 (Some [1, 2, 3]) 3 [] = Done 0 h1 \<and>
    spi_sram_read factory_board 0x100 (Some (replicate 3 0)) 3 h1 = Done (0, [1, 2, 3]) h2"
proof -
  have n: "0 < (3 :: u32)" "unat (3 :: u32) = length [1, 2, 3 :: u8]"
    "unat (0x100 :: u32) + unat (3 :: u32) \<le> 131072" "length [1, 2, 3 :: u8] = 3" by simp_all
  from sram_write_read [OF factory_sram n(1-3)] show ?thesis unfolding n(4) by blast
qed



section \<open>Checksums\<close>

text \<open>
  C19: The streaming checksum is the checksum of the whole range: reading the staged image in
  chunks of 256 bytes and folding each gives the verdict of the XOR over all its words, and
  sizes that are not multiples of four are rejected; the routine returns.
\<close>

theorem stream_checksum_reference:
  assumes "sram_idle H S0 h" and "unat a + unat sz \<le> 131072"
  shows "\<exists>h'. validate_checksum_stream (Some (spi_sram_read H)) a sz h =
      Done (unat sz mod 4 = 0 \<and>
        xor_list CHECKSUM_XOR_START (words_of (bytes_at (sram_mem S0 h) a (unat sz))) = 0) h' \<and>
    sram_idle H S0 h' \<and> sram_mem S0 h' = sram_mem S0 h"
  using sr.validate_stream_correct [OF assms] by (simp add: and_3_eq xor_sum_def)

lemma stream_checksum_reference_witness:
  "\<exists>h'. validate_checksum_stream (Some (spi_sram_read factory_board)) 12 600 [] =
      Done (xor_list CHECKSUM_XOR_START (words_of (bytes_at (sram_mem sram0 []) 12 600)) = 0) h'"
  using stream_checksum_reference [OF factory_sram, of 12 600] by auto


definition demo_fw :: "u8 list" where
  "demo_fw = bytes32 0x20004FF8 @ bytes32 0x08002101 @ replicate 29 0x5A"

lemma demo_fw_facts:
  "36 \<le> length demo_fw" "length demo_fw \<le> 122880"
  "le32 (demo_fw ! 0) (demo_fw ! 1) (demo_fw ! 2) (demo_fw ! 3) = 0x20004FF8"
  "le32 (demo_fw ! 4) (demo_fw ! 5) (demo_fw ! 6) (demo_fw ! 7) = 0x08002101"
  by (simp_all add: demo_fw_def bytes32_def le32_def)

lemma demo_patched: "\<exists>img. checksum_py demo_fw None = Inr img"
proof -
  have "length demo_fw < 2 ^ 34 - 4" using demo_fw_facts(2) by simp
  with checksum_py_default [of demo_fw] demo_fw_facts(1) show ?thesis by auto
qed


section \<open>Start-up\<close>

text \<open>
  C25: The reset handler returns to its call of main with RAM initialised: every word of the
  data section holds the word of its load image in flash, every word of the bss section is
  zero, no other RAM word was stored, and bit 9 of the configuration control register is
  set with its other bits kept.
\<close>

theorem reset_handler_initialises:
  assumes "stores_answered H" and "holds_words H la ws" and "\<And>h. H h (Load W32 SCB_CCR) = Some ccr"
    and "unat d + 4 * (length ws + m) < 4294967296"
  shows "\<exists>h'. reset_handler H la d (d + 4 * of_nat (length ws)) (d + 4 * of_nat (length ws + m)) h =
      Done () (Stored W32 SCB_CCR (ccr OR 0x200) # Loaded W32 SCB_CCR ccr # h') \<and>
    (\<forall>i < length ws. last_stored (d + 4 * of_nat i) h' = Some (ws ! i)) \<and>
    (\<forall>j < m. last_stored (d + 4 * of_nat (length ws + j)) h' = Some 0) \<and>
    (\<forall>x. (\<forall>i < length ws + m. x \<noteq> d + 4 * of_nat i) \<longrightarrow> last_stored x h' = last_stored x h)"
proof -
  from reset_handler_fills [OF assms] obtain h' where
    e: "reset_handler H la d (d + 4 * of_nat (length ws)) (d + 4 * of_nat (length ws + m)) h =
      Done () (Stored W32 SCB_CCR (ccr OR 0x200) # Loaded W32 SCB_CCR ccr # h')"
    and f: "ram_filled d (ws @ replicate m 0) h h'" by blast
  have s: "last_stored (d + 4 * of_nat i) h' = Some ((ws @ replicate m 0) ! i)"
    if "i < length ws + m" for i
    using f that unfolding ram_filled_def by simp
  have "last_stored (d + 4 * of_nat i) h' = Some (ws ! i)" if "i < length ws" for i
    using s [of i] that by (simp add: nth_append)
  moreover have "last_stored (d + 4 * of_nat (length ws + j)) h' = Some 0" if "j < m" for j
    using s [of "length ws + j"] that by (simp only: nth_append_length_plus nth_replicate)
  moreover have "last_stored x h' = last_stored x h"
    if "\<forall>i < length ws + m. x \<noteq> d + 4 * of_nat i" for x
    using f that unfolding ram_filled_def by simp
  ultimately show ?thesis using e by blast
qed

text \<open>Two data words, loaded from the end of the bootloader, and three bss words.\<close>

definition data_board :: hw where
  "data_board h x = (case x of
       Load w a \<Rightarrow> Some (if a = 0x08001F00 then 0xCAFE0001 else if a = 0x08001F04 then 7 else 0)
     | Store w a v \<Rightarrow> Some 0)"

lemma reset_handler_initialises_witness:
  "\<exists>h'. reset_handler data_board 0x08001F00 0x20000000 0x20000008 0x20000014 [] =
      Done () (Stored W32 SCB_CCR 0x200 # Loaded W32 SCB_CCR 0 # h') \<and>
    last_stored 0x20000004 h' = Some 7 \<and> last_stored 0x20000010 h' = Some 0"
proof -
  have 1: "stores_answered data_board" by (simp add: stores_answered_def data_board_def)
  have 2: "holds_words data_board 0x08001F00 [0xCAFE0001, 7]"
    by (simp add: holds_words_Cons data_board_def) (simp add: holds_words_def)
  have 3: "\<And>h. data_board h (Load W32 SCB_CCR) = Some 0"
    by (simp add: data_board_def SCB_CCR_def)
  have 4: "unat (0x20000000 :: u32) + 4 * (length [0xCAFE0001, 7 :: u32] + 3) < 4294967296"
    by simp
  have l: "length [0xCAFE0001, 7 :: u32] = 2" by simp
  from reset_handler_initialises [OF 1 2 3 4, of "[]", unfolded l] obtain h' where
    h: "reset_handler data_board 0x08001F00 0x20000000 (0x20000000 + 4 * of_nat 2)
        (0x20000000 + 4 * of_nat (2 + 3)) [] =
      Done () (Stored W32 SCB_CCR (0 OR 0x200) # Loaded W32 SCB_CCR 0 # h')"
    and a: "\<forall>i < 2. last_stored (0x20000000 + 4 * of_nat i) h' = Some ([0xCAFE0001, 7] ! i)"
    and b: "\<forall>j < 3. last_stored (0x20000000 + 4 * of_nat (2 + j)) h' = Some 0"
    by blast
  show ?thesis
    by (intro exI [of _ h'])
      (use h a [rule_format, of 1] b [rule_format, of 2] in simp)
qed

text \<open>
  The tick timer is programmed exactly for the periods the 24-bit reload register can
  hold: for 1 to 0x1000000 ticks the reload value is one less than the period, the counter
  is cleared and the timer started with its interrupt, in this order; for any other
  argument the function reports failure and makes no access.
\<close>

theorem systick_setup_range:
  assumes "\<And>g a v. H g (Store W32 a v) \<noteq> None"
  shows "systick_setup H t h =
    (if 0 < unat t \<and> unat t \<le> 0x1000000
     then Done 0 ([Stored W32 (SysTick_BASE + 0) 7, Stored W32 (SysTick_BASE + 8) 0,
                   Stored W32 (SysTick_BASE + 4) (of_nat (unat t - 1))] @ h)
     else Done 1 h)"
proof -
  have s: "store32 H a v g = Done () (Stored W32 a v # g)" for a v g
    using assms [of g a v] by (simp add: store_def split: option.splits)
  have r: "t - 1 > 0xFFFFFF \<longleftrightarrow> \<not> (0 < unat t \<and> unat t \<le> 0x1000000)"
  proof (cases "t = 0")
    case False
    then have "unat (t - 1) = unat t - 1" "0 < unat t"
      by (simp_all add: unat_minus_one unat_gt_0)
    then show ?thesis by (auto simp: word_less_nat_alt)
  qed simp
  have "t - 1 = of_nat (unat t - 1)" if "0 < unat t"
    using that by (simp add: of_nat_diff)
  then show ?thesis unfolding systick_setup_def
    by (simp only: r) (simp add: s bindc_def give_def)
qed

lemma systick_setup_range_witness:
  "systick_setup factory_board 100000 [] =
    Done 0 [Stored W32 SysTick_BASE 7, Stored W32 (SysTick_BASE + 8) 0,
            Stored W32 (SysTick_BASE + 4) 99999]"
proof -
  have "\<And>g a v. factory_board g (Store W32 a v) \<noteq> None" by (simp add: factory_board_def)
  from systick_setup_range [of factory_board, OF this, of 100000 "[]"] show ?thesis by simp
qed

section \<open>Option bytes\<close>

lemma full_system_reset_stops: "full_system_reset H h \<noteq> Done u h'"
  by (auto simp: full_system_reset_def bindc_def store_def halt_def split: option.splits)

lemma rewrite_stops: "rewrite_option_bytes H opt h \<noteq> Done u h'"
  by (auto simp: rewrite_option_bytes_def bindc_def full_system_reset_stops split: result.splits)


section \<open>Watchdog\<close>

text \<open>
  C40: The reload value of the watchdog is the one asked for and fits the 12 bits of its
  register exactly for periods of at most 25 seconds: from 26 seconds on, which the comment
  on the period names as the longest, it is at least 4096 or cut to 16 bits.
\<close>

theorem watchdog_reload_range:
  "unat (watchdog_reload n) = 4096 * n div 26 \<and> unat (watchdog_reload n) \<le> 4095 \<longleftrightarrow> n \<le> 25"
proof
  assume "n \<le> 25"
  then have "4096 * n \<le> 102400" by simp
  then have "4096 * n div 26 \<le> 102400 div 26" by (rule div_le_mono)
  then show "unat (watchdog_reload n) = 4096 * n div 26 \<and> unat (watchdog_reload n) \<le> 4095"
    by (simp add: watchdog_reload_def unat_of_nat take_bit_eq_mod)
next
  assume a: "unat (watchdog_reload n) = 4096 * n div 26 \<and> unat (watchdog_reload n) \<le> 4095"
  show "n \<le> 25"
  proof (rule ccontr)
    assume "\<not> n \<le> 25"
    then have "26 * 4096 div 26 \<le> 4096 * n div 26" by (intro div_le_mono) simp
    with a show False by simp
  qed
qed

end
