(* ===== verification/PropsWire.thy ===== *)
theory PropsWire
  imports HostSim PropsDrivers
begin

text \<open>
  The properties of the device on the wire: the main loop against a host that sends its
  requests packet by packet. The concrete instances run on the simulated board.
\<close>

lemma tokens_Some [simp]: "tokens (map Some ts) = ts"
  by (induction ts) simp_all

lemma between_due: "between T F \<Longrightarrow> nothing_due F"
  by (simp add: between_def rest_nothing_due)

lemma between_seen [simp]: "between (seen s) F = between s F"
  by (simp add: between_def)

section \<open>Enumeration\<close>

text \<open>
  C16: A device on which nothing waits to be handled, in whatever state its endpoint and its
  packet memory are, is enumerated by a host that resets the bus, sets an address and sets
  the configuration, with pauses anywhere: the loop answers in the turns the script takes,
  the device then listens at that address, has sent nothing but the two empty status packets,
  and its class state is as before.
\<close>

theorem enumeration_addresses_device:
  assumes "usb_hw H E" and "lamp_hw H" and "usb_base (usb_part b)"
    and "usb_run E (io (dfu_part (usb_part b))) = (F, sc)" and "nothing_due F"
    and "adr < 128" and "tokens sc = enumeration_packets adr" and "length ks = Suc (turns_of sc)"
  shows "\<exists>b' F'. loop_turns C H ks b = Done () b' \<and>
    usb_run E (io (dfu_part (usb_part b'))) = (F', []) \<and> between (usb_part b') F' \<and>
    daddr F' = adr OR USB_DADDR_EF \<and> host_got F' = [[], []] @ host_got F \<and>
    dview (dfu_part (usb_part b')) = dview (dfu_part (usb_part b))"
proof -
  have T: "usb_base (seen (usb_part b))" using assms(3) by simp
  from serves_turns [OF serves_enumeration [OF assms(1,5) T assms(6), of C, folded assms(7)] assms(1,2,5,4,8)]
  show ?thesis by (auto simp: dfu_part_seen split: result.splits)
qed

lemma enumeration_addresses_device_witness:
  "let H = host_board (usb_off, None # map Some (enumeration_packets 5)) in
   \<exists>b'. loop_turns flash_config H (replicate 8 (1, 0)) fresh_board = Done () b'"
proof -
  let ?sc = "None # map Some (enumeration_packets 5)"
  have "tokens ?sc = enumeration_packets 5" "length (replicate 8 (1, 0)) = Suc (turns_of ?sc)"
    by (simp_all add: enumeration_packets_def nodata_packets_def)
  from enumeration_addresses_device [OF host_sim_usb host_sim_lamp fresh_facts(1,3,2) _ this]
  show ?thesis unfolding Let_def by fastforce
qed

section \<open>One block\<close>

text \<open>
  C14: The packets of a block refine the exchange of the class code. Whatever holds of every
  outcome of the exchange, on any state with the same view, holds of the class part of the
  device after the host has sent the block packet by packet and asked for the status; if the
  loop returns, the host has received the empty status packet and the reply that the device
  is busy, and the device waits for the next transfer.
\<close>

theorem packets_refine_exchange:
  assumes "usb_hw H E" and "lamp_hw H" and "between (usb_part b) F"
    and "usb_run E (io (dfu_part (usb_part b))) = (F, sc)"
    and "0 < length data" "length data \<le> 1024" and "tokens sc = exchange_packets bn data"
    and "length ks = Suc (turns_of sc)"
    and "ends dview (dfu_exchange C H bn data) (dview (dfu_part (usb_part b))) Q"
  shows "case loop_turns C H ks b of
      Done _ b' \<Rightarrow> Q (Done () (dview (dfu_part (usb_part b')))) \<and>
        (\<exists>F'. usb_run E (io (dfu_part (usb_part b'))) = (F', []) \<and> between (usb_part b') F' \<and>
           host_got F' = busy_reply # [] # host_got F)
    | Stopped r b' \<Rightarrow> Q (Stopped r (dview (dfu_part (usb_part b'))))"
proof -
  let ?Q = "\<lambda>r. Q r \<and> (case r of Done _ d \<Rightarrow> dfu_ok d | Stopped _ _ \<Rightarrow> True)"
  have ok: "dfu_ok d = dfu_ok (dview d)" for d by (simp add: dview_def)
  have base: "dfu_ok (dfu_part (usb_part b))" using assms(3) by (simp add: between_def usb_base_def)
  have e: "ends dview (dfu_exchange C H bn data) (dfu_part (seen (usb_part b))) ?Q"
    unfolding ends_def dfu_part_seen
  proof (intro allI impI)
    fix s assume s: "dview s = dview (dfu_part (usb_part b))"
    then have "dfu_ok s" using base ok by metis
    then have "dfu_ok s'" if "dfu_exchange C H bn data s = Done u s'" for u s'
      using sa.class_exchange [OF _ assms(5,6) that, of undefined "sram_run undefined (io s)"] by blast
    moreover have "Q (view_result dview (dfu_exchange C H bn data s))" using assms(9) s by (simp add: ends_def)
    ultimately show "?Q (view_result dview (dfu_exchange C H bn data s))"
      using ok by (cases "dfu_exchange C H bn data s") (simp_all add: view_result_def)
  qed
  have b: "between (seen (usb_part b)) F" using assms(3) by simp
  have sv: "serves C H E (tokens sc) (seen (usb_part b), F) (\<lambda>r. case r of
      Done _ (T', F') \<Rightarrow> between T' F' \<and> ?Q (Done () (dfu_part T')) \<and>
        host_got F' = busy_reply # [] # host_got F \<and> daddr F' = daddr F
    | Stopped q (T', F') \<Rightarrow> ?Q (Stopped q (dfu_part T')))"
    unfolding assms(7) by (rule serves_exchange [OF assms(1) b assms(5,6) e]) simp
  from serves_turns [OF sv assms(1,2) between_due [OF assms(3)] assms(4,8)]
  show ?thesis by (auto simp: dfu_part_seen split: result.splits prod.splits)
qed

lemma packets_refine_exchange_witness:
  "let sc = map Some (exchange_packets 0 (CMD_SETADDR # bytes32 0x08004000)); H = host_board (usb_up, sc) in
   \<exists>b'. loop_turns flash_config H (replicate (Suc (turns_of sc)) (0, 0)) fresh_board = Done () b' \<and>
     prog_addr (dfu_part (usb_part b')) = 0x08004000"
proof -
  let ?d = "CMD_SETADDR # bytes32 0x08004000"
  let ?sc = "map Some (exchange_packets 0 ?d)"
  let ?H = "host_board (usb_up, ?sc)" and ?Q = "finishes_with (\<lambda>d. prog_addr d = 0x08004000)"
  have 1: "0 < length ?d" "length ?d \<le> 1024" "tokens ?sc = exchange_packets 0 ?d"
    "length (replicate (Suc (turns_of ?sc)) (0, 0)) = Suc (turns_of ?sc)"
    by (simp_all del: list.map replicate.simps)
  have b: "between (usb_part fresh_board) usb_up" using fresh_between by simp
  let ?D = "dview (dfu_part (usb_part fresh_board))"
  have "dfu_ready flash_config ?H blank_fpec ?D" using fresh_facts(4) by simp
  then have r: "dfu_ready flash_config ?H blank_fpec s" if "dview s = ?D" for s
    using that by (metis ready_dview)
  have e: "ends dview (dfu_exchange flash_config ?H 0 ?d) ?D ?Q"
    unfolding ends_def using set_address [OF r, of _ "0x08004000"] by (fastforce simp: view_result_def)
  from packets_refine_exchange [OF host_sim_usb host_sim_lamp b fresh_facts(3) 1 e]
  show ?thesis unfolding Let_def by (auto simp del: replicate.simps list.map split: result.splits)
qed

section \<open>A download\<close>

text \<open>
  C15: A download packet by packet leaves the image: a host that sets the address pointer and
  sends an image block by block, asking for the status after each block, with pauses
  anywhere, finds the device ready for its next request, the image in the flash, every cell
  outside its pages as before, and has received nothing but empty status packets and replies
  that the device is busy, with the status OK. The loop always returns.
\<close>

theorem wire_download_leaves_image:
  assumes "usb_hw H E" and "lamp_hw H" and "between (usb_part b) F"
    and "usb_run E (io (dfu_part (usb_part b))) = (F, sc)"
    and "dfu_ready C H F0 (dfu_part (usb_part b))"
    and "page_base a" "0x08002000 \<le> unat a" "unat a + length img \<le> 0x08020000" "even (length img)"
    and "tokens sc = download_packets a img" and "length ks = Suc (turns_of sc)"
  shows "\<exists>b' F' k. loop_turns C H ks b = Done () b' \<and>
    usb_run E (io (dfu_part (usb_part b'))) = (F', []) \<and> between (usb_part b') F' \<and>
    dfu_ready C H F0 (dfu_part (usb_part b')) \<and> prog_addr (dfu_part (usb_part b')) = a \<and>
    flash_content F0 (io (dfu_part (usb_part b'))) =
      image_cells a img (flash_content F0 (io (dfu_part (usb_part b)))) \<and>
    host_got F' = concat (replicate k [busy_reply, []]) @ host_got F"
proof -
  let ?T = "seen (usb_part b)" and ?S = undefined
  have w: "wire_ready C H F0 ?S (sram_run ?S (io (dfu_part ?T))) (host_got F) (daddr F) (?T, F)"
    unfolding wire_ready_def using assms(3,5)
    by (auto simp: dfu_part_seen intro: exI [of _ 0])
  from serves_turns [OF wire_download [OF assms(1) w assms(6-9), folded assms(10)]
      assms(1,2) between_due [OF assms(3)] assms(4,11)]
  show ?thesis by (cases "loop_turns C H ks b") (auto simp: wire_ready_def dfu_part_seen)
qed

lemma wire_download_leaves_image_witness:
  "let img = replicate 3000 0x42; sc = map Some (download_packets 0x08002000 img);
     H = host_board (usb_up, sc) in
   \<exists>b'. loop_turns flash_config H (replicate (Suc (turns_of sc)) (1, 0)) fresh_board = Done () b' \<and>
     flash_content blank_fpec (io (dfu_part (usb_part b'))) =
       image_cells 0x08002000 img (flash_content blank_fpec [])"
proof -
  let ?img = "replicate 3000 (0x42 :: u8)"
  let ?sc = "map Some (download_packets 0x08002000 ?img)"
  have b: "between (usb_part fresh_board) usb_up" using fresh_between by simp
  have a: "0x08002000 \<le> unat (0x08002000 :: u32)"
    "unat (0x08002000 :: u32) + length ?img \<le> 0x08020000" "even (length ?img)" by simp_all
  have t: "tokens ?sc = download_packets 0x08002000 ?img"
    "length (replicate (Suc (turns_of ?sc)) (1, 0)) = Suc (turns_of ?sc)" by simp_all
  from wire_download_leaves_image [OF host_sim_usb host_sim_lamp b fresh_facts(3,4) app_page_base a t]
  show ?thesis unfolding Let_def by (auto simp del: replicate.simps)
qed

end
