(* ===== verification/Syscalls.thy ===== *)
theory Syscalls
  imports Cmd
begin

text \<open>
  The stubs of the C library (\<open>Core/Src/syscalls.c\<close>): the calls a hosted program would
  make of an operating system. They fail with an error number, give a constant, or move
  characters between a buffer and the console. The console functions
  \<open>__io_getchar\<close> and \<open>__io_putchar\<close> are weak and have no definition in the repository:
  they are parameters, commands on the console's own state.
\<close>

text \<open>\<open>int\<close>, read with \<open>sint\<close>.\<close>

type_synonym s32 = "32 word"

section \<open>State\<close>

text \<open>The error numbers of \<open>errno.h\<close> the stubs set, and the file type they report.\<close>

datatype errno_code = EINVAL | ECHILD | ENOENT | EMLINK | EAGAIN | ENOMEM

datatype file_type = S_IFCHR

text \<open>
  \<open>errno\<close>, the \<open>st_mode\<close> of the caller's \<open>struct stat\<close>, the caller's buffer and the state
  of the console.
\<close>

record 'd sys =
  errno :: "errno_code option"
  st_mode :: "file_type option"
  chars :: "u8 list"
  console :: 'd

text \<open>\<open>char *__env[1] = { 0 }; char **environ = __env;\<close> the null pointer ends the array.\<close>

definition environ :: "string option list" where
  "environ = [None]"

text \<open>\<open>errno = e; return -1;\<close>\<close>

definition fail_with :: "errno_code \<Rightarrow> ('d sys, s32) cmd" where
  "fail_with e = bindc (modc (errno_update (\<lambda>_. Some e))) (\<lambda>_. give (-1))"

section \<open>The calls that only answer\<close>

definition initialise_monitor_handles :: "('d sys, unit) cmd" where
  "initialise_monitor_handles = skip"

definition sys_getpid :: "('d sys, s32) cmd" where
  "sys_getpid = give 1"

definition sys_kill :: "s32 \<Rightarrow> s32 \<Rightarrow> ('d sys, s32) cmd" where
  "sys_kill pid sig = fail_with EINVAL"

text \<open>\<open>while (1) {}\<close> after the call of \<open>_kill\<close>\<close>

definition sys_exit :: "s32 \<Rightarrow> ('d sys, unit) cmd" where
  "sys_exit status = bindc (sys_kill status (-1)) (\<lambda>_. whilec (give True) skip)"

definition sys_close :: "s32 \<Rightarrow> ('d sys, s32) cmd" where
  "sys_close file = give (-1)"

definition sys_fstat :: "s32 \<Rightarrow> ('d sys, s32) cmd" where
  "sys_fstat file = bindc (modc (st_mode_update (\<lambda>_. Some S_IFCHR))) (\<lambda>_. give 0)"

definition sys_isatty :: "s32 \<Rightarrow> ('d sys, s32) cmd" where
  "sys_isatty file = give 1"

definition sys_lseek :: "s32 \<Rightarrow> s32 \<Rightarrow> s32 \<Rightarrow> ('d sys, s32) cmd" where
  "sys_lseek file ptr dir = give 0"

definition sys_open :: "string \<Rightarrow> s32 \<Rightarrow> ('d sys, s32) cmd" where
  "sys_open path flags = give (-1)"

definition sys_wait :: "('d sys, s32) cmd" where
  "sys_wait = fail_with ECHILD"

definition sys_unlink :: "string \<Rightarrow> ('d sys, s32) cmd" where
  "sys_unlink name = fail_with ENOENT"

definition sys_times :: "('d sys, s32) cmd" where
  "sys_times = give (-1)"

definition sys_stat :: "string \<Rightarrow> ('d sys, s32) cmd" where
  "sys_stat file = bindc (modc (st_mode_update (\<lambda>_. Some S_IFCHR))) (\<lambda>_. give 0)"

definition sys_link :: "string \<Rightarrow> string \<Rightarrow> ('d sys, s32) cmd" where
  "sys_link old new = fail_with EMLINK"

definition sys_fork :: "('d sys, s32) cmd" where
  "sys_fork = fail_with EAGAIN"

definition sys_execve :: "string \<Rightarrow> string list \<Rightarrow> string list \<Rightarrow> ('d sys, s32) cmd" where
  "sys_execve name argv env = fail_with ENOMEM"

section \<open>Reading and writing\<close>

text \<open>
  \<open>*ptr++ = __io_getchar();\<close> stores the low byte of the answer; \<open>__io_putchar(*ptr++)\<close> passes
  the character, which is unsigned on this processor. An index outside the buffer is the
  stop \<open>OutOfBounds\<close>; a negative length makes no turn of the loop.
\<close>

definition on_console :: "('d, 'a) cmd \<Rightarrow> ('d sys, 'a) cmd" where
  "on_console = zoom console (\<lambda>d. console_update (\<lambda>_. d))"

definition read_char :: "('d, s32) cmd \<Rightarrow> nat \<Rightarrow> ('d sys, unit) cmd" where
  "read_char io_getchar i =
     bindc (on_console io_getchar) (\<lambda>c s.
       if i < length (chars s) then Done () (s\<lparr>chars := (chars s)[i := ucast c]\<rparr>)
       else Stopped OutOfBounds s)"

definition sys_read :: "('d, s32) cmd \<Rightarrow> s32 \<Rightarrow> s32 \<Rightarrow> ('d sys, s32) cmd" where
  "sys_read io_getchar file len =
     bindc (forc (nat (sint len)) (read_char io_getchar)) (\<lambda>_. give len)"

definition write_char :: "(s32 \<Rightarrow> ('d, s32) cmd) \<Rightarrow> nat \<Rightarrow> ('d sys, unit) cmd" where
  "write_char io_putchar i s =
     (if i < length (chars s)
      then bindc (on_console (io_putchar (ucast (chars s ! i)))) (\<lambda>_. skip) s
      else Stopped OutOfBounds s)"

definition sys_write :: "(s32 \<Rightarrow> ('d, s32) cmd) \<Rightarrow> s32 \<Rightarrow> s32 \<Rightarrow> ('d sys, s32) cmd" where
  "sys_write io_putchar file len =
     bindc (forc (nat (sint len)) (write_char io_putchar)) (\<lambda>_. give len)"

section \<open>What they do\<close>

text \<open>\<open>_exit\<close> never returns.\<close>

lemma exit_hangs: "sys_exit status s = Stopped Hang (s\<lparr>errno := Some EINVAL\<rparr>)"
proof -
  have "whilec (give True) skip t = Stopped Hang t" for t :: "'d sys"
    by (rule whilec_hangs [where I = "\<lambda>_. True"]) (simp_all add: give_def)
  then show ?thesis
    by (simp add: sys_exit_def sys_kill_def fail_with_def bindc_def modc_def give_def)
qed

text \<open>
  \<open>_read\<close> fills the first \<open>len\<close> characters with what the console gives, in order, and
  leaves the rest of the buffer.
\<close>

primrec console_reads :: "('d, s32) cmd \<Rightarrow> nat \<Rightarrow> 'd \<Rightarrow> (u8 list \<times> 'd) option" where
  "console_reads g 0 d = Some ([], d)"
| "console_reads g (Suc n) d =
     (case console_reads g n d of
       None \<Rightarrow> None
     | Some (cs, d') \<Rightarrow>
         (case g d' of Done c d'' \<Rightarrow> Some (cs @ [ucast c], d'') | Stopped _ _ \<Rightarrow> None))"

lemma console_reads_length: "console_reads g n d = Some (cs, d') \<Longrightarrow> length cs = n"
  by (induction n arbitrary: cs d') (auto split: option.splits result.splits)

lemma read_char_runs:
  assumes "g (console s) = Done c d"
  shows "i < length (chars s) \<Longrightarrow>
      read_char g i s = Done () (s\<lparr>chars := (chars s)[i := ucast c], console := d\<rparr>)"
    and "length (chars s) \<le> i \<Longrightarrow> read_char g i s = Stopped OutOfBounds (s\<lparr>console := d\<rparr>)"
  using assms by (simp_all add: read_char_def on_console_def zoom_def bindc_def)

lemma read_loop:
  assumes "console_reads g n (console s) = Some (cs, d)" and "n \<le> length (chars s)"
  shows "forc n (read_char g) s = Done () (s\<lparr>chars := cs @ drop n (chars s), console := d\<rparr>)"
  using assms
proof (induction n arbitrary: cs d)
  case 0
  then show ?case by (simp add: give_def)
next
  case (Suc n)
  then obtain bs d1 c where r: "console_reads g n (console s) = Some (bs, d1)"
    and c: "g d1 = Done c d" and cs: "cs = bs @ [ucast c]"
    by (auto split: option.splits result.splits)
  from Suc.IH [OF r] Suc.prems(2)
  have f: "forc n (read_char g) s = Done () (s\<lparr>chars := bs @ drop n (chars s), console := d1\<rparr>)"
    by simp
  from r have l: "length bs = n" by (rule console_reads_length)
  have d: "drop n (chars s) = chars s ! n # drop (Suc n) (chars s)"
    using Suc.prems(2) by (simp add: Cons_nth_drop_Suc)
  show ?case
    using l Suc.prems(2)
    by (simp add: forc_Suc bindc_def f read_char_runs [where c = c and d = d] c cs d
        list_update_append)
qed

lemma read_fills:
  assumes "console_reads g (nat (sint len)) (console s) = Some (cs, d)"
    and "nat (sint len) \<le> length (chars s)"
  shows "sys_read g file len s =
     Done len (s\<lparr>chars := cs @ drop (nat (sint len)) (chars s), console := d\<rparr>)"
  unfolding sys_read_def
  by (simp only: bindc_Done [of "forc (nat (sint len)) (read_char g)", OF read_loop [OF assms]])
    (simp add: give_def)

text \<open>A length below zero reads nothing and is handed back as the number of characters.\<close>

lemma read_negative: "sint len \<le> 0 \<Longrightarrow> sys_read g file len s = Done len s"
  by (simp add: sys_read_def give_def)

text \<open>A buffer that is too short is overrun.\<close>

lemma read_overruns:
  assumes "console_reads g (Suc (length (chars s))) (console s) = Some (cs, d)"
    and "length (chars s) < nat (sint len)"
  shows "\<exists>s'. sys_read g file len s = Stopped OutOfBounds s'"
proof -
  let ?n = "length (chars s)"
  from assms(1) obtain bs d1 c where r: "console_reads g ?n (console s) = Some (bs, d1)"
    and c: "g d1 = Done c d"
    by (auto split: option.splits result.splits)
  from read_loop [OF r] console_reads_length [OF r]
  have f: "forc ?n (read_char g) s = Done () (s\<lparr>chars := bs, console := d1\<rparr>)"
    and l: "length bs = ?n" by simp_all
  obtain k where k: "nat (sint len) = Suc ?n + k"
    using assms(2) by (metis less_iff_Suc_add add_Suc)
  have "forc (Suc ?n) (read_char g) s = Stopped OutOfBounds (s\<lparr>chars := bs, console := d\<rparr>)"
    using l by (simp add: forc_Suc bindc_def f read_char_runs [where c = c and d = d] c)
  then have "forc (Suc ?n + j) (read_char g) s =
      Stopped OutOfBounds (s\<lparr>chars := bs, console := d\<rparr>)" for j
    by (induction j) (simp_all add: forc_Suc bindc_def)
  then show ?thesis by (simp add: sys_read_def k bindc_def)
qed

text \<open>
  \<open>_write\<close> leaves the buffer and passes its characters in order.
\<close>

primrec console_writes :: "(s32 \<Rightarrow> ('d, s32) cmd) \<Rightarrow> u8 list \<Rightarrow> 'd \<Rightarrow> 'd option" where
  "console_writes p [] d = Some d"
| "console_writes p (c # cs) d =
     (case p (ucast c) d of Done _ d' \<Rightarrow> console_writes p cs d' | Stopped _ _ \<Rightarrow> None)"

lemma console_writes_append:
  "console_writes p (cs @ ds) d = Option.bind (console_writes p cs d) (console_writes p ds)"
  by (induction cs arbitrary: d) (auto split: result.splits)

lemma write_char_runs:
  assumes "p (ucast (chars s ! i)) (console s) = Done c d" and "i < length (chars s)"
  shows "write_char p i s = Done () (s\<lparr>console := d\<rparr>)"
  using assms by (simp add: write_char_def on_console_def zoom_def bindc_def give_def)

lemma write_loop:
  assumes "console_writes p (take n (chars s)) (console s) = Some d" and "n \<le> length (chars s)"
  shows "forc n (write_char p) s = Done () (s\<lparr>console := d\<rparr>)"
  using assms
proof (induction n arbitrary: d)
  case 0
  then show ?case by (simp add: give_def)
next
  case (Suc n)
  have t: "take (Suc n) (chars s) = take n (chars s) @ [chars s ! n]"
    using Suc.prems(2) by (simp add: take_Suc_conv_app_nth)
  from Suc.prems(1) obtain d1 c where r: "console_writes p (take n (chars s)) (console s) = Some d1"
    and c: "p (ucast (chars s ! n)) d1 = Done c d"
    by (auto simp: t console_writes_append split: bind_splits result.splits)
  from Suc.IH [OF r] Suc.prems(2)
  have f: "forc n (write_char p) s = Done () (s\<lparr>console := d1\<rparr>)" by simp
  show ?case
    using Suc.prems(2)
    by (simp add: forc_Suc bindc_def f write_char_runs [where c = c and d = d] c)
qed

lemma write_passes:
  assumes "console_writes p (take (nat (sint len)) (chars s)) (console s) = Some d"
    and "nat (sint len) \<le> length (chars s)"
  shows "sys_write p file len s = Done len (s\<lparr>console := d\<rparr>)"
  unfolding sys_write_def
  by (simp only: bindc_Done [of "forc (nat (sint len)) (write_char p)", OF write_loop [OF assms]])
    (simp add: give_def)

end
