(* ===== verification/Spec2Isabelle.thy ===== *)
theory Spec2Isabelle
  imports PropsDfu PropsUsb PropsWire Syscalls
begin

text \<open>
  A verification development for the STM32F103 DFU bootloader: a USB device that rewrites
  the application in flash, a boot loader that checks an application and jumps to it, and an
  installer for images staged in an external SPI RAM.

  \<^bold>\<open>The program.\<close> \<open>Core/Src/init.c\<close> starts \<open>main\<close> (\<open>Core/Src/main.c\<close>), which runs once from reset:
  it may protect the option bytes, installs a staged image if \<open>spi_sram_image.c\<close> finds one
  through \<open>spi_sram.c\<close>, decides between application and DFU mode (\<open>reboot.h\<close>, \<open>watchdog.h\<close>,
  \<open>checksum.c\<close>), and either jumps or starts the USB device and polls it for ever. \<open>usb.c\<close> is
  a control endpoint over the packet memory; class requests go to \<open>usbdfu.c\<close>, whose
  completion callback erases and programs the flash through \<open>flash.c\<close>. The host tool
  \<open>Releas-PRG/checksum.py\<close> patches a binary so that the boot code accepts it.

  \<^bold>\<open>The execution model\<close> (\<open>Cmd\<close>). Code is a command: a function of its state that finishes with
  a value or stops with a reason (bus fault, system reset, a loop that never ends, an access
  outside a C array, the jump to the application). Each register, flash, packet memory or
  reset-surviving RAM access is one bus access, in the order of the source; the bus, that is
  the hardware, is a parameter: a function from the history of accesses to the answer. C
  integers are words of their width. A waiting loop is \<open>while_option\<close> over its loads; if it
  does not end the command stops with \<open>Hang\<close>, in the state in which the loop was entered.
  Statics and globals are records (\<open>dfu\<close>, inside \<open>usb\<close>, inside \<open>board\<close>), and the history is
  a field of the innermost. An interrupt is a step of its own between turns of the main
  loop, and between the two reads of the tick counter.

  \<^bold>\<open>The code, theory by theory.\<close>
  \<open>Prelude\<close>: words, byte orders, list overwriting. \<open>Board\<close>: \<open>flash_config.h\<close> and \<open>board.h\<close>; the
  \<open>#ifdef\<close> switches are a record, \<open>flash_config\<close> is the build of the repository; also the
  write policy, the locale all safety proofs use. \<open>Gpio\<close>: \<open>gpio.c\<close>, \<open>gpio.h\<close>. \<open>Flash\<close>: \<open>flash.c\<close>.
  \<open>Checksum\<close>: \<open>checksum.c\<close>. \<open>ChecksumPy\<close>: \<open>checksum.py\<close>. \<open>SpiSram\<close>: \<open>spi_sram.c\<close>. \<open>SramImage\<close>:
  \<open>spi_sram_image.c\<close>, \<open>sram_image_header.h\<close>. \<open>UsbTypes\<close>, \<open>UsbDesc\<close>, \<open>UsbRegs\<close>: the types, descriptors
  and register macros of \<open>usb.h\<close> and the head of \<open>usb.c\<close>. \<open>Dfu\<close>: \<open>usbdfu.c\<close>, \<open>reboot.h\<close>. \<open>Usb\<close>:
  \<open>usb.c\<close>. \<open>Watchdog\<close>: \<open>watchdog.h\<close>. \<open>Boot\<close>: \<open>main.c\<close>. \<open>Startup\<close>: \<open>init.c\<close>. \<open>Syscalls\<close>:
  \<open>syscalls.c\<close>, the C library stubs, with the weak console functions as parameters.

  \<^bold>\<open>The lemmas.\<close>
  \<open>FlashHw\<close> states the flash controller of the programming manual as a fold over the history,
  \<open>FlashDriver\<close> proves the driver against it and states its contract as locales
  (\<open>flash_driver\<close>, \<open>locked_flash_driver\<close>), which \<open>DfuFlash\<close> and \<open>Install\<close> rest on. \<open>SpiSram\<close> does
  the same for the RAM chip, with the locales \<open>byte_reader\<close> and \<open>byte_store\<close> as the interface
  of the checksum and the image check. \<open>Views\<close> separates the devices on the bus (locale
  \<open>bystander\<close>: which stores may change the view of a device). \<open>DfuSafe\<close>, \<open>UsbSafe\<close> and
  \<open>BootSafe\<close> prove that every command stays in a write policy and keeps the buffer invariants;
  \<open>UsbOut\<close> and \<open>UsbIn\<close> treat the data stages, \<open>UsbPm\<close> the packet memory, \<open>UsbCtl\<close> single
  requests. \<open>DfuFlash\<close> refines a completed block to \<open>commit\<close> on address pointer and flash
  cells, \<open>DfuSession\<close> composes blocks to a download, \<open>DfuStates\<close> gives the transition table and
  the ways to stop. \<open>Install\<close> and \<open>BootSpec\<close> give the outcome of the boot code as a function of
  staged image, reboot word and flash; \<open>EndToEnd\<close> composes download, reset and boot.
  \<open>BoardSim\<close> defines a simulated board that satisfies every hypothesis on flash, RAM chip and
  boot registers at once, \<open>HostSim\<close> the same board with a USB peripheral and a host; the
  concrete instances of the properties run on them. The properties stand in \<open>SramImage\<close>,
  \<open>PropsDrivers\<close>, \<open>PropsDfu\<close>, \<open>PropsUsb\<close>, \<open>PropsWire\<close> and here.

  \<^bold>\<open>The device on the wire.\<close> \<open>UsbPeriph\<close> states the USB peripheral of the reference manual, and
  the host behind it, as a fold over the history: endpoint register 0 with its toggle bits,
  the packet memory, the address register, and a script of transactions (bus reset, SETUP,
  OUT, IN) with pauses, of which one falls between two polls, if the endpoint accepts it.
  \<open>UsbEndpoint\<close> gives the effect of the endpoint operations, packet copies included, on that
  view. \<open>UsbPolls\<close> gives the effect of a poll and the judgement \<open>serves\<close>: what the device has
  done when the host has carried out a list of transactions, with pauses anywhere, in the
  number of turns the script takes (\<open>turns_of\<close>: one for an entry, one more for a bus reset).
  \<open>UsbTransfer\<close> and \<open>UsbDownload\<close> serve the transfers: SETUP, OUT data stage, IN reply,
  status stages, requests without data. \<open>UsbEnum\<close> serves reset, address and configuration.
  \<open>DfuApart\<close> shows that the class code leaves every other device alone (locale
  \<open>flash_bystander\<close>, with the USB peripheral and the RAM chip as its instances), so that the
  packets of a block refine its exchange in the class code (\<open>UsbSession\<close>). The locale
  \<open>block_session\<close> of \<open>DfuSession\<close>, which proves that blocks put the image into the flash, is
  interpreted twice, on the class code and on the wire. \<open>UsbLoop\<close> adds the main loop around
  the polls, with lamps and ticks, and \<open>PowerOn\<close> the way from power-on to the loop: boot code
  and start leave the peripheral as they find it (locale \<open>start_bystander\<close>).

  \<^bold>\<open>The hypotheses.\<close> What the code relies on of the hardware is named: \<open>fpec_hw\<close> (flash
  controller, including that it is not busy for ever), \<open>sram_hw\<close> (RAM chip and SPI status
  flags), \<open>boot_hw\<close> (these two, the reboot word, and that peripheral registers answer),
  \<open>pma_hw\<close> (the buffer table register reads zero, its reset value), \<open>stable_count\<close> (the
  received byte count does not change between the two reads of one expression),
  \<open>top_page_faults\<close> (the last kilobyte of the address space is not mapped), \<open>usb_hw\<close> (the USB
  registers read what the peripheral of \<open>UsbPeriph\<close> holds, the buffer table is at zero),
  \<open>lamp_hw\<close> (the port of the lamps answers). \<open>top_page_faults\<close> is needed because the guard of
  \<open>usbdfu.c\<close> wraps around there. Requests of the host are not restricted anywhere; the
  theorems on downloads and sessions add what a cooperating host sends. In the timing of the
  host \<open>usb_hw\<close> is an idealisation: a transaction falls between two polls, marked by the store
  to \<open>USB_CNTR\<close> with which every poll ends, and the script names only transactions that get
  through (what the endpoint does not accept is repeated). The start of DFU mode makes three
  such stores, so a host that is attached at power-on begins with three pauses.

  \<^bold>\<open>Bounds.\<close> No definition uses fuel: counted loops recurse on their count, the loops over
  chunks and pages have termination measures on the remaining length, and the waiting loops
  end exactly if the hardware lets them (\<open>flash_wait_ends_iff\<close>). Images are at most 120 KB
  (122880 bytes), the size of the application area. A session ends within as many turns of
  the main loop as the host's script takes, pauses included.

  \<^bold>\<open>Not modelled.\<close> Macros of \<open>usb.h\<close> and pin macros of \<open>gpio.h\<close> that no code uses, the
  prototypes of the headers, the linker script (its section bounds are arguments of the
  start-up code, the reserved word is a named address), compiler and core below the level of
  bus accesses, in particular delay loops, which make no access. Of the USB bus, signalling,
  data toggles, frames, suspend and transactions that fall inside a poll; theorems that do
  not name \<open>usb_hw\<close> hold for any answers of the peripheral. The flash write protection and
  option bytes are written as the code does, but the controller model gives them no effect.
  The host tools other than \<open>checksum.py\<close>, documents and binaries of the repository are
  outside the development.
\<close>

section \<open>The whole program\<close>



text \<open>
  C5: The boot code of the configured build always comes to one of three ends. With a valid
  staged image it installs exactly that image, wipes its header and resets. Otherwise it
  jumps to the application, with its stack pointer and entry, if there is no request for DFU
  mode and the flash holds a valid application, and goes to DFU mode in all other cases,
  with flash and RAM chip as they were.
\<close>

theorem boot_outcome:
  assumes "at_reset H F0 S0 w0 h"
  defines "m \<equiv> sram_mem S0 h" and "f \<equiv> flash_content F0 h"
  shows "\<exists>h'. boot flash_config H h =
      (if image_spec m then Stopped Reset h'
       else if stack_run w0 h = 0xCC00FFEE \<or> \<not> app_valid f then Done () h'
       else Stopped (JumpApp (app_word f 0) (app_word f 4)) h') \<and>
    flash_content F0 h' = (if image_spec m then installed m f else f) \<and>
    sram_mem S0 h' = (if image_spec m then put_bytes 0 (replicate 12 0) m else m)"
  using boot_decides [OF assms(1)] unfolding m_def f_def by blast

lemma boot_outcome_witness:
  "\<exists>h'. boot flash_config factory_board [] = Done () h' \<and>
    flash_content blank_fpec h' = flash_content blank_fpec []"
  using boot_outcome [OF factory_at_reset] factory_blank by auto

lemma demo_sp:
  "le32 (demo_fw ! 0) (demo_fw ! 1) (demo_fw ! 2) (demo_fw ! 3) AND 0x2FFE0000 = 0x20000000"
  unfolding demo_fw_facts(3) by simp

text \<open>
  C2: A firmware update over USB ends in the new application. A host resets the bus,
  enumerates the device, downloads a binary patched by the checksum tool to the start of the
  application area and leaves DFU mode, every request packet by packet and with pauses
  anywhere; the main loop runs meanwhile, with ticks and lamps. The device then resets, and
  the boot code that runs next jumps to the entry of exactly that binary with its initial
  stack pointer, whatever the flash held before.
\<close>

theorem session_starts_application:
  assumes "usb_hw H E" "lamp_hw H"
    and "usb_run E (io (dfu_part (usb_part b))) = (F, sc)" "nothing_due F" "usb_base (usb_part b)"
    and "dfu_ready C H F0 (dfu_part (usb_part b))" and "36 \<le> length fw" "length fw \<le> 122880"
    and "checksum_py fw None = Inr img"
    and "le32 (fw ! 0) (fw ! 1) (fw ! 2) (fw ! 3) AND 0x2FFE0000 = 0x20000000"
    and "boot_hw H F0 S0 w0"
    and "sram_idle H S0 (io (dfu_part (usb_part b)))" "\<not> image_spec (sram_mem S0 (io (dfu_part (usb_part b))))"
    and "adr < 128" "tokens sc = session_packets adr 0x08002000 img" and "turns_of sc < length ks"
  shows "\<exists>b' h'. loop_turns C H ks b = Stopped Reset b' \<and>
    boot flash_config H (io (dfu_part (usb_part b'))) = Stopped (JumpApp (le32 (fw ! 0) (fw ! 1) (fw ! 2) (fw ! 3))
      (le32 (fw ! 4) (fw ! 5) (fw ! 6) (fw ! 7))) h'"
  using assms by (rule wire_session_boots)

lemma session_starts_application_witness:
  "\<exists>img b' h'. checksum_py demo_fw None = Inr img \<and>
    (let sc = map Some (session_packets 5 0x08002000 img); H = host_board (usb_off, sc) in
     loop_turns flash_config H (replicate (Suc (turns_of sc)) (0, 0)) fresh_board = Stopped Reset b' \<and>
     boot flash_config H (io (dfu_part (usb_part b'))) = Stopped (JumpApp 0x20004FF8 0x08002101) h')"
proof -
  from demo_patched obtain img where i: "checksum_py demo_fw None = Inr img" by blast
  let ?sc = "map Some (session_packets 5 0x08002000 img)"
  have n: "turns_of ?sc < length (replicate (Suc (turns_of ?sc)) (0, 0))" by simp
  have a: "(5 :: u16) < 128" by simp
  from session_starts_application [OF host_sim_usb host_sim_lamp fresh_facts(3,2,1,4) demo_fw_facts(1,2) i demo_sp
      host_sim_boot fresh_facts(5,6) a tokens_Some n] i
  show ?thesis unfolding demo_fw_facts(3,4) Let_def by blast
qed



text \<open>
  C4: An update over the RAM chip ends in the new application: with a binary patched by the
  checksum tool staged behind a header, anywhere the chip has room for it, the boot code
  installs it and resets, and the next run of the boot code jumps to the entry of exactly
  that binary with its initial stack pointer; it is installed once only.
\<close>

theorem staged_update_starts_application:
  assumes "at_reset H F0 S0 w0 h" and "stages (sram_mem S0 h) off img"
    and "36 \<le> length fw" "length fw \<le> 122880" and "checksum_py fw None = Inr img"
    and "le32 (fw ! 0) (fw ! 1) (fw ! 2) (fw ! 3) AND 0x2FFE0000 = 0x20000000"
  shows "\<exists>h1 h2. boot flash_config H h = Stopped Reset h1 \<and>
    boot flash_config H h1 = Stopped (JumpApp (le32 (fw ! 0) (fw ! 1) (fw ! 2) (fw ! 3))
      (le32 (fw ! 4) (fw ! 5) (fw ! 6) (fw ! 7))) h2"
  using assms by (rule staged_install_boot)

text \<open>The demonstration image in the chip, behind its header\<close>

definition staged_mem :: "u8 list \<Rightarrow> u32 \<Rightarrow> u8" where
  "staged_mem img = put_bytes 0 (bytes_of_header
     \<lparr>magic = SRAM_IMAGE_MAGIC, offset = 12, hdr_size = of_nat (length img)\<rparr>) (put_bytes 12 img (\<lambda>_. 0))"

lemma staged_mem_stages:
  assumes "length img \<le> 122880"
  shows "stages (staged_mem img) 12 img"
proof -
  let ?h = "bytes_of_header \<lparr>magic = SRAM_IMAGE_MAGIC, offset = 12, hdr_size = of_nat (length img)\<rparr>"
  have l: "length ?h = 12" by (simp add: bytes_of_header_def bytes32_def)
  have "bytes_at (staged_mem img) 0 12 = ?h"
    using bytes_at_put_same [of ?h 0 "put_bytes 12 img (\<lambda>_. 0)"] l by (simp add: staged_mem_def)
  moreover have "bytes_at (staged_mem img) 12 (length img) = bytes_at (put_bytes 12 img (\<lambda>_. 0)) 12 (length img)"
    unfolding staged_mem_def using assms l by (intro bytes_at_put_other) simp_all
  moreover have "bytes_at (put_bytes 12 img (\<lambda>_. 0)) 12 (length img) = img"
    using assms by (intro bytes_at_put_same) simp_all
  ultimately show ?thesis using assms by (simp add: stages_def staged_header_def)
qed

lemma staged_update_starts_application_witness:
  "\<exists>H h h1 h2. boot flash_config H h = Stopped Reset h1 \<and>
    boot flash_config H h1 = Stopped (JumpApp 0x20004FF8 0x08002101) h2"
proof -
  from demo_patched obtain img where i: "checksum_py demo_fw None = Inr img" by blast
  let ?S = "\<lparr>sel = False, got = [], mem = staged_mem img\<rparr>"
  have r: "at_reset (board_sim blank_fpec ?S 0) blank_fpec ?S 0 []"
    by (rule sim_at_reset) (simp_all add: blank_fpec_def)
  have "stages (sram_mem ?S []) 12 img"
    using staged_mem_stages patched_length(2) [OF demo_fw_facts(1,2) i] by (simp add: sram_mem_def)
  from staged_update_starts_application [OF r this demo_fw_facts(1,2) i demo_sp]
  show ?thesis unfolding demo_fw_facts(3,4) by blast
qed

end
